(* ===== verification/Prelude.thy ===== *)
theory Prelude
  imports Complex_Main "HOL-Library.AList" "HOL-Library.Char_ord" "HOL-Library.List_Lexorder"
begin

text \<open>
  Shared vocabulary of the development: Python exceptions as values, Python dictionaries as
  association lists with distinct keys (insertion ordered, as CPython's are), JSON values with
  Python's \<open>==\<close>, and the list and dictionary lemmas the component theories rely on.

  A fallible Python function returns \<open>'a res\<close>: \<open>Inl e\<close> is a raised exception, \<open>Inr v\<close> a
  returned value. \<open>d[k] = v\<close> is \<open>AList.update\<close>, which overwrites in place or appends at the
  end; \<open>d.get(k)\<close> is \<open>map_of\<close>.
\<close>

section \<open>Automation\<close>

named_theorems dict_simps \<open>lookup and key lemmas of dictionaries\<close>
named_theorems res_simps \<open>unfolding the exception monad\<close>
named_theorems res_elims \<open>inversion of successful computations\<close>

section \<open>Exceptions\<close>

datatype py_exn =
    ValueError string
  | GraphCycleError "string list"
  | RuntimeError string
  | RunAlreadyStarted string
  | StepResultExistsError string
  | KeyError string
  | IndexError
  | AccessDeniedError string
  | ConflictError string
  | NotFoundError string
  | ValidationFailedError string
  | RunInputValidationError string
  | OtherError string

type_synonym 'a res = "py_exn + 'a"

text \<open>\<open>isinstance(exc, ValueError)\<close> and \<open>isinstance(exc, RuntimeError)\<close>, following the class
  hierarchy of the source: \<open>GraphCycleError\<close> and \<open>RunInputValidationError\<close>
  subclass \<open>ValueError\<close>; \<open>RunAlreadyStarted\<close> and
  \<open>StepResultExistsError\<close> subclass \<open>RuntimeError\<close>.\<close>

fun is_value_error :: "py_exn \<Rightarrow> bool" where
  "is_value_error (ValueError _) = True"
| "is_value_error (GraphCycleError _) = True"
| "is_value_error (RunInputValidationError _) = True"
| "is_value_error _ = False"

fun is_runtime_error :: "py_exn \<Rightarrow> bool" where
  "is_runtime_error (RuntimeError _) = True"
| "is_runtime_error (RunAlreadyStarted _) = True"
| "is_runtime_error (StepResultExistsError _) = True"
| "is_runtime_error _ = False"

definition res_bind :: "'a res \<Rightarrow> ('a \<Rightarrow> 'b res) \<Rightarrow> 'b res" where
  "res_bind m f = (case m of Inl e \<Rightarrow> Inl e | Inr x \<Rightarrow> f x)"

lemma res_bind_simps [simp, res_simps]:
  "res_bind (Inl e) f = Inl e"
  "res_bind (Inr x) f = f x"
  by (simp_all add: res_bind_def)

lemma res_bind_return [simp]: "res_bind m Inr = m"
  by (cases m) simp_all

lemma res_bind_Inr_iff [res_simps]:
  "res_bind m f = Inr y \<longleftrightarrow> (\<exists>x. m = Inr x \<and> f x = Inr y)"
  by (cases m) auto

lemma res_bind_Inl_iff [res_simps]:
  "res_bind m f = Inl e \<longleftrightarrow> m = Inl e \<or> (\<exists>x. m = Inr x \<and> f x = Inl e)"
  by (cases m) auto

lemma res_bind_InrE [res_elims]:
  assumes "res_bind m f = Inr y"
  obtains x where "m = Inr x" and "f x = Inr y"
  using assms by (auto simp: res_bind_Inr_iff)

text \<open>A loop whose body may raise: the first exception ends it.\<close>

fun res_fold :: "('s \<Rightarrow> 'a \<Rightarrow> 's res) \<Rightarrow> 's \<Rightarrow> 'a list \<Rightarrow> 's res" where
  "res_fold f s [] = Inr s"
| "res_fold f s (x # xs) = res_bind (f s x) (\<lambda>s'. res_fold f s' xs)"

lemma res_fold_append:
  "res_fold f s (xs @ ys) = res_bind (res_fold f s xs) (\<lambda>s'. res_fold f s' ys)"
proof (induction xs arbitrary: s)
  case (Cons x xs)
  then show ?case by (cases "f s x") simp_all
qed simp

lemma res_fold_invariant:
  assumes "res_fold f s xs = Inr s'" and "P s"
    and "\<And>s x s'. P s \<Longrightarrow> x \<in> set xs \<Longrightarrow> f s x = Inr s' \<Longrightarrow> P s'"
  shows "P s'"
  using assms
proof (induction xs arbitrary: s)
  case (Cons x xs)
  from Cons.prems(1) obtain s1 where "f s x = Inr s1" and rest: "res_fold f s1 xs = Inr s'"
    by (auto simp: res_bind_Inr_iff)
  with Cons.prems have "P s1" by auto
  with rest Cons.prems(3) show ?case
    by (auto intro: Cons.IH)
qed simp

text \<open>\<open>repr\<close> of a string, as it appears in messages (exact for strings without quotes,
  backslashes and non-printable characters).\<close>

definition py_repr :: "string \<Rightarrow> string" where
  "py_repr s = [CHR 0x27] @ s @ [CHR 0x27]"

section \<open>Dictionaries\<close>

type_synonym ('k, 'v) dict = "('k \<times> 'v) list"

abbreviation dict_ok :: "('k, 'v) dict \<Rightarrow> bool" where
  "dict_ok d \<equiv> distinct (map fst d)"

definition dget :: "('k, 'v) dict \<Rightarrow> 'k \<Rightarrow> 'v \<Rightarrow> 'v" where
  "dget d k dflt = (case map_of d k of None \<Rightarrow> dflt | Some v \<Rightarrow> v)"

text \<open>In-place update \<open>d[k] = f(d[k])\<close> of a key that is present.\<close>

definition dmodify :: "'k \<Rightarrow> ('v \<Rightarrow> 'v) \<Rightarrow> ('k, 'v) dict \<Rightarrow> ('k, 'v) dict" where
  "dmodify k f d = map (\<lambda>(k', v). if k' = k then (k', f v) else (k', v)) d"

text \<open>\<open>{k: v for ...}\<close>: later values replace earlier ones, first positions are kept.\<close>

definition dict_of :: "('k \<times> 'v) list \<Rightarrow> ('k, 'v) dict" where
  "dict_of kvs = foldl (\<lambda>d (k, v). AList.update k v d) [] kvs"

text \<open>\<open>{**left, **right}\<close>\<close>

definition dict_union :: "('k, 'v) dict \<Rightarrow> ('k, 'v) dict \<Rightarrow> ('k, 'v) dict" where
  "dict_union l r = foldl (\<lambda>d (k, v). AList.update k v d) l r"

lemma map_of_update [simp, dict_simps]:
  "map_of (AList.update k v d) k' = (if k' = k then Some v else map_of d k')"
  by (simp add: update_conv')

lemma keys_update [simp, dict_simps]:
  "set (map fst (AList.update k v d)) = insert k (set (map fst d))"
  by (induction d) auto

lemma fst_set_update [simp, dict_simps]:
  "fst ` set (AList.update k v d) = insert k (fst ` set d)"
  using keys_update [of k v d] by simp

lemma dict_ok_update [simp]: "dict_ok d \<Longrightarrow> dict_ok (AList.update k v d)"
  by (simp add: distinct_update)

lemma map_of_dmodify [simp, dict_simps]:
  "map_of (dmodify k f d) k' = (if k' = k then map_option f (map_of d k) else map_of d k')"
  by (induction d) (auto simp: dmodify_def)

lemma map_fst_dmodify [simp, dict_simps]: "map fst (dmodify k f d) = map fst d"
  by (induction d) (auto simp: dmodify_def)

lemma fst_set_dmodify [simp]: "fst ` set (dmodify k f d) = fst ` set d"
  using map_fst_dmodify [of k f d] by (metis list.set_map)

lemma map_of_None_iff [dict_simps]: "map_of d k = None \<longleftrightarrow> k \<notin> fst ` set d"
  by (simp add: map_of_eq_None_iff)

lemma map_of_Some_key: "map_of d k = Some v \<Longrightarrow> k \<in> fst ` set d"
  by (metis domI dom_map_of_conv_image_fst)

lemma key_map_of_Some: "k \<in> fst ` set d \<Longrightarrow> \<exists>v. map_of d k = Some v"
  by (metis map_of_None_iff not_None_eq)

lemma dget_update [simp, dict_simps]:
  "dget (AList.update k v d) k' x = (if k' = k then v else dget d k' x)"
  by (simp add: dget_def)

lemma dict_union_snoc:
  "dict_union l (r @ [(k, v)]) = AList.update k v (dict_union l r)"
  by (simp add: dict_union_def)

lemma map_of_dict_union [dict_simps]:
  assumes "dict_ok r"
  shows "map_of (dict_union l r) k = (case map_of r k of None \<Rightarrow> map_of l k | Some v \<Rightarrow> Some v)"
  using assms
proof (induction r rule: rev_induct)
  case (snoc kv r)
  obtain k' v where kv: "kv = (k', v)" by (cases kv)
  from snoc.prems have ok: "dict_ok r" and fresh: "map_of r k' = None"
    by (auto simp: kv map_of_eq_None_iff)
  show ?case
    using snoc.IH [OF ok] fresh
    by (cases "map_of r k") (auto simp: kv dict_union_snoc map_add_def)
qed (simp add: dict_union_def)

lemma dict_ok_dict_union [simp]: "dict_ok l \<Longrightarrow> dict_ok (dict_union l r)"
proof (induction r rule: rev_induct)
  case (snoc kv r)
  then show ?case by (cases kv) (simp add: dict_union_snoc)
qed (simp add: dict_union_def)

lemma fst_set_dict_union [simp]: "fst ` set (dict_union l r) = fst ` set l \<union> fst ` set r"
proof (induction r rule: rev_induct)
  case (snoc kv r)
  then show ?case by (cases kv) (simp add: dict_union_snoc)
qed (simp add: dict_union_def)

lemma update_same: "map_of d k = Some v \<Longrightarrow> dict_ok d \<Longrightarrow> AList.update k v d = d"
  by (induction d) (auto split: if_splits)

lemma dict_union_known:
  "dict_ok l \<Longrightarrow> \<forall>(k, v) \<in> set r. map_of l k = Some v \<Longrightarrow> dict_union l r = l"
proof (induction r)
  case (Cons kv r)
  then show ?case by (cases kv) (auto simp: dict_union_def update_same)
qed (simp add: dict_union_def)

lemma dict_union_self: "dict_ok l \<Longrightarrow> dict_union l l = l"
  by (rule dict_union_known) (auto simp: map_of_eq_Some_iff)

lemma dict_of_snoc: "dict_of (kvs @ [(k, v)]) = AList.update k v (dict_of kvs)"
  by (simp add: dict_of_def)

lemma dict_ok_dict_of [simp]: "dict_ok (dict_of kvs)"
proof (induction kvs rule: rev_induct)
  case (snoc kv kvs)
  then show ?case by (cases kv) (simp add: dict_of_snoc)
qed (simp add: dict_of_def)

lemma fst_set_dict_of [simp]: "fst ` set (dict_of kvs) = fst ` set kvs"
proof (induction kvs rule: rev_induct)
  case (snoc kv kvs)
  then show ?case by (cases kv) (simp add: dict_of_snoc)
qed (simp add: dict_of_def)

lemma update_fresh: "k \<notin> fst ` set d \<Longrightarrow> AList.update k v d = d @ [(k, v)]"
  by (induction d) auto

lemma dict_of_distinct: "dict_ok kvs \<Longrightarrow> dict_of kvs = kvs"
proof (induction kvs rule: rev_induct)
  case (snoc kv kvs)
  then show ?case
    by (cases kv) (auto simp: dict_of_snoc update_fresh)
qed (simp add: dict_of_def)

section \<open>Lists\<close>

text \<open>\<open>all\<close> lookups succeed, in order.\<close>

fun lookup_all :: "('k, 'v) dict \<Rightarrow> 'k list \<Rightarrow> 'v list option" where
  "lookup_all d [] = Some []"
| "lookup_all d (k # ks) =
     (case map_of d k of None \<Rightarrow> None | Some v \<Rightarrow> map_option ((#) v) (lookup_all d ks))"

lemma lookup_all_Some:
  assumes "set ks \<subseteq> fst ` set d"
  shows "lookup_all d ks = Some (map (\<lambda>k. the (map_of d k)) ks)"
  using assms
proof (induction ks)
  case (Cons k ks)
  then have "k \<in> fst ` set d" by simp
  then obtain v where "map_of d k = Some v" using key_map_of_Some by metis
  with Cons show ?case by simp
qed simp

text \<open>The value of \<open>next((x for x in xs if p(x)), None)\<close> is \<open>List.find p xs\<close>.\<close>

lemma find_None_iff': "List.find P xs = None \<longleftrightarrow> (\<forall>x \<in> set xs. \<not> P x)"
  by (auto simp: find_None_iff)

lemma find_map: "List.find P (map f xs) = map_option f (List.find (P \<circ> f) xs)"
  by (induction xs) auto

lemma find_append: "List.find P (xs @ ys) = (case List.find P xs of None \<Rightarrow> List.find P ys | x \<Rightarrow> x)"
  by (induction xs) auto

lemma find_filter: "List.find P (filter Q xs) = List.find (\<lambda>x. Q x \<and> P x) xs"
  by (induction xs) auto

lemma find_key_map:
  assumes "\<And>x. key (f x) = key x"
  shows "List.find (\<lambda>x. key x = k) (map f xs) = map_option f (List.find (\<lambda>x. key x = k) xs)"
  using assms by (simp add: find_map o_def)

lemma distinct_map_eq: "distinct (map f xs) \<Longrightarrow> x \<in> set xs \<Longrightarrow> y \<in> set xs \<Longrightarrow> f x = f y \<Longrightarrow> x = y"
  by (auto simp: distinct_map dest: inj_onD)

lemma find_SomeD: "List.find P xs = Some x \<Longrightarrow> x \<in> set xs \<and> P x"
  by (induction xs) (auto split: if_splits)

lemma find_key_distinct: "distinct (map key xs) \<Longrightarrow> x \<in> set xs \<Longrightarrow> List.find (\<lambda>y. key y = key x) xs = Some x"
  by (induction xs) force+

lemma find_key_mem: "List.find (\<lambda>x. key x = k) xs = Some x \<Longrightarrow> x \<in> set xs \<and> key x = k"
  by (auto simp: find_Some_iff)

section \<open>Strings\<close>

definition startswith :: "string \<Rightarrow> string \<Rightarrow> bool" where
  "startswith s p = (take (length p) s = p)"

definition rstrip_char :: "char \<Rightarrow> string \<Rightarrow> string" where
  "rstrip_char c s = rev (dropWhile (\<lambda>x. x = c) (rev s))"

text \<open>\<open>str.strip\<close> and \<open>str.lower\<close> on ASCII text.\<close>

definition is_space :: "char \<Rightarrow> bool" where
  "is_space c \<longleftrightarrow> c \<in> {CHR '' '', CHR 0x09, CHR 0x0A, CHR 0x0B, CHR 0x0C, CHR 0x0D,
     CHR 0x1C, CHR 0x1D, CHR 0x1E, CHR 0x1F}"

definition py_strip :: "string \<Rightarrow> string" where
  "py_strip s = rev (dropWhile is_space (rev (dropWhile is_space s)))"

definition lower_char :: "char \<Rightarrow> char" where
  "lower_char c =
     (if 65 \<le> (of_char c :: nat) \<and> (of_char c :: nat) \<le> 90 then char_of ((of_char c :: nat) + 32) else c)"

definition upper_char :: "char \<Rightarrow> char" where
  "upper_char c = (if of_char c \<in> {97..122 :: nat} then char_of (of_char c - 32 :: nat) else c)"

definition py_upper :: "string \<Rightarrow> string" where
  "py_upper s = map upper_char s"

definition py_lower :: "string \<Rightarrow> string" where
  "py_lower s = map lower_char s"

definition endswith :: "string \<Rightarrow> string \<Rightarrow> bool" where
  "endswith s p = (length p \<le> length s \<and> drop (length s - length p) s = p)"

definition replace_char :: "char \<Rightarrow> char \<Rightarrow> string \<Rightarrow> string" where
  "replace_char c d s = map (\<lambda>x. if x = c then d else x) s"

text \<open>\<open>s.split(c, 1)\<close>: the text before the first \<open>c\<close> and the text after it.\<close>

definition split_once :: "char \<Rightarrow> string \<Rightarrow> (string \<times> string) option" where
  "split_once c s =
     (let a = takeWhile (\<lambda>x. x \<noteq> c) s in if length a = length s then None else Some (a, drop (Suc (length a)) s))"

lemma split_once_sep: "c \<notin> set a \<Longrightarrow> split_once c (a @ c # b) = Some (a, b)"
proof -
  assume "c \<notin> set a"
  then have "takeWhile (\<lambda>x. x \<noteq> c) (a @ c # b) = a" by (induction a) auto
  then show ?thesis by (simp add: split_once_def)
qed

lemma py_strip_idem [simp]: "py_strip (py_strip s) = py_strip s"
proof -
  let ?r = "\<lambda>s. rev (dropWhile is_space (rev s))"
  have keep: "dropWhile is_space (?r t) = ?r t" if "dropWhile is_space t = t" for t
  proof (cases t)
    case (Cons c cs)
    with that have "\<not> is_space c" by (metis dropWhile_eq_self_iff list.distinct(1) list.sel(1))
    then have "?r t = c # ?r cs" by (simp add: Cons dropWhile_append)
    with \<open>\<not> is_space c\<close> show ?thesis by simp
  qed simp
  have "py_strip s = ?r (dropWhile is_space s)" by (simp add: py_strip_def)
  moreover have "dropWhile is_space (py_strip s) = py_strip s"
    unfolding py_strip_def by (rule keep) simp
  ultimately show ?thesis by (simp add: py_strip_def)
qed

section \<open>Decimal numbers\<close>

text \<open>\<open>str(n)\<close> of a non-negative integer.\<close>

fun nat_str :: "nat \<Rightarrow> string" where
  "nat_str n = (if n < 10 then [char_of (48 + n)] else nat_str (n div 10) @ [char_of (48 + n mod 10)])"

declare nat_str.simps [simp del]

definition int_str :: "int \<Rightarrow> string" where
  "int_str i = (if i < 0 then CHR ''-'' # nat_str (nat (- i)) else nat_str (nat i))"

definition is_digit :: "char \<Rightarrow> bool" where
  "is_digit c \<longleftrightarrow> 48 \<le> (of_char c :: nat) \<and> (of_char c :: nat) \<le> 57"

text \<open>\<open>int(text)\<close> on ASCII text: blanks around it, a sign, digits with single underscores between
  them, at most 4300 digits.\<close>

fun digits_from :: "bool \<Rightarrow> nat \<Rightarrow> string \<Rightarrow> nat option" where
  "digits_from pd acc [] = (if pd then Some acc else None)"
| "digits_from pd acc (c # cs) =
     (if is_digit c then digits_from True (acc * 10 + (of_char c - 48)) cs
      else if c = CHR ''_'' \<and> pd then digits_from False acc cs else None)"

definition py_nat :: "string \<Rightarrow> nat option" where
  "py_nat s = (if length (filter is_digit s) > 4300 then None else digits_from False 0 s)"

definition py_int :: "string \<Rightarrow> int option" where
  "py_int s =
     (case py_strip s of
        [] \<Rightarrow> None
      | c # cs \<Rightarrow>
          if c = CHR ''-'' then map_option (\<lambda>n. - int n) (py_nat cs)
          else if c = CHR ''+'' then map_option int (py_nat cs)
          else map_option int (py_nat (c # cs)))"

lemma digit_char [simp]:
  fixes d :: nat
  assumes "d < 10"
  shows "is_digit (char_of (48 + d))" "of_char (char_of (48 + d) :: char) = 48 + d"
  using assms by (simp_all add: is_digit_def)

lemma digits_from_append:
  "list_all is_digit a \<Longrightarrow> a \<noteq> [] \<Longrightarrow> digits_from pd acc (a @ b) = digits_from True (foldl (\<lambda>n c. n * 10 + (of_char c - 48)) acc a) b"
proof (induction a arbitrary: pd acc)
  case (Cons c a)
  then show ?case by (cases "a = []") simp_all
qed simp

lemma nat_str_digits: "list_all is_digit (nat_str n)" "nat_str n \<noteq> []"
  by (induction n rule: nat_str.induct, subst nat_str.simps, simp, subst nat_str.simps, simp)

lemma nat_str_value: "foldl (\<lambda>n c. n * 10 + (of_char c - 48)) 0 (nat_str n) = n"
  by (induction n rule: nat_str.induct, subst nat_str.simps, simp)

lemma digits_from_nat_str [simp]: "digits_from pd 0 (nat_str n) = Some n"
  using digits_from_append [OF nat_str_digits, where b = "[]"] by (simp add: nat_str_value)

lemma length_nat_str: "0 < k \<Longrightarrow> n < 10 ^ k \<Longrightarrow> length (nat_str n) \<le> k"
proof (induction n arbitrary: k rule: nat_str.induct)
  case (1 n)
  show ?case
  proof (cases "n < 10")
    case False
    then obtain k' where k: "k = Suc k'" "0 < k'" using 1(2,3) by (cases k; cases "k - 1") auto
    then have "n div 10 < 10 ^ k'" using 1(3) by (simp add: less_mult_imp_div_less mult.commute)
    then show ?thesis using 1(1) [OF False k(2)] False k by (subst nat_str.simps) simp
  qed (use 1(2) in \<open>subst nat_str.simps, simp\<close>)
qed

lemma py_nat_nat_str: "length (nat_str n) \<le> 4300 \<Longrightarrow> py_nat (nat_str n) = Some n"
  by (simp add: py_nat_def linorder_not_less order_trans [OF length_filter_le])

end
