(* ===== verification/Json.thy ===== *)
theory Json
  imports Prelude
begin

text \<open>
  The \<open>Any\<close>-typed values of the program (attribute bags, metadata, parsed output, plugin
  configuration) are JSON documents. \<open>py_eq\<close> is Python's \<open>==\<close> on them: booleans and
  numbers compare by value (\<open>True == 1\<close>), dictionaries ignore the order of their keys.
  Floats are modelled by their exact rational value; NaN and infinities do not occur in JSON.
\<close>

datatype json =
    JNull
  | JBool bool
  | JInt int
  | JFloat rat
  | JStr string
  | JList "json list"
  | JObj "(string \<times> json) list"

type_synonym jdict = "(string, json) dict"

fun num_of :: "json \<Rightarrow> rat option" where
  "num_of (JBool b) = Some (if b then 1 else 0)"
| "num_of (JInt i) = Some (of_int i)"
| "num_of (JFloat r) = Some r"
| "num_of _ = None"

fun py_eq :: "json \<Rightarrow> json \<Rightarrow> bool"
  and py_eq_list :: "json list \<Rightarrow> json list \<Rightarrow> bool"
  and py_eq_fields :: "(string \<times> json) list \<Rightarrow> (string \<times> json) list \<Rightarrow> bool" where
  "py_eq JNull w = (case w of JNull \<Rightarrow> True | _ \<Rightarrow> False)"
| "py_eq (JBool b) w = (num_of w = Some (if b then 1 else 0))"
| "py_eq (JInt i) w = (num_of w = Some (of_int i))"
| "py_eq (JFloat r) w = (num_of w = Some r)"
| "py_eq (JStr s) w = (case w of JStr t \<Rightarrow> s = t | _ \<Rightarrow> False)"
| "py_eq (JList xs) w = (case w of JList ys \<Rightarrow> py_eq_list xs ys | _ \<Rightarrow> False)"
| "py_eq (JObj a) w =
     (case w of JObj b \<Rightarrow> length a = length b \<and> py_eq_fields a b | _ \<Rightarrow> False)"
| "py_eq_list [] ys = (ys = [])"
| "py_eq_list (x # xs) ys = (case ys of [] \<Rightarrow> False | y # ys' \<Rightarrow> py_eq x y \<and> py_eq_list xs ys')"
| "py_eq_fields [] b = True"
| "py_eq_fields ((k, v) # a) b =
     (case map_of b k of None \<Rightarrow> False | Some w \<Rightarrow> py_eq v w \<and> py_eq_fields a b)"

text \<open>Python truthiness.\<close>

fun truthy :: "json \<Rightarrow> bool" where
  "truthy JNull = False"
| "truthy (JBool b) = b"
| "truthy (JInt i) = (i \<noteq> 0)"
| "truthy (JFloat r) = (r \<noteq> 0)"
| "truthy (JStr s) = (s \<noteq> [])"
| "truthy (JList xs) = (xs \<noteq> [])"
| "truthy (JObj d) = (d \<noteq> [])"

text \<open>Well-formed documents: every object, at any depth, has distinct keys.\<close>

fun json_ok :: "json \<Rightarrow> bool"
  and json_ok_list :: "json list \<Rightarrow> bool"
  and json_ok_fields :: "(string \<times> json) list \<Rightarrow> bool" where
  "json_ok JNull = True"
| "json_ok (JBool _) = True"
| "json_ok (JInt _) = True"
| "json_ok (JFloat _) = True"
| "json_ok (JStr _) = True"
| "json_ok (JList xs) = json_ok_list xs"
| "json_ok (JObj a) = (distinct (map fst a) \<and> json_ok_fields a)"
| "json_ok_list [] = True"
| "json_ok_list (x # xs) = (json_ok x \<and> json_ok_list xs)"
| "json_ok_fields [] = True"
| "json_ok_fields ((k, v) # a) = (json_ok v \<and> json_ok_fields a)"

lemma json_ok_fields_iff: "json_ok_fields a \<longleftrightarrow> (\<forall>kv \<in> set a. json_ok (snd kv))"
  by (induction a rule: list.induct) (auto split: prod.splits)

lemma json_ok_list_iff: "json_ok_list xs \<longleftrightarrow> (\<forall>x \<in> set xs. json_ok x)"
  by (induction xs) auto

lemma py_eq_refl_all:
  "json_ok v \<Longrightarrow> py_eq v v"
  "json_ok_list xs \<Longrightarrow> py_eq_list xs xs"
  "json_ok_fields a \<Longrightarrow> distinct (map fst b) \<Longrightarrow> set a \<subseteq> set b \<Longrightarrow> py_eq_fields a b"
proof (induction v and xs and a arbitrary: and and b rule: json_ok_json_ok_list_json_ok_fields.induct)
  case (11 k v a)
  then have "map_of b k = Some v" by (auto simp: map_of_eq_Some_iff)
  with 11 show ?case by auto
qed auto

lemmas py_eq_refl [simp] = py_eq_refl_all(1)

text \<open>Metadata, attribute bags and parsed output are dictionaries of well-formed values.\<close>

definition jdict_ok :: "jdict \<Rightarrow> bool" where
  "jdict_ok d \<longleftrightarrow> dict_ok d \<and> (\<forall>v \<in> snd ` set d. json_ok v)"

lemma jdict_ok_lookup: "jdict_ok d \<Longrightarrow> map_of d k = Some v \<Longrightarrow> json_ok v"
  by (force simp: jdict_ok_def dest: map_of_SomeD)

end
