(* ===== verification/Graph.thy ===== *)
theory Graph
  imports Json
begin

text \<open>
  \<open>services/execution/graph.py\<close>: the canvas graph and the pure graph utilities that the step
  runner and the save-time validators share. Kahn's algorithm (\<open>topological_order\<close>), the
  depth pass that groups an ordered node list into waves (\<open>topological_generations\<close>), the
  breadth-first closure (\<open>downstream_node_ids\<close>), the fan-in lookup and the node set of a
  fan-out child.

  Canvas nodes and edges are JSON objects; a missing key is \<open>None\<close>. A missing \<open>data\<close>
  object is a \<open>node_data\<close> whose fields are all absent.
\<close>

section \<open>Canvas data\<close>

record node_data =
  data_kind :: "string option"
  data_title :: "string option"
  data_disabled :: bool
  data_plugin_config :: jdict

record canvas_node =
  node_id :: "string option"
  node_data :: node_data

record canvas_edge =
  edge_id :: "string option"
  edge_source :: "string option"
  edge_target :: "string option"
  edge_source_handle :: "string option"
  edge_target_handle :: "string option"

text \<open>\<open>edge.get("source", "")\<close>, \<open>edge.get("target", "")\<close>, \<open>node.get("id", "")\<close> and
  \<open>edge.get("sourceHandle") or "success"\<close>.\<close>

definition or_empty :: "string option \<Rightarrow> string" where
  "or_empty x = (case x of None \<Rightarrow> '''' | Some s \<Rightarrow> s)"

abbreviation esrc :: "canvas_edge \<Rightarrow> string" where
  "esrc e \<equiv> or_empty (edge_source e)"

abbreviation etgt :: "canvas_edge \<Rightarrow> string" where
  "etgt e \<equiv> or_empty (edge_target e)"

abbreviation nid :: "canvas_node \<Rightarrow> string" where
  "nid n \<equiv> or_empty (node_id n)"

abbreviation node_kind :: "canvas_node \<Rightarrow> string option" where
  "node_kind n \<equiv> data_kind (node_data n)"

definition outcome_handle :: "canvas_edge \<Rightarrow> string" where
  "outcome_handle e =
     (if or_empty (edge_source_handle e) = '''' then ''success''
      else or_empty (edge_source_handle e))"

text \<open>\<open>[n["id"] for n in nodes if "id" in n]\<close>\<close>

definition node_ids :: "canvas_node list \<Rightarrow> string list" where
  "node_ids ns = List.map_filter node_id ns"

section \<open>Topological order\<close>

text \<open>\<open>node_map = {n["id"]: n for n in nodes if "id" in n}\<close>\<close>

definition node_map :: "canvas_node list \<Rightarrow> (string, canvas_node) dict" where
  "node_map ns = dict_of (List.map_filter (\<lambda>n. map_option (\<lambda>i. (i, n)) (node_id n)) ns)"

text \<open>One turn of the edge loop: count the in-edge and record the dependent.\<close>

fun link_edge ::
  "(string, int) dict \<times> (string, string list) dict \<Rightarrow> canvas_edge \<Rightarrow>
   (string, int) dict \<times> (string, string list) dict" where
  "link_edge (deg, deps) e =
     (if esrc e \<in> fst ` set deg \<and> etgt e \<in> fst ` set deg
      then (dmodify (etgt e) (\<lambda>d. d + 1) deg, dmodify (esrc e) (\<lambda>ds. ds @ [etgt e]) deps)
      else (deg, deps))"

definition link_edges ::
  "string list \<Rightarrow> canvas_edge list \<Rightarrow> (string, int) dict \<times> (string, string list) dict" where
  "link_edges ids es = foldl link_edge (map (\<lambda>i. (i, 0)) ids, map (\<lambda>i. (i, [])) ids) es"

text \<open>The inner loop over \<open>dependents[nid]\<close>.\<close>

fun relax :: "string list \<Rightarrow> (string, int) dict \<Rightarrow> string list \<Rightarrow>
    ((string, int) dict \<times> string list) res" where
  "relax [] deg q = Inr (deg, q)"
| "relax (dep # deps) deg q =
     (case map_of deg dep of
        None \<Rightarrow> Inl (KeyError dep)
      | Some d \<Rightarrow> relax deps (AList.update dep (d - 1) deg) (if d - 1 = 0 then q @ [dep] else q))"

text \<open>Nodes still waiting for a parent: what the \<open>while queue\<close> loop consumes.\<close>

definition waiting :: "(string, int) dict \<Rightarrow> nat" where
  "waiting deg = length (filter (\<lambda>(_, d). 0 < d) deg)"

lemma waiting_update:
  assumes "map_of deg k = Some d"
  shows "waiting (AList.update k (d - 1) deg) + (if d - 1 = 0 then 1 else 0) \<le> waiting deg"
  using assms by (induction deg) (auto simp: waiting_def split: if_splits)

lemma relax_waiting:
  "relax ds deg q = Inr (deg', q') \<Longrightarrow> waiting deg' + length q' \<le> waiting deg + length q"
proof (induction ds arbitrary: deg q)
  case (Cons dep ds)
  then obtain d where d: "map_of deg dep = Some d" by (auto split: option.splits)
  let ?deg = "AList.update dep (d - 1) deg"
  let ?q = "if d - 1 = 0 then q @ [dep] else q"
  from Cons.prems d have "relax ds ?deg ?q = Inr (deg', q')" by simp
  then have "waiting deg' + length q' \<le> waiting ?deg + length ?q" by (rule Cons.IH)
  with waiting_update [OF d] show ?case by (auto split: if_splits)
qed simp

function kahn_loop :: "(string, canvas_node) dict \<Rightarrow> (string, string list) dict \<Rightarrow>
    (string, int) dict \<Rightarrow> string list \<Rightarrow> canvas_node list \<Rightarrow> canvas_node list res" where
  "kahn_loop nm deps deg [] result = Inr result"
| "kahn_loop nm deps deg (i # q) result =
     (case map_of nm i of
        None \<Rightarrow> Inl (KeyError i)
      | Some n \<Rightarrow>
         (case map_of deps i of
            None \<Rightarrow> Inl (KeyError i)
          | Some ds \<Rightarrow>
             (case relax ds deg q of
                Inl e \<Rightarrow> Inl e
              | Inr (deg', q') \<Rightarrow> kahn_loop nm deps deg' q' (result @ [n]))))"
  by pat_completeness auto
termination
  by (relation "measure (\<lambda>(nm, deps, deg, q, result). waiting deg + length q)")
    (auto dest!: relax_waiting)

definition topological_order :: "canvas_node list \<Rightarrow> canvas_edge list \<Rightarrow> canvas_node list res" where
  "topological_order nodes edges =
     (let nm = node_map nodes;
          (deg, deps) = link_edges (map fst nm) edges;
          queue = map fst (filter (\<lambda>(_, d). d = 0) deg)
      in res_bind (kahn_loop nm deps deg queue [])
           (\<lambda>result.
              if length result \<noteq> length nm
              then Inl (GraphCycleError
                     (sort (filter (\<lambda>i. i \<notin> set (map nid result)) (map fst nm))))
              else Inr result))"

section \<open>Generations\<close>

fun link_parent :: "(string, string list) dict \<Rightarrow> canvas_edge \<Rightarrow> (string, string list) dict" where
  "link_parent ps e =
     (if esrc e \<in> fst ` set ps \<and> etgt e \<in> fst ` set ps
      then dmodify (etgt e) (\<lambda>us. us @ [esrc e]) ps else ps)"

definition link_parents :: "string list \<Rightarrow> canvas_edge list \<Rightarrow> (string, string list) dict" where
  "link_parents ids es = foldl link_parent (map (\<lambda>i. (i, [])) ids) es"

text \<open>\<open>1 + max((...), default=-1)\<close>\<close>

definition depth_after :: "nat list \<Rightarrow> nat" where
  "depth_after ds = (if ds = [] then 0 else Suc (Max (set ds)))"

fun generation_loop :: "(string, string list) dict \<Rightarrow> (string, nat) dict \<Rightarrow>
    canvas_node list list \<Rightarrow> canvas_node list \<Rightarrow> canvas_node list list res" where
  "generation_loop parents depths gens [] = Inr gens"
| "generation_loop parents depths gens (n # ns) =
     (case node_id n of
        None \<Rightarrow> Inl (KeyError ''id'')
      | Some i \<Rightarrow>
         (case map_of parents i of
            None \<Rightarrow> Inl (KeyError i)
          | Some ps \<Rightarrow>
             (case lookup_all depths ps of
                None \<Rightarrow> Inl (KeyError i)
              | Some ds \<Rightarrow>
                 (let d = depth_after ds;
                      gens' = (if d = length gens then gens @ [[]] else gens)
                  in if d < length gens'
                     then generation_loop parents (AList.update i d depths)
                            (gens'[d := gens' ! d @ [n]]) ns
                     else Inl IndexError))))"

definition topological_generations ::
  "canvas_node list \<Rightarrow> canvas_edge list \<Rightarrow> canvas_node list list res" where
  "topological_generations ordered edges =
     generation_loop (link_parents (remdups (node_ids ordered)) edges) [] [] ordered"

section \<open>Reachability\<close>

fun link_adjacent :: "(string, string list) dict \<Rightarrow> canvas_edge \<Rightarrow> (string, string list) dict" where
  "link_adjacent adj e =
     (if esrc e \<in> fst ` set adj \<and> etgt e \<in> fst ` set adj
      then dmodify (esrc e) (\<lambda>vs. vs @ [etgt e]) adj else adj)"

definition link_adjacency :: "string list \<Rightarrow> canvas_edge list \<Rightarrow> (string, string list) dict" where
  "link_adjacency ids es = foldl link_adjacent (map (\<lambda>i. (i, [])) ids) es"

function bfs :: "(string, string list) dict \<Rightarrow> string list \<Rightarrow> string set \<Rightarrow> string set" where
  "bfs adj [] visited = visited"
| "bfs adj (i # q) visited =
     (if i \<in> visited then bfs adj q visited
      else bfs adj (q @ dget adj i []) (insert i visited))"
  by pat_completeness auto
termination
proof (relation "inv_image (finite_psubset <*lex*> less_than)
         (\<lambda>(adj, q, visited). (fst ` set adj - visited, length q))", goal_cases)
  case (3 adj i q visited)
  then show ?case
    by (cases "i \<in> fst ` set adj")
      (auto simp: finite_psubset_def dget_def map_of_None_iff split: option.splits
        dest: map_of_Some_key)
qed auto

definition downstream_node_ids ::
  "string \<Rightarrow> canvas_node list \<Rightarrow> canvas_edge list \<Rightarrow> string set" where
  "downstream_node_ids start nodes edges =
     (let adj = link_adjacency (remdups (node_ids nodes)) edges in bfs adj (dget adj start []) {})"

definition find_join_node_id ::
  "string \<Rightarrow> canvas_node list \<Rightarrow> canvas_edge list \<Rightarrow> string option" where
  "find_join_node_id inventory nodes edges =
     (let downstream = downstream_node_ids inventory nodes edges
      in map_option nid
           (List.find (\<lambda>n. nid n \<in> downstream \<and> node_kind n = Some ''fan-in'') nodes))"

definition child_node_ids ::
  "string \<Rightarrow> string option \<Rightarrow> canvas_node list \<Rightarrow> canvas_edge list \<Rightarrow> string set" where
  "child_node_ids inventory join nodes edges =
     (let downstream = downstream_node_ids inventory nodes edges
      in case join of
           None \<Rightarrow> downstream
         | Some j \<Rightarrow> downstream - ({j} \<union> downstream_node_ids j nodes edges))"

section \<open>The dependency relation\<close>

definition graph_rel :: "canvas_node list \<Rightarrow> canvas_edge list \<Rightarrow> (string \<times> string) set" where
  "graph_rel nodes edges =
     {(esrc e, etgt e) | e. e \<in> set edges \<and> esrc e \<in> set (node_ids nodes)
        \<and> etgt e \<in> set (node_ids nodes)}"

text \<open>\<open>topo_sorted r xs\<close>: every predecessor of an element of \<open>xs\<close> occurs before it.\<close>

definition topo_sorted :: "('a \<times> 'a) set \<Rightarrow> 'a list \<Rightarrow> bool" where
  "topo_sorted r xs \<longleftrightarrow> (\<forall>as v bs. xs = as @ v # bs \<longrightarrow> (\<forall>u. (u, v) \<in> r \<longrightarrow> u \<in> set as))"

lemma topo_sorted_snoc:
  assumes "topo_sorted r xs" and "\<And>u. (u, x) \<in> r \<Longrightarrow> u \<in> set xs"
  shows "topo_sorted r (xs @ [x])"
  unfolding topo_sorted_def
proof (intro allI impI)
  fix as v bs u assume split: "xs @ [x] = as @ v # bs" and u: "(u, v) \<in> r"
  show "u \<in> set as"
  proof (cases bs rule: rev_cases)
    case Nil
    with split u assms(2) show ?thesis by auto
  next
    case (snoc bs' b)
    with split have "xs = as @ v # bs'" by simp
    with assms(1) u show ?thesis unfolding topo_sorted_def by blast
  qed
qed

text \<open>The edges with both ends in \<open>V\<close>, with multiplicity.\<close>

definition inner_edges :: "string set \<Rightarrow> canvas_edge list \<Rightarrow> (string \<times> string) list" where
  "inner_edges V es =
     map (\<lambda>e. (esrc e, etgt e)) (filter (\<lambda>e. esrc e \<in> V \<and> etgt e \<in> V) es)"

lemma graph_rel_inner_edges: "graph_rel ns es = set (inner_edges (set (node_ids ns)) es)"
  by (auto simp: graph_rel_def inner_edges_def)

lemma graph_rel_finite: "finite (graph_rel ns es)"
  by (simp add: graph_rel_inner_edges)

lemma graph_rel_subset: "graph_rel ns es \<subseteq> set (node_ids ns) \<times> set (node_ids ns)"
  by (auto simp: graph_rel_def)

lemma inner_edges_snoc:
  "inner_edges V (es @ [e]) =
     inner_edges V es @ (if esrc e \<in> V \<and> etgt e \<in> V then [(esrc e, etgt e)] else [])"
  by (simp add: inner_edges_def)

lemma map_of_const: "map_of (map (\<lambda>i. (i, c)) xs) k = (if k \<in> set xs then Some c else None)"
  by (induction xs) auto

lemma link_edges_snoc:
  "link_edges ids (es @ [e]) = link_edge (link_edges ids es) e"
  by (simp add: link_edges_def)

lemma link_edges_spec:
  assumes "link_edges ids es = (deg, deps)"
  shows "map fst deg = ids \<and> map fst deps = ids \<and>
    (\<forall>v \<in> set ids.
       map_of deg v = Some (int (length (filter (\<lambda>p. snd p = v) (inner_edges (set ids) es)))) \<and>
       map_of deps v = Some (map snd (filter (\<lambda>p. fst p = v) (inner_edges (set ids) es))))"
  using assms
proof (induction es arbitrary: deg deps rule: rev_induct)
  case Nil
  then show ?case
    by (auto simp: link_edges_def inner_edges_def map_of_const comp_def)
next
  case (snoc e es)
  obtain deg0 deps0 where ih: "link_edges ids es = (deg0, deps0)"
    by (cases "link_edges ids es") auto
  note spec = snoc.IH [OF ih]
  then have keys: "fst ` set deg0 = set ids" by (metis list.set_map)
  from snoc.prems ih have "link_edge (deg0, deps0) e = (deg, deps)"
    by (simp add: link_edges_snoc)
  with spec keys show ?case
    by (auto simp: inner_edges_snoc split: if_splits)
qed

lemma link_parents_spec:
  "map fst (link_parents ids es) = ids \<and>
   (\<forall>v \<in> set ids. map_of (link_parents ids es) v =
      Some (map fst (filter (\<lambda>p. snd p = v) (inner_edges (set ids) es))))"
proof (induction es rule: rev_induct)
  case Nil
  then show ?case by (auto simp: link_parents_def inner_edges_def map_of_const comp_def)
next
  case (snoc e es)
  then have keys: "fst ` set (link_parents ids es) = set ids" by (metis list.set_map)
  have "link_parents ids (es @ [e]) = link_parent (link_parents ids es) e"
    by (simp add: link_parents_def)
  with snoc keys show ?case by (auto simp: inner_edges_snoc)
qed

lemma link_adjacency_spec:
  "map fst (link_adjacency ids es) = ids \<and>
   (\<forall>v \<in> set ids. map_of (link_adjacency ids es) v =
      Some (map snd (filter (\<lambda>p. fst p = v) (inner_edges (set ids) es))))"
proof (induction es rule: rev_induct)
  case Nil
  then show ?case by (auto simp: link_adjacency_def inner_edges_def map_of_const comp_def)
next
  case (snoc e es)
  then have keys: "fst ` set (link_adjacency ids es) = set ids" by (metis list.set_map)
  have "link_adjacency ids (es @ [e]) = link_adjacent (link_adjacency ids es) e"
    by (simp add: link_adjacency_def)
  with snoc keys show ?case by (auto simp: inner_edges_snoc)
qed

lemma node_map_keys: "fst ` set (node_map ns) = set (node_ids ns)"
  by (force simp: node_map_def node_ids_def List.map_filter_def)

lemma node_map_ok [simp]: "dict_ok (node_map ns)"
  by (simp add: node_map_def)

lemma dict_of_values: "set (dict_of kvs) \<subseteq> set kvs"
proof (induction kvs rule: rev_induct)
  case (snoc kv kvs)
  obtain k v where "kv = (k, v)" by (cases kv)
  moreover have "set (AList.update k v d) \<subseteq> insert (k, v) (set d)" for d
    by (induction d) auto
  ultimately show ?case using snoc by (auto simp: dict_of_snoc)
qed (simp add: dict_of_def)

lemma node_map_entry:
  assumes "map_of (node_map ns) i = Some n"
  shows "n \<in> set ns" and "node_id n = Some i" and "nid n = i"
proof -
  from assms have "(i, n) \<in> set (node_map ns)" by (rule map_of_SomeD)
  then have "(i, n) \<in> set (List.map_filter (\<lambda>n. map_option (\<lambda>i. (i, n)) (node_id n)) ns)"
    using dict_of_values unfolding node_map_def by blast
  then show "n \<in> set ns" and "node_id n = Some i"
    by (auto simp: List.map_filter_def)
  then show "nid n = i" by (simp add: or_empty_def)
qed

section \<open>Correctness of Kahn's loop\<close>

text \<open>
  The loop is verified over an abstract dependency graph: a node table, the inner edges with
  multiplicity and a dependents table that agrees with them.
\<close>

definition indeg_outside :: "(string \<times> string) list \<Rightarrow> string list \<Rightarrow> string \<Rightarrow> nat" where
  "indeg_outside E fin v = length (filter (\<lambda>p. snd p = v \<and> fst p \<notin> set fin) E)"

lemma indeg_outside_0: "indeg_outside E fin v = 0 \<longleftrightarrow> (\<forall>u. (u, v) \<in> set E \<longrightarrow> u \<in> set fin)"
  by (auto simp: indeg_outside_def filter_empty_conv)

lemma indeg_outside_pop:
  assumes "n \<notin> set fin"
  shows "indeg_outside E fin v =
    indeg_outside E (fin @ [n]) v + count_list (map snd (filter (\<lambda>p. fst p = n) E)) v"
  using assms by (induction E) (auto simp: indeg_outside_def)

lemma relax_spec:
  assumes "\<forall>v \<in> V. map_of deg v = Some (int (c v) + int (count_list ds v))"
    and "set ds \<subseteq> V"
  shows "\<exists>deg' fresh. relax ds deg q = Inr (deg', q @ fresh)
    \<and> (\<forall>v \<in> V. map_of deg' v = Some (int (c v)))
    \<and> distinct fresh \<and> set fresh = {v \<in> set ds. c v = 0}"
  using assms
proof (induction ds arbitrary: deg q)
  case (Cons x ds)
  let ?deg = "AList.update x (int (c x) + int (count_list ds x)) deg"
  let ?q = "if c x = 0 \<and> x \<notin> set ds then q @ [x] else q"
  have x: "map_of deg x = Some (int (c x) + int (count_list (x # ds) x))"
    using Cons.prems by simp
  moreover have "int (c x) + int (count_list ds x) = 0 \<longleftrightarrow> c x = 0 \<and> x \<notin> set ds"
    by (auto simp: count_list_0_iff [symmetric] simp del: count_list_0_iff)
  ultimately have unfold: "relax (x # ds) deg q = relax ds ?deg ?q" by simp
  have "\<forall>v \<in> V. map_of ?deg v = Some (int (c v) + int (count_list ds v))"
    using Cons.prems(1) by auto
  then obtain deg' fresh where r: "relax ds ?deg ?q = Inr (deg', ?q @ fresh)"
    and d: "\<forall>v \<in> V. map_of deg' v = Some (int (c v))"
    and f: "distinct fresh" "set fresh = {v \<in> set ds. c v = 0}"
    using Cons.IH [of ?deg ?q] Cons.prems(2) by auto
  let ?fresh = "if c x = 0 \<and> x \<notin> set ds then x # fresh else fresh"
  have "relax (x # ds) deg q = Inr (deg', q @ ?fresh)"
    using unfold r by (simp split: if_splits)
  moreover have "distinct ?fresh" and "set ?fresh = {v \<in> set (x # ds). c v = 0}"
    using f by auto
  ultimately show ?case using d by blast
qed simp

lemma takeWhile_shorter: "x \<in> set xs \<Longrightarrow> length (takeWhile (\<lambda>y. y \<noteq> x) xs) < length xs"
  by (induction xs) auto

locale dependency_table =
  fixes nm :: "(string, canvas_node) dict" and E :: "(string \<times> string) list"
    and deps :: "(string, string list) dict"
  assumes nm_ok: "dict_ok nm"
    and edges_inside: "set E \<subseteq> fst ` set nm \<times> fst ` set nm"
    and deps_spec: "\<And>u. u \<in> fst ` set nm \<Longrightarrow>
      map_of deps u = Some (map snd (filter (\<lambda>p. fst p = u) E))"
begin

abbreviation ids :: "string set" where
  "ids \<equiv> fst ` set nm"

abbreviation node_of :: "string \<Rightarrow> canvas_node" where
  "node_of i \<equiv> the (map_of nm i)"

definition kahn_inv :: "string list \<Rightarrow> (string, int) dict \<Rightarrow> string list \<Rightarrow> bool" where
  "kahn_inv fin deg q \<longleftrightarrow>
     distinct (fin @ q) \<and> set (fin @ q) \<subseteq> ids
     \<and> (\<forall>v. v \<in> ids \<longrightarrow> map_of deg v = Some (int (indeg_outside E fin v)))
     \<and> (\<forall>v. v \<in> ids \<longrightarrow> (v \<in> set (fin @ q) \<longleftrightarrow> indeg_outside E fin v = 0))
     \<and> topo_sorted (set E) fin"

lemma kahn_inv_done:
  "kahn_inv fin deg q \<Longrightarrow> v \<in> ids \<Longrightarrow> v \<in> set (fin @ q) \<longleftrightarrow> indeg_outside E fin v = 0"
  by (simp add: kahn_inv_def)

lemma kahn_step:
  assumes inv: "kahn_inv fin deg (i # q)"
  obtains deg' fresh where
    "relax (map snd (filter (\<lambda>p. fst p = i) E)) deg q = Inr (deg', q @ fresh)"
    and "kahn_inv (fin @ [i]) deg' (q @ fresh)"
proof -
  let ?ds = "map snd (filter (\<lambda>p. fst p = i) E)"
  let ?c = "indeg_outside E (fin @ [i])"
  from inv have i: "i \<notin> set fin" "i \<in> ids" and i0: "indeg_outside E fin i = 0"
    and dist: "distinct (fin @ i # q)"
    by (auto simp: kahn_inv_def)
  have pop: "indeg_outside E fin v = ?c v + count_list ?ds v" for v
    using i(1) by (rule indeg_outside_pop)
  have deg: "\<forall>v \<in> ids. map_of deg v = Some (int (?c v) + int (count_list ?ds v))"
    using inv pop by (simp add: kahn_inv_def)
  have "set ?ds \<subseteq> ids" using edges_inside by auto
  from relax_spec [OF deg this, of q] obtain deg' fresh where r: "relax ?ds deg q = Inr (deg', q @ fresh)"
    and d: "\<forall>v \<in> ids. map_of deg' v = Some (int (?c v))"
    and f: "distinct fresh" "set fresh = {v \<in> set ?ds. ?c v = 0}"
    by blast
  have fresh_new: "v \<notin> set (fin @ i # q)" and fresh_id: "v \<in> ids" if "v \<in> set fresh" for v
  proof -
    from that f have "v \<in> set ?ds" by simp
    then have "(i, v) \<in> set E" by auto
    with edges_inside show "v \<in> ids" by auto
    moreover have "indeg_outside E fin v \<noteq> 0"
      using \<open>(i, v) \<in> set E\<close> i(1) indeg_outside_0 by blast
    ultimately show "v \<notin> set (fin @ i # q)" using inv by (auto simp: kahn_inv_def)
  qed
  have zero: "v \<in> set ((fin @ [i]) @ (q @ fresh)) \<longleftrightarrow> ?c v = 0" if v: "v \<in> ids" for v
  proof -
    have "v \<in> set (fin @ i # q) \<longleftrightarrow> indeg_outside E fin v = 0"
      using inv v by (rule kahn_inv_done)
    also have "\<dots> \<longleftrightarrow> ?c v = 0 \<and> count_list ?ds v = 0" using pop [of v] by simp
    also have "\<dots> \<longleftrightarrow> ?c v = 0 \<and> v \<notin> set ?ds" by (simp only: count_list_0_iff)
    finally show ?thesis using f by auto
  qed
  have "topo_sorted (set E) (fin @ [i])"
    using inv i0 by (auto intro!: topo_sorted_snoc simp: kahn_inv_def indeg_outside_0)
  moreover have "distinct ((fin @ [i]) @ (q @ fresh))"
    using dist f(1) fresh_new by (simp add: disjoint_iff) blast
  moreover have "set ((fin @ [i]) @ (q @ fresh)) \<subseteq> ids"
    using inv fresh_id unfolding kahn_inv_def by auto
  ultimately have "kahn_inv (fin @ [i]) deg' (q @ fresh)"
    unfolding kahn_inv_def using d zero by blast
  with r show thesis by (rule that)
qed

lemma kahn_loop_correct:
  assumes "kahn_inv fin deg q"
  shows "\<exists>fin' deg'. kahn_loop nm deps deg q (map node_of fin) = Inr (map node_of fin')
    \<and> kahn_inv fin' deg' []"
  using assms
proof (induction "card ids - length fin" arbitrary: fin deg q rule: less_induct)
  case less
  show ?case
  proof (cases q)
    case Nil
    with less.prems show ?thesis by auto
  next
    case (Cons i q')
    obtain deg' fresh where
      r: "relax (map snd (filter (\<lambda>p. fst p = i) E)) deg q' = Inr (deg', q' @ fresh)"
      and inv: "kahn_inv (fin @ [i]) deg' (q' @ fresh)"
      using kahn_step less.prems unfolding Cons by blast
    from inv have i: "i \<in> ids" by (auto simp: kahn_inv_def)
    have "length (fin @ [i]) \<le> card ids"
      using inv card_mono [of ids "set (fin @ [i])"] distinct_card [of "fin @ [i]"]
      by (auto simp: kahn_inv_def)
    then have "card ids - length (fin @ [i]) < card ids - length fin" by simp
    from less.hyps [OF this inv] obtain fin' deg'' where
      "kahn_loop nm deps deg' (q' @ fresh) (map node_of (fin @ [i])) = Inr (map node_of fin')"
      and "kahn_inv fin' deg'' []" by blast
    moreover obtain n where "map_of nm i = Some n" using i key_map_of_Some by metis
    ultimately show ?thesis using r deps_spec [OF i] by (auto simp: Cons)
  qed
qed

text \<open>What is left over when the queue runs dry is exactly what a cycle feeds.\<close>

lemma ordered_not_below_cycle:
  assumes inv: "kahn_inv fin deg []" and cyc: "(u, u) \<in> (set E)\<^sup>+" and "(u, v) \<in> (set E)\<^sup>*"
  shows "v \<notin> set fin"
proof
  assume "v \<in> set fin"
  have pre: "a \<in> set fin" if "(a, b) \<in> set E" "b \<in> set fin" for a b
    using inv that unfolding kahn_inv_def topo_sorted_def by (metis in_set_conv_decomp set_append UnI1)
  from \<open>(u, v) \<in> (set E)\<^sup>*\<close> \<open>v \<in> set fin\<close> have "u \<in> set fin"
    by (induction rule: converse_rtrancl_induct) (auto dest: pre)
  let ?pos = "\<lambda>x. length (takeWhile (\<lambda>y. y \<noteq> x) fin)"
  have less: "?pos a < ?pos b" if ab: "(a, b) \<in> set E" "b \<in> set fin" for a b
  proof -
    obtain as bs where fin: "fin = as @ b # bs" using ab(2) by (meson split_list)
    with inv ab(1) have a: "a \<in> set as"
      unfolding kahn_inv_def topo_sorted_def by blast
    from inv fin have "b \<notin> set as" by (auto simp: kahn_inv_def)
    then have "?pos b = length as" unfolding fin by (subst takeWhile_append2) auto
    moreover have "?pos a < length as"
      unfolding fin using takeWhile_shorter [OF a] by (subst takeWhile_append1 [OF a]) auto
    ultimately show ?thesis by simp
  qed
  have "w \<in> set fin \<and> ?pos w < ?pos u" if "(w, u) \<in> (set E)\<^sup>+" for w
    using that
  proof (induction rule: converse_trancl_induct)
    case (base y)
    with \<open>u \<in> set fin\<close> show ?case using less pre by blast
  next
    case (step y z)
    then show ?case using less [of y z] pre [of y z] by linarith
  qed
  from this [OF cyc] show False by simp
qed

lemma leftover_below_cycle:
  assumes inv: "kahn_inv fin deg []" and v: "v \<in> ids" "v \<notin> set fin"
  shows "\<exists>u. (u, u) \<in> (set E)\<^sup>+ \<and> (u, v) \<in> (set E)\<^sup>*"
proof (rule ccontr)
  assume no: "\<not> ?thesis"
  define R where "R = {u \<in> ids - set fin. (u, v) \<in> (set E)\<^sup>*}"
  define r where "r = set E \<inter> R \<times> R"
  have "acyclic r"
  proof (rule acyclicI, rule allI, rule notI)
    fix x assume x: "(x, x) \<in> r\<^sup>+"
    then have "(x, x) \<in> (set E)\<^sup>+" by (rule trancl_mono) (auto simp: r_def)
    moreover from x have "x \<in> R" by (rule tranclE) (auto simp: r_def)
    ultimately show False using no by (auto simp: R_def)
  qed
  then have "wf r" by (rule finite_acyclic_wf [rotated]) (simp add: r_def)
  moreover have "v \<in> R" using v by (simp add: R_def)
  ultimately obtain m where m: "m \<in> R" "\<And>y. (y, m) \<in> r \<Longrightarrow> y \<notin> R"
    by (meson wfE_min)
  then have "m \<in> ids" "m \<notin> set fin" by (simp_all add: R_def)
  then have "indeg_outside E fin m \<noteq> 0" using inv unfolding kahn_inv_def by simp
  then obtain y where y: "(y, m) \<in> set E" "y \<notin> set fin" by (auto simp: indeg_outside_0)
  moreover from m(1) y(1) have "(y, v) \<in> (set E)\<^sup>*"
    unfolding R_def by (simp add: converse_rtrancl_into_rtrancl)
  moreover from y(1) edges_inside have "y \<in> ids" by blast
  ultimately have "y \<in> R" by (simp add: R_def)
  with m(1) y(1) have "(y, m) \<in> r" by (simp add: r_def)
  with m(2) \<open>y \<in> R\<close> show False by blast
qed

lemma leftover_iff:
  assumes "kahn_inv fin deg []" and "v \<in> ids"
  shows "v \<notin> set fin \<longleftrightarrow> (\<exists>u. (u, u) \<in> (set E)\<^sup>+ \<and> (u, v) \<in> (set E)\<^sup>*)"
  using assms leftover_below_cycle ordered_not_below_cycle by blast

end

section \<open>Properties of the topological order\<close>

interpretation kahn: dependency_table "node_map ns" "inner_edges (set (node_ids ns)) es"
  "snd (link_edges (map fst (node_map ns)) es)" for ns es
proof unfold_locales
  show "dict_ok (node_map ns)" by simp
  show "set (inner_edges (set (node_ids ns)) es) \<subseteq> fst ` set (node_map ns) \<times> fst ` set (node_map ns)"
    by (auto simp: node_map_keys inner_edges_def)
  fix u assume "u \<in> fst ` set (node_map ns)"
  then show "map_of (snd (link_edges (map fst (node_map ns)) es)) u =
      Some (map snd (filter (\<lambda>p. fst p = u) (inner_edges (set (node_ids ns)) es)))"
    using link_edges_spec [of "map fst (node_map ns)" es]
    by (cases "link_edges (map fst (node_map ns)) es") (auto simp: node_map_keys)
qed

lemma length_filter_distinct: "distinct xs \<Longrightarrow> distinct ys \<Longrightarrow> set ys \<subseteq> set xs \<Longrightarrow>
    length ys = length xs \<longleftrightarrow> set ys = set xs"
  by (metis card_subset_eq distinct_card finite_set)

text \<open>The order the loop starts from: no parent is finished, the queue holds the sources.\<close>

lemma kahn_inv_start:
  assumes "link_edges (map fst (node_map ns)) es = (deg, deps)"
  shows "kahn.kahn_inv ns es [] deg (map fst (filter (\<lambda>(_, d). d = 0) deg))"
proof -
  note spec = link_edges_spec [OF assms]
  have keys: "set (map fst (node_map ns)) = set (node_ids ns)" using node_map_keys by simp
  have ok: "dict_ok deg" using spec by simp
  have deg: "map_of deg v =
      Some (int (indeg_outside (inner_edges (set (node_ids ns)) es) [] v))"
    if "v \<in> fst ` set (node_map ns)" for v
  proof -
    from that have "v \<in> set (map fst (node_map ns))" by simp
    with spec have "map_of deg v = Some (int (length
        (filter (\<lambda>p. snd p = v) (inner_edges (set (map fst (node_map ns))) es))))"
      by blast
    then show ?thesis by (simp add: indeg_outside_def node_map_keys)
  qed
  have queue: "v \<in> set (map fst (filter (\<lambda>(_, d). d = 0) deg)) \<longleftrightarrow> map_of deg v = Some 0" for v
    using ok by (force simp: map_of_eq_Some_iff)
  show ?thesis
    unfolding kahn.kahn_inv_def
  proof (intro conjI allI impI)
    show "distinct ([] @ map fst (filter (\<lambda>(_, d). d = 0) deg))"
      using distinct_map_filter [OF ok] by simp
    show "set ([] @ map fst (filter (\<lambda>(_, d). d = 0) deg)) \<subseteq> fst ` set (node_map ns)"
      using spec by (metis append_Nil filter_is_subset image_mono list.set_map)
    show "topo_sorted (set (inner_edges (set (node_ids ns)) es)) []"
      by (simp add: topo_sorted_def)
  qed (use deg queue in simp_all)
qed

text \<open>What one run of the algorithm did: \<open>fin\<close> is the order it had built when the queue ran dry.\<close>

definition below_cycle :: "('a \<times> 'a) set \<Rightarrow> 'a \<Rightarrow> bool" where
  "below_cycle r v \<longleftrightarrow> (\<exists>u. (u, u) \<in> r\<^sup>+ \<and> (u, v) \<in> r\<^sup>*)"

definition kahn_outcome :: "canvas_node list \<Rightarrow> canvas_edge list \<Rightarrow> string list \<Rightarrow> bool" where
  "kahn_outcome ns es fin \<longleftrightarrow>
     distinct fin \<and> set fin \<subseteq> set (node_ids ns) \<and> topo_sorted (graph_rel ns es) fin
     \<and> (\<forall>v. v \<in> set (node_ids ns) \<longrightarrow> (v \<notin> set fin \<longleftrightarrow> below_cycle (graph_rel ns es) v))
     \<and> topological_order ns es =
         (if set fin = set (node_ids ns) then Inr (map (\<lambda>i. the (map_of (node_map ns) i)) fin)
          else Inl (GraphCycleError (sort (filter (\<lambda>i. i \<notin> set fin) (map fst (node_map ns))))))"

lemma node_map_nid:
  assumes "set fin \<subseteq> set (node_ids ns)"
  shows "map nid (map (\<lambda>i. the (map_of (node_map ns) i)) fin) = fin"
    and "set (map (\<lambda>i. the (map_of (node_map ns) i)) fin) \<subseteq> set ns"
proof -
  have node: "the (map_of (node_map ns) i) \<in> set ns \<and> nid (the (map_of (node_map ns) i)) = i"
    if "i \<in> set fin" for i
  proof -
    from that assms have "i \<in> fst ` set (node_map ns)" by (auto simp: node_map_keys)
    then obtain n where "map_of (node_map ns) i = Some n" using key_map_of_Some by metis
    then show ?thesis using node_map_entry by simp
  qed
  then show "map nid (map (\<lambda>i. the (map_of (node_map ns) i)) fin) = fin"
    by (simp add: map_idI)
  from node show "set (map (\<lambda>i. the (map_of (node_map ns) i)) fin) \<subseteq> set ns" by auto
qed

lemma kahn_outcome_exists: "\<exists>fin. kahn_outcome ns es fin"
proof -
  let ?nm = "node_map ns"
  obtain deg deps where link: "link_edges (map fst ?nm) es = (deg, deps)"
    by (cases "link_edges (map fst ?nm) es")
  from kahn.kahn_loop_correct [OF kahn_inv_start [OF link]] obtain fin deg' where
    run: "kahn_loop ?nm deps deg (map fst (filter (\<lambda>(_, d). d = 0) deg)) []
        = Inr (map (\<lambda>i. the (map_of ?nm i)) fin)"
    and inv: "kahn.kahn_inv ns es fin deg' []"
    by (auto simp: link)
  from inv have dist: "distinct fin" and sub: "set fin \<subseteq> set (node_ids ns)"
    and topo: "topo_sorted (graph_rel ns es) fin"
    by (simp_all add: kahn.kahn_inv_def node_map_keys graph_rel_inner_edges)
  have "length fin = length ?nm \<longleftrightarrow> set fin = set (node_ids ns)"
    using length_filter_distinct [of "map fst ?nm" fin] dist sub by (simp add: node_map_keys)
  then have "topological_order ns es =
      (if set fin = set (node_ids ns) then Inr (map (\<lambda>i. the (map_of ?nm i)) fin)
       else Inl (GraphCycleError (sort (filter (\<lambda>i. i \<notin> set fin) (map fst ?nm)))))"
    unfolding topological_order_def Let_def link prod.case run res_bind_simps
    by (simp only: node_map_nid(1) [OF sub] length_map if_not_P split: if_split) simp
  moreover have "\<forall>v. v \<in> set (node_ids ns) \<longrightarrow>
      (v \<notin> set fin \<longleftrightarrow> below_cycle (graph_rel ns es) v)"
    using kahn.leftover_iff [OF inv]
    by (simp add: below_cycle_def graph_rel_inner_edges node_map_keys)
  ultimately show ?thesis
    unfolding kahn_outcome_def using dist sub topo by blast
qed

lemma graph_rel_cycle_node:
  assumes "(u, u) \<in> (graph_rel ns es)\<^sup>+"
  shows "u \<in> set (node_ids ns)"
  using assms by (rule tranclE) (use graph_rel_subset in blast)+

lemma topological_order_acyclic:
  "(\<exists>os. topological_order ns es = Inr os) \<longleftrightarrow> acyclic (graph_rel ns es)"
proof -
  obtain fin where out: "kahn_outcome ns es fin" using kahn_outcome_exists by blast
  have "set fin = set (node_ids ns) \<longleftrightarrow> acyclic (graph_rel ns es)"
    using out graph_rel_cycle_node unfolding kahn_outcome_def below_cycle_def acyclic_def by blast
  then show ?thesis using out by (simp add: kahn_outcome_def)
qed

text \<open>C1. \<open>topological_order\<close> returns an order exactly for the acyclic canvases: no cyclic graph
  is executed and no acyclic one is refused.\<close>

theorem topological_order_returns_iff:
  "(\<exists>os. topological_order ns es = Inr os) \<longleftrightarrow> acyclic (graph_rel ns es)"
  by (rule topological_order_acyclic)

lemma topological_order_InrD:
  assumes "topological_order ns es = Inr os"
  shows "set os \<subseteq> set ns" and "distinct (map nid os)"
    and "set (map nid os) = set (node_ids ns)"
    and "topo_sorted (graph_rel ns es) (map nid os)"
    and "\<forall>n \<in> set os. node_id n \<noteq> None"
proof -
  obtain fin where out: "kahn_outcome ns es fin" using kahn_outcome_exists by blast
  with assms have all: "set fin = set (node_ids ns)"
    and os: "os = map (\<lambda>i. the (map_of (node_map ns) i)) fin"
    by (auto simp: kahn_outcome_def split: if_splits)
  then show ids: "set os \<subseteq> set ns" using node_map_nid [of fin ns] by simp
  have fin: "map nid os = fin" using all os node_map_nid [of fin ns] by simp
  with out all show "distinct (map nid os)" and "set (map nid os) = set (node_ids ns)"
    and "topo_sorted (graph_rel ns es) (map nid os)"
    by (simp_all add: kahn_outcome_def)
  show "\<forall>n \<in> set os. node_id n \<noteq> None"
  proof
    fix n assume "n \<in> set os"
    then obtain i where "i \<in> set fin" "n = the (map_of (node_map ns) i)" by (auto simp: os)
    moreover from this all obtain m where "map_of (node_map ns) i = Some m"
      using key_map_of_Some node_map_keys by metis
    ultimately show "node_id n \<noteq> None" using node_map_entry(2) by simp
  qed
qed

lemma topological_order_InlD:
  assumes "topological_order ns es = Inl e"
  shows "\<exists>cyc. e = GraphCycleError cyc"
proof -
  obtain fin where "kahn_outcome ns es fin" using kahn_outcome_exists by blast
  with assms show ?thesis by (auto simp: kahn_outcome_def split: if_splits)
qed

subsection \<open>Example canvases\<close>

definition mk_node :: "string \<Rightarrow> string \<Rightarrow> canvas_node" where
  "mk_node i k = \<lparr>node_id = Some i, node_data =
     \<lparr>data_kind = Some k, data_title = None, data_disabled = False, data_plugin_config = []\<rparr>\<rparr>"

definition mk_edge :: "string \<Rightarrow> string \<Rightarrow> canvas_edge" where
  "mk_edge s t = \<lparr>edge_id = None, edge_source = Some s, edge_target = Some t,
     edge_source_handle = None, edge_target_handle = None\<rparr>"

definition diamond :: "canvas_node list" where
  "diamond = map (\<lambda>i. mk_node i ''step'') [''d'', ''a'', ''b'', ''c'']"

definition diamond_edges :: "canvas_edge list" where
  "diamond_edges = map (\<lambda>(s, t). mk_edge s t)
     [(''a'', ''b''), (''a'', ''c''), (''b'', ''d''), (''c'', ''d'')]"

lemma diamond_order: "topological_order diamond diamond_edges =
    Inr (map (\<lambda>i. mk_node i ''step'') [''a'', ''b'', ''c'', ''d''])"
  by code_simp

text \<open>C2. A returned order lists every node id exactly once, uses only canvas nodes, and puts
  each step after all of its parents.\<close>

theorem topological_order_sound:
  assumes "topological_order ns es = Inr os"
  shows "set os \<subseteq> set ns \<and> distinct (map nid os) \<and> set (map nid os) = set (node_ids ns)
    \<and> topo_sorted (graph_rel ns es) (map nid os)"
  using topological_order_InrD [OF assms] by simp

theorem topological_order_sound_witness:
  "topo_sorted (graph_rel diamond diamond_edges) [''a'', ''b'', ''c'', ''d'']"
  using topological_order_sound [OF diamond_order] by (simp add: mk_node_def or_empty_def)

text \<open>C3. When the order is refused, the error names, sorted and without repetition, exactly the
  nodes that sit on a cycle or below one; no other exception is possible.\<close>

theorem topological_order_cycle_report:
  assumes "topological_order ns es = Inl e"
  shows "\<exists>cyc. e = GraphCycleError cyc \<and> cyc \<noteq> [] \<and> sorted cyc \<and> distinct cyc \<and>
    set cyc = {v \<in> set (node_ids ns).
      \<exists>u. (u, u) \<in> (graph_rel ns es)\<^sup>+ \<and> (u, v) \<in> (graph_rel ns es)\<^sup>*}"
proof -
  obtain fin where out: "kahn_outcome ns es fin" using kahn_outcome_exists by blast
  let ?cyc = "sort (filter (\<lambda>i. i \<notin> set fin) (map fst (node_map ns)))"
  from assms out have e: "e = GraphCycleError ?cyc" and ne: "set fin \<noteq> set (node_ids ns)"
    by (auto simp: kahn_outcome_def split: if_splits)
  have keys: "set (map fst (node_map ns)) = set (node_ids ns)" using node_map_keys by simp
  have set_cyc: "set ?cyc = {v \<in> set (node_ids ns). v \<notin> set fin}"
    unfolding set_sort set_filter keys by simp
  have "set fin \<subseteq> set (node_ids ns)" using out by (simp add: kahn_outcome_def)
  with ne have "{v \<in> set (node_ids ns). v \<notin> set fin} \<noteq> {}" by blast
  then have "set ?cyc \<noteq> {}" unfolding set_cyc .
  then have "?cyc \<noteq> []" unfolding set_empty .
  moreover have "distinct ?cyc" by (simp only: distinct_sort distinct_filter node_map_ok)
  moreover have "{v \<in> set (node_ids ns). v \<notin> set fin} = {v \<in> set (node_ids ns).
      \<exists>u. (u, u) \<in> (graph_rel ns es)\<^sup>+ \<and> (u, v) \<in> (graph_rel ns es)\<^sup>*}"
    using out unfolding kahn_outcome_def below_cycle_def by blast
  ultimately show ?thesis
    using e set_cyc by (intro exI [of _ ?cyc] conjI) (simp_all only: sorted_sort not_False_eq_True)
qed


theorem topological_order_cycle_report_witness:
  "\<exists>cyc. GraphCycleError [''b'', ''d''] = GraphCycleError cyc \<and> set cyc =
    {v \<in> set (node_ids diamond).
      \<exists>u. (u, u) \<in> (graph_rel diamond (mk_edge ''d'' ''b'' # diamond_edges))\<^sup>+
        \<and> (u, v) \<in> (graph_rel diamond (mk_edge ''d'' ''b'' # diamond_edges))\<^sup>*}"
proof -
  have "topological_order diamond (mk_edge ''d'' ''b'' # diamond_edges) =
      Inl (GraphCycleError [''b'', ''d''])" by code_simp
  from topological_order_cycle_report [OF this] show ?thesis by blast
qed

end
