(* ===== verification/Graph_Waves.thy ===== *)
theory Graph_Waves
  imports Graph
begin

text \<open>
  Correctness of the parallel schedule (\<open>topological_generations\<close>) and of the reachability
  queries of \<open>services/execution/graph.py\<close> that split a fan-out between the children and the
  parent run.
\<close>

section \<open>Properties of the generations\<close>

text \<open>The waves built so far, for the nodes \<open>fin\<close> already placed.\<close>

definition generations_inv :: "(string, string list) dict \<Rightarrow> canvas_node list \<Rightarrow>
    (string, nat) dict \<Rightarrow> canvas_node list list \<Rightarrow> bool" where
  "generations_inv parents fin depths gens \<longleftrightarrow>
     fst ` set depths = set (map nid fin)
     \<and> (\<forall>d < length gens. gens ! d = filter (\<lambda>n. map_of depths (nid n) = Some d) fin)
     \<and> (\<forall>d < length gens. gens ! d \<noteq> [])
     \<and> (\<forall>n \<in> set fin. \<exists>d < length gens. map_of depths (nid n) = Some d)
     \<and> (\<forall>n \<in> set fin. map_of depths (nid n) =
          Some (depth_after (map (\<lambda>p. the (map_of depths p)) (dget parents (nid n) []))))
     \<and> (\<forall>n \<in> set fin. set (dget parents (nid n) []) \<subseteq> set (map nid fin))"

lemma depth_after_le:
  assumes "\<forall>d \<in> set ds. d < k"
  shows "depth_after ds \<le> k"
  using assms by (auto simp: depth_after_def Suc_le_eq)

lemma generation_step:
  assumes inv: "generations_inv parents fin depths gens"
    and i: "node_id n = Some i" "i \<notin> set (map nid fin)"
    and ps: "map_of parents i = Some ps" "set ps \<subseteq> set (map nid fin)"
    and d: "d = depth_after (map (\<lambda>p. the (map_of depths p)) ps)"
    and gens': "gens' = (if d = length gens then gens @ [[]] else gens)"
  shows "lookup_all depths ps = Some (map (\<lambda>p. the (map_of depths p)) ps)"
    and "d < length gens'"
    and "generations_inv parents (fin @ [n]) (AList.update i d depths)
      (gens'[d := gens' ! d @ [n]])"
proof -
  from inv have keys: "fst ` set depths = set (map nid fin)"
    and waves: "\<And>k. k < length gens \<Longrightarrow> gens ! k = filter (\<lambda>n. map_of depths (nid n) = Some k) fin"
    and full: "\<And>k. k < length gens \<Longrightarrow> gens ! k \<noteq> []"
    and placed: "\<And>m. m \<in> set fin \<Longrightarrow> \<exists>k < length gens. map_of depths (nid m) = Some k"
    and rule: "\<And>m. m \<in> set fin \<Longrightarrow> map_of depths (nid m) =
          Some (depth_after (map (\<lambda>p. the (map_of depths p)) (dget parents (nid m) [])))"
    and closed: "\<And>m. m \<in> set fin \<Longrightarrow> set (dget parents (nid m) []) \<subseteq> set (map nid fin)"
    unfolding generations_inv_def by blast+
  show "lookup_all depths ps = Some (map (\<lambda>p. the (map_of depths p)) ps)"
    using ps(2) keys by (intro lookup_all_Some) simp
  have known: "the (map_of depths p) < length gens" if p: "p \<in> set ps" for p
  proof -
    from p ps(2) obtain m where "m \<in> set fin" "p = nid m" by auto
    then show ?thesis using placed by force
  qed
  have "d \<le> length gens" unfolding d by (rule depth_after_le) (use known in auto)
  then show dl: "d < length gens'" by (auto simp: gens')
  have nid_n: "nid n = i" using i(1) by (simp add: or_empty_def)
  let ?depths = "AList.update i d depths"
  have old: "map_of ?depths (nid m) = map_of depths (nid m)" if "m \<in> set fin" for m
    using that i(2) by auto
  have old_p: "map_of ?depths p = map_of depths p" if "p \<in> set (map nid fin)" for p
    using that i(2) by auto
  have fresh: "map_of depths i = None" using keys i(2) by (simp add: map_of_None_iff)
  have wave_old: "filter (\<lambda>m. map_of ?depths (nid m) = Some k) fin
      = filter (\<lambda>m. map_of depths (nid m) = Some k) fin" for k
    using old by (intro filter_cong) auto
  have beyond: "filter (\<lambda>m. map_of depths (nid m) = Some (length gens)) fin = []"
    using placed by (fastforce simp: filter_empty_conv)
  show "generations_inv parents (fin @ [n]) ?depths (gens'[d := gens' ! d @ [n]])"
    unfolding generations_inv_def
  proof (intro conjI allI impI ballI)
    show "fst ` set ?depths = set (map nid (fin @ [n]))" using keys nid_n by auto
  next
    fix k assume k: "k < length (gens'[d := gens' ! d @ [n]])"
    have base: "gens' ! k = filter (\<lambda>m. map_of depths (nid m) = Some k) fin"
    proof (cases "k < length gens")
      case True
      then show ?thesis using waves by (simp add: gens' nth_append)
    next
      case False
      with k have "k = length gens" by (auto simp: gens' split: if_splits)
      with k beyond show ?thesis by (auto simp: gens' split: if_splits)
    qed
    show "gens'[d := gens' ! d @ [n]] ! k =
        filter (\<lambda>m. map_of ?depths (nid m) = Some k) (fin @ [n])"
      using base wave_old [of k] nid_n k by (auto simp: nth_list_update)
    show "gens'[d := gens' ! d @ [n]] ! k \<noteq> []"
      using k full \<open>d \<le> length gens\<close>
      by (cases "k = d") (auto simp: gens' nth_append split: if_splits)
  next
    fix m assume m: "m \<in> set (fin @ [n])"
    show "\<exists>k < length (gens'[d := gens' ! d @ [n]]). map_of ?depths (nid m) = Some k"
    proof (cases "m \<in> set fin")
      case True
      with placed old show ?thesis by (fastforce simp: gens')
    next
      case False
      with m nid_n dl show ?thesis by auto
    qed
    show closed': "set (dget parents (nid m) []) \<subseteq> set (map nid (fin @ [n]))"
      using m closed [of m] ps nid_n by (auto simp: dget_def)
    have eq: "map (\<lambda>p. the (map_of ?depths p)) (dget parents (nid m) []) =
        map (\<lambda>p. the (map_of depths p)) (dget parents (nid m) [])"
    proof (intro map_cong refl)
      fix p assume "p \<in> set (dget parents (nid m) [])"
      then have "p \<in> set (map nid fin)"
        using m closed [of m] ps nid_n by (auto simp: dget_def)
      then show "the (map_of ?depths p) = the (map_of depths p)" using old_p by simp
    qed
    show "map_of ?depths (nid m) = Some (depth_after
        (map (\<lambda>p. the (map_of ?depths p)) (dget parents (nid m) [])))"
      unfolding eq
    proof (cases "m \<in> set fin")
      case True
      then show "map_of ?depths (nid m) = Some (depth_after
          (map (\<lambda>p. the (map_of depths p)) (dget parents (nid m) [])))"
        using rule old by simp
    next
      case False
      with m have "nid m = i" using nid_n by simp
      then show "map_of ?depths (nid m) = Some (depth_after
          (map (\<lambda>p. the (map_of depths p)) (dget parents (nid m) [])))"
        using ps(1) d by (simp add: dget_def)
    qed
  qed
qed

lemma generation_loop_correct:
  assumes "generations_inv parents fin depths gens"
    and "distinct (map nid (fin @ ns))"
    and "\<forall>n \<in> set ns. node_id n \<noteq> None"
    and "\<And>as n bs. ns = as @ n # bs \<Longrightarrow>
      \<exists>ps. map_of parents (nid n) = Some ps \<and> set ps \<subseteq> set (map nid (fin @ as))"
  shows "\<exists>depths' gens'. generation_loop parents depths gens ns = Inr gens'
    \<and> generations_inv parents (fin @ ns) depths' gens'"
  using assms
proof (induction ns arbitrary: fin depths gens)
  case (Cons n ns)
  from Cons.prems(3) obtain i where i: "node_id n = Some i" by auto
  then have nid_n: "nid n = i" by (simp add: or_empty_def)
  from Cons.prems(4) [of "[]" n ns] obtain ps where
    ps: "map_of parents i = Some ps" "set ps \<subseteq> set (map nid fin)" by (auto simp: nid_n)
  have new: "i \<notin> set (map nid fin)" using Cons.prems(2) nid_n by auto
  define d where "d = depth_after (map (\<lambda>p. the (map_of depths p)) ps)"
  define gens1 where "gens1 = (if d = length gens then gens @ [[]] else gens)"
  note step = generation_step [OF Cons.prems(1) i new ps d_def gens1_def]
  have "\<exists>depths' gens'. generation_loop parents (AList.update i d depths)
        (gens1[d := gens1 ! d @ [n]]) ns = Inr gens'
      \<and> generations_inv parents ((fin @ [n]) @ ns) depths' gens'"
  proof (rule Cons.IH [OF step(3)])
    show "distinct (map nid ((fin @ [n]) @ ns))" using Cons.prems(2) by simp
    show "\<forall>n \<in> set ns. node_id n \<noteq> None" using Cons.prems(3) by simp
    fix as m bs assume "ns = as @ m # bs"
    then show "\<exists>ps. map_of parents (nid m) = Some ps \<and> set ps \<subseteq> set (map nid ((fin @ [n]) @ as))"
      using Cons.prems(4) [of "n # as" m bs] by simp
  qed
  moreover have "generation_loop parents depths gens (n # ns) =
      generation_loop parents (AList.update i d depths) (gens1[d := gens1 ! d @ [n]]) ns"
    using i ps(1) step(1,2) by (simp add: Let_def d_def [symmetric] gens1_def [symmetric])
  ultimately show ?case by simp
qed auto

text \<open>A complete description of a wave plan: \<open>dep\<close> is the depth of each node; the waves list the
  nodes of equal depth in plan order, no wave is empty, every edge goes to a later wave and
  every node below wave 0 has a parent in the wave just before it.\<close>

definition wave_plan :: "(string \<times> string) set \<Rightarrow> canvas_node list \<Rightarrow> canvas_node list list \<Rightarrow>
    (string \<Rightarrow> nat) \<Rightarrow> bool" where
  "wave_plan r os gens dep \<longleftrightarrow>
     gens = map (\<lambda>d. filter (\<lambda>n. dep (nid n) = d) os) [0..<length gens]
     \<and> (\<forall>n \<in> set os. dep (nid n) < length gens) \<and> [] \<notin> set gens
     \<and> (\<forall>u v. (u, v) \<in> r \<longrightarrow> dep u < dep v)
     \<and> (\<forall>n \<in> set os. dep (nid n) \<noteq> 0 \<longrightarrow>
          (\<exists>u. (u, nid n) \<in> r \<and> dep (nid n) = Suc (dep u)))"

lemma node_ids_nid: "\<forall>n \<in> set os. node_id n \<noteq> None \<Longrightarrow> node_ids os = map nid os"
  by (induction os) (auto simp: node_ids_def List.map_filter_def or_empty_def)

lemma generations_inv_plan:
  assumes inv: "generations_inv parents os depths gens"
    and par: "\<And>n. n \<in> set os \<Longrightarrow> set (dget parents (nid n) []) = {u. (u, nid n) \<in> r}"
    and r: "r \<subseteq> set (map nid os) \<times> set (map nid os)"
  shows "wave_plan r os gens (\<lambda>i. the (map_of depths i))"
proof -
  let ?dep = "\<lambda>i. the (map_of depths i)"
  from inv have waves: "\<And>k. k < length gens \<Longrightarrow>
      gens ! k = filter (\<lambda>n. map_of depths (nid n) = Some k) os"
    and full: "\<And>k. k < length gens \<Longrightarrow> gens ! k \<noteq> []"
    and placed: "\<And>m. m \<in> set os \<Longrightarrow> \<exists>k < length gens. map_of depths (nid m) = Some k"
    and rule: "\<And>m. m \<in> set os \<Longrightarrow> map_of depths (nid m) =
          Some (depth_after (map ?dep (dget parents (nid m) [])))"
    unfolding generations_inv_def by blast+
  have some: "map_of depths (nid m) = Some (?dep (nid m))" if "m \<in> set os" for m
    using placed [OF that] by auto
  have gens: "gens = map (\<lambda>d. filter (\<lambda>n. ?dep (nid n) = d) os) [0..<length gens]"
  proof (rule nth_equalityI)
    fix k assume k: "k < length gens"
    have "filter (\<lambda>n. map_of depths (nid n) = Some k) os = filter (\<lambda>n. ?dep (nid n) = k) os"
      using some by (intro filter_cong) auto
    then show "gens ! k = map (\<lambda>d. filter (\<lambda>n. ?dep (nid n) = d) os) [0..<length gens] ! k"
      using k waves by simp
  qed simp
  have depth: "?dep (nid m) = depth_after (map ?dep (dget parents (nid m) []))"
    if "m \<in> set os" for m
    using rule [OF that] by simp
  have "?dep u < ?dep v" if uv: "(u, v) \<in> r" for u v
  proof -
    from uv r obtain m where m: "m \<in> set os" "v = nid m" by auto
    with par uv have "u \<in> set (dget parents (nid m) [])" by blast
    then have "?dep u \<le> Max (set (map ?dep (dget parents (nid m) [])))"
      and "dget parents (nid m) [] \<noteq> []"
      by (auto intro!: Max_ge)
    then show ?thesis using depth [OF m(1)] m(2) by (simp add: depth_after_def)
  qed
  moreover have "\<exists>u. (u, nid m) \<in> r \<and> ?dep (nid m) = Suc (?dep u)"
    if m: "m \<in> set os" "?dep (nid m) \<noteq> 0" for m
  proof -
    let ?ps = "dget parents (nid m) []"
    have ne: "?ps \<noteq> []" using depth [OF m(1)] m(2) by (auto simp: depth_after_def)
    then have "Max (set (map ?dep ?ps)) \<in> set (map ?dep ?ps)" by (intro Max_in) auto
    then obtain u where "u \<in> set ?ps" "Max (set (map ?dep ?ps)) = ?dep u" by auto
    then show ?thesis using par [OF m(1)] depth [OF m(1)] ne by (auto simp: depth_after_def)
  qed
  moreover have "[] \<notin> set gens" using full by (auto simp: in_set_conv_nth)
  moreover have "\<forall>m \<in> set os. ?dep (nid m) < length gens" using placed by fastforce
  ultimately show ?thesis unfolding wave_plan_def using gens by blast
qed

lemma topological_generations_plan:
  assumes some: "\<forall>n \<in> set os. node_id n \<noteq> None" and dist: "distinct (map nid os)"
    and topo: "topo_sorted (graph_rel os es) (map nid os)"
  shows "\<exists>gens dep. topological_generations os es = Inr gens \<and> wave_plan (graph_rel os es) os gens dep"
proof -
  let ?P = "link_parents (map nid os) es"
  have ids: "node_ids os = map nid os" using some by (rule node_ids_nid)
  have parent: "map_of ?P (nid n) =
      Some (map fst (filter (\<lambda>p. snd p = nid n) (inner_edges (set (map nid os)) es)))"
    if "n \<in> set os" for n
  proof -
    from that have "nid n \<in> set (map nid os)" by simp
    then show ?thesis using link_parents_spec [of "map nid os" es] by blast
  qed
  have rel: "graph_rel os es = set (inner_edges (set (map nid os)) es)"
    by (simp only: graph_rel_inner_edges ids)
  have "generations_inv ?P [] [] []" by (simp add: generations_inv_def)
  moreover have "\<exists>ps. map_of ?P (nid n) = Some ps \<and> set ps \<subseteq> set (map nid ([] @ as))"
    if split: "os = as @ n # bs" for as n bs
  proof -
    have "map nid os = map nid as @ nid n # map nid bs" by (simp add: split)
    with topo have "\<forall>u. (u, nid n) \<in> graph_rel os es \<longrightarrow> u \<in> set (map nid as)"
      unfolding topo_sorted_def by blast
    moreover have "n \<in> set os" by (simp add: split)
    ultimately show ?thesis using parent [of n] rel by auto
  qed
  ultimately obtain depths gens where run: "generation_loop ?P [] [] os = Inr gens"
    and inv: "generations_inv ?P os depths gens"
    using generation_loop_correct [of ?P "[]" "[]" "[]" os] dist some by auto
  have "wave_plan (graph_rel os es) os gens (\<lambda>i. the (map_of depths i))"
  proof (rule generations_inv_plan [OF inv])
    show "set (dget ?P (nid n) []) = {u. (u, nid n) \<in> graph_rel os es}" if "n \<in> set os" for n
      using parent [OF that] by (force simp: dget_def rel)
    show "graph_rel os es \<subseteq> set (map nid os) \<times> set (map nid os)"
      using graph_rel_subset [of os es] by (simp only: ids)
  qed
  moreover have "topological_generations os es = Inr gens"
    using run dist by (simp only: topological_generations_def ids distinct_remdups_id)
  ultimately show ?thesis by blast
qed

lemma graph_rel_order:
  assumes "topological_order ns es = Inr os"
  shows "graph_rel os es = graph_rel ns es"
  using topological_order_InrD(3,5) [OF assms] node_ids_nid [of os]
  by (simp add: graph_rel_def)

text \<open>C4. The waves of a topological order are a correct parallel schedule: no exception is raised,
  every node is in exactly one wave (plan order inside a wave is kept), every edge leads to a
  strictly later wave, no wave is empty, and no node waits longer than its parents force it to.\<close>

theorem topological_generations_schedule:
  assumes "topological_order ns es = Inr os"
  shows "\<exists>gens dep. topological_generations os es = Inr gens
    \<and> gens = map (\<lambda>d. filter (\<lambda>n. dep (nid n) = d) os) [0..<length gens]
    \<and> (\<forall>n \<in> set os. dep (nid n) < length gens) \<and> [] \<notin> set gens
    \<and> (\<forall>u v. (u, v) \<in> graph_rel ns es \<longrightarrow> dep u < dep v)
    \<and> (\<forall>n \<in> set os. dep (nid n) \<noteq> 0 \<longrightarrow>
         (\<exists>u. (u, nid n) \<in> graph_rel ns es \<and> dep (nid n) = Suc (dep u)))"
  using topological_generations_plan [of os es] topological_order_InrD [OF assms]
    graph_rel_order [OF assms]
  unfolding wave_plan_def by metis

theorem topological_generations_schedule_witness:
  "\<exists>gens (dep :: string \<Rightarrow> nat). topological_generations
      (map (\<lambda>i. mk_node i ''step'') [''a'', ''b'', ''c'', ''d'']) diamond_edges = Inr gens
    \<and> (\<forall>u v. (u, v) \<in> graph_rel diamond diamond_edges \<longrightarrow> dep u < dep v)"
  using topological_generations_schedule [OF diamond_order]
  by blast

section \<open>Properties of reachability\<close>

lemma bfs_sound:
  assumes "\<And>i v. v \<in> set (dget adj i []) \<Longrightarrow> (i, v) \<in> r"
  shows "bfs adj q visited \<subseteq> visited \<union> r\<^sup>* `` set q"
  using assms
proof (induction adj q visited rule: bfs.induct)
  case (2 adj i q visited)
  have below: "r\<^sup>* `` set (dget adj i []) \<subseteq> r\<^sup>* `` {i}"
    using "2.prems" by (auto intro: converse_rtrancl_into_rtrancl)
  have img: "r\<^sup>* `` set (i # q) = r\<^sup>* `` {i} \<union> r\<^sup>* `` set q" and self: "i \<in> r\<^sup>* `` {i}"
    by auto
  show ?case
  proof (cases "i \<in> visited")
    case True
    have "bfs adj q visited \<subseteq> visited \<union> r\<^sup>* `` set q" by (rule "2.IH"(1) [OF True "2.prems"])
    with True show ?thesis unfolding img by auto
  next
    case False
    have "bfs adj (q @ dget adj i []) (insert i visited)
        \<subseteq> insert i visited \<union> r\<^sup>* `` set (q @ dget adj i [])"
      by (rule "2.IH"(2) [OF False "2.prems"])
    moreover have "bfs adj (i # q) visited = bfs adj (q @ dget adj i []) (insert i visited)"
      using False by simp
    ultimately show ?thesis using below self unfolding img set_append Image_Un by blast
  qed
qed simp

text \<open>The closure under successors holds relative to what is still queued.\<close>

lemma bfs_complete:
  assumes "\<forall>i \<in> visited. set (dget adj i []) \<subseteq> visited \<union> set q"
  shows "set q \<subseteq> bfs adj q visited \<and> visited \<subseteq> bfs adj q visited \<and>
    (\<forall>i \<in> bfs adj q visited. set (dget adj i []) \<subseteq> bfs adj q visited)"
  using assms
proof (induction adj q visited rule: bfs.induct)
  case (2 adj i q visited)
  show ?case
  proof (cases "i \<in> visited")
    case True
    with "2.prems" have "\<forall>j \<in> visited. set (dget adj j []) \<subseteq> visited \<union> set q" by auto
    from "2.IH"(1) [OF True this] True show ?thesis by auto
  next
    case False
    from "2.prems" have "\<forall>j \<in> insert i visited.
        set (dget adj j []) \<subseteq> insert i visited \<union> set (q @ dget adj i [])" by auto
    from "2.IH"(2) [OF False this] False show ?thesis by auto
  qed
qed auto

lemma bfs_closure:
  assumes adj: "\<And>i v. v \<in> set (dget adj i []) \<longleftrightarrow> (i, v) \<in> r"
  shows "bfs adj (dget adj s []) {} = {v. (s, v) \<in> r\<^sup>+}"
proof
  have "bfs adj (dget adj s []) {} \<subseteq> {} \<union> r\<^sup>* `` set (dget adj s [])"
    by (rule bfs_sound) (simp add: adj)
  then show "bfs adj (dget adj s []) {} \<subseteq> {v. (s, v) \<in> r\<^sup>+}"
    by (auto simp: adj intro: rtrancl_into_trancl2)
  have closed: "set (dget adj s []) \<subseteq> bfs adj (dget adj s []) {}"
    "\<And>i v. i \<in> bfs adj (dget adj s []) {} \<Longrightarrow> (i, v) \<in> r \<Longrightarrow> v \<in> bfs adj (dget adj s []) {}"
    using bfs_complete [of "{}" adj "dget adj s []"] by (auto simp flip: adj)
  show "{v. (s, v) \<in> r\<^sup>+} \<subseteq> bfs adj (dget adj s []) {}"
  proof
    fix v assume "v \<in> {v. (s, v) \<in> r\<^sup>+}"
    then have "(s, v) \<in> r\<^sup>+" by simp
    then show "v \<in> bfs adj (dget adj s []) {}"
    proof (induction rule: trancl_induct)
      case (base v)
      with closed(1) show ?case by (auto simp: adj)
    next
      case (step v w)
      with closed(2) show ?case by blast
    qed
  qed
qed

lemma downstream_reachable:
  "downstream_node_ids s ns es = {v. (s, v) \<in> (graph_rel ns es)\<^sup>+}"
proof -
  let ?ids = "remdups (node_ids ns)"
  let ?adj = "link_adjacency ?ids es"
  have "v \<in> set (dget ?adj i []) \<longleftrightarrow> (i, v) \<in> graph_rel ns es" for i v
  proof (cases "i \<in> set (node_ids ns)")
    case True
    then have "i \<in> set ?ids" by simp
    then have "map_of ?adj i =
        Some (map snd (filter (\<lambda>p. fst p = i) (inner_edges (set ?ids) es)))"
      using link_adjacency_spec [of ?ids es] by blast
    then show ?thesis by (force simp: dget_def graph_rel_inner_edges)
  next
    case False
    have "map fst ?adj = ?ids" using link_adjacency_spec by blast
    then have "fst ` set ?adj = set (node_ids ns)" by (metis list.set_map set_remdups)
    with False have "map_of ?adj i = None" by (simp add: map_of_None_iff)
    with False show ?thesis using graph_rel_subset by (fastforce simp: dget_def)
  qed
  from bfs_closure [OF this] show ?thesis
    unfolding downstream_node_ids_def Let_def .
qed

text \<open>\<open>downstream_node_ids\<close> terminates and returns exactly the nodes reachable over one or more
  edges, also on cyclic canvases.\<close>

lemma downstream_node_ids_correct:
  "v \<in> downstream_node_ids s ns es \<longleftrightarrow> (s, v) \<in> (graph_rel ns es)\<^sup>+"
  by (simp add: downstream_reachable)

text \<open>The nodes of a fan-out child and the nodes the parent runs after the join split the
  region below the inventory step: the child set and the join region are disjoint, together
  they cover the region, nothing in the join region feeds a child node, and every region node
  that feeds a child node is itself run by the child.\<close>

lemma child_node_ids_split:
  "child_node_ids i (Some j) ns es \<inter> ({j} \<union> downstream_node_ids j ns es) = {}
    \<and> downstream_node_ids i ns es \<subseteq>
        child_node_ids i (Some j) ns es \<union> ({j} \<union> downstream_node_ids j ns es)
    \<and> (\<forall>u v. (u, v) \<in> graph_rel ns es \<and> v \<in> child_node_ids i (Some j) ns es \<longrightarrow>
         u \<notin> {j} \<union> downstream_node_ids j ns es
         \<and> (u \<in> downstream_node_ids i ns es \<longrightarrow> u \<in> child_node_ids i (Some j) ns es))"
proof -
  have step: "v \<in> downstream_node_ids j ns es"
    if "(u, v) \<in> graph_rel ns es" "u \<in> {j} \<union> downstream_node_ids j ns es" for u v
    using that by (auto simp: downstream_reachable intro: trancl_into_trancl)
  show ?thesis
    using step by (auto simp: child_node_ids_def Let_def)
qed

lemma find_join_SomeD:
  assumes "find_join_node_id i ns es = Some j"
  shows "j \<in> downstream_node_ids i ns es"
    and "\<exists>n \<in> set ns. nid n = j \<and> node_kind n = Some ''fan-in''"
proof -
  from assms obtain n where n: "List.find (\<lambda>n. nid n \<in> downstream_node_ids i ns es \<and>
      node_kind n = Some ''fan-in'') ns = Some n" and j: "j = nid n"
    by (auto simp: find_join_node_id_def Let_def)
  from n have "n \<in> set ns \<and> nid n \<in> downstream_node_ids i ns es \<and> node_kind n = Some ''fan-in''"
    unfolding find_Some_iff by (auto simp: in_set_conv_nth)
  with j show "j \<in> downstream_node_ids i ns es"
    and "\<exists>n \<in> set ns. nid n = j \<and> node_kind n = Some ''fan-in''" by auto
qed

end
