(* ===== verification/Graph_Resolution.thy ===== *)
theory Graph_Resolution
  imports Graph_Waves
begin

text \<open>
  \<open>services/execution/step_runner/graph_resolution.py\<close>: from the canvas the author drew to the
  graph the engine walks. Funnels are spliced out, author-disabled steps are bypassed, the graph
  is truncated below \<open>stop-here\<close> nodes, and canvas decorations are dropped before the
  topological sort. The plugin registry is the function \<open>registry\<close>
  (\<open>PluginRegistryService.get_plugin\<close>).

  Python iterates over the set of funnel ids; the model iterates in node order. The order only
  selects which of several malformed funnels the error names.
\<close>

section \<open>Plugin registry entries\<close>

record plugin_definition =
  plugin_id :: string
  plugin_enabled :: bool
  plugin_executable :: bool
  plugin_requires :: "string list"
  plugin_produces :: "string list"
  plugin_consumes :: "string list"
  plugin_requires_parsed :: "string list"

text \<open>\<open>PluginRegistryService.get_plugin\<close> on the loaded registry.\<close>

definition get_plugin :: "plugin_definition list \<Rightarrow> bool \<Rightarrow> string \<Rightarrow> plugin_definition option" where
  "get_plugin plugins include_disabled pid =
     List.find (\<lambda>p. plugin_id p = pid \<and> (include_disabled \<or> plugin_enabled p)) plugins"

text \<open>\<open>{n["id"] for n in nodes if "id" in n and p(n)}\<close>, as a list in node order.\<close>

definition ids_where :: "(canvas_node \<Rightarrow> bool) \<Rightarrow> canvas_node list \<Rightarrow> string list" where
  "ids_where p ns = remdups (node_ids (filter p ns))"

text \<open>\<open>n.get("id") not in ids\<close>\<close>

definition without_ids :: "string set \<Rightarrow> canvas_node list \<Rightarrow> canvas_node list" where
  "without_ids ids ns =
     filter (\<lambda>n. case node_id n of None \<Rightarrow> True | Some i \<Rightarrow> i \<notin> ids) ns"

section \<open>Funnels\<close>

abbreviation funnel_ids :: "canvas_node list \<Rightarrow> string list" where
  "funnel_ids ns \<equiv> ids_where (\<lambda>n. node_kind n = Some ''funnel'') ns"

definition funnel_outgoing :: "string list \<Rightarrow> canvas_edge list \<Rightarrow>
    (string, canvas_edge) dict \<Rightarrow> string \<Rightarrow> (string, canvas_edge) dict res" where
  "funnel_outgoing fids es acc f =
     (case filter (\<lambda>e. edge_source e = Some f) es of
        [out] \<Rightarrow>
          (if etgt out \<in> set fids
           then Inl (ValueError (''Funnel node '' @ py_repr f @ '' feeds into another funnel ''
                  @ py_repr (etgt out)))
           else Inr (AList.update f out acc))
      | _ \<Rightarrow> Inl (ValueError (''Funnel node '' @ py_repr f
               @ '' must have exactly one outgoing connection'')))"

text \<open>\<open>{**edge, "target": ..., "targetHandle": ...}\<close>\<close>

definition retarget :: "canvas_edge \<Rightarrow> canvas_edge \<Rightarrow> canvas_edge" where
  "retarget e out = e\<lparr>edge_target := Some (etgt out),
                       edge_target_handle := edge_target_handle out\<rparr>"

fun funnel_edge :: "(string, canvas_edge) dict \<Rightarrow> canvas_edge list \<Rightarrow> canvas_edge \<Rightarrow>
    canvas_edge list res" where
  "funnel_edge outgoing acc e =
     (case map_of outgoing (etgt e) of
        None \<Rightarrow> Inl (KeyError (etgt e))
      | Some out \<Rightarrow> Inr (acc @ [retarget e out]))"

definition resolve_funnels :: "canvas_node list \<Rightarrow> canvas_edge list \<Rightarrow>
    (canvas_node list \<times> canvas_edge list) res" where
  "resolve_funnels nodes edges =
     (let fids = funnel_ids nodes in
      if fids = [] then Inr (nodes, edges)
      else
        res_bind (res_fold (funnel_outgoing fids edges) [] fids)
          (\<lambda>outgoing.
             let kept = filter (\<lambda>e. edge_source e \<notin> Some ` set fids
                          \<and> edge_target e \<notin> Some ` set fids) edges
             in res_bind
                  (res_fold (funnel_edge outgoing) kept
                     (filter (\<lambda>e. etgt e \<in> set fids) edges))
                  (\<lambda>resolved. Inr (without_ids (set fids) nodes, resolved))))"

section \<open>Disabled steps\<close>

definition is_author_disabled :: "canvas_node \<Rightarrow> bool" where
  "is_author_disabled n \<longleftrightarrow> data_disabled (node_data n) \<and> node_kind n \<noteq> Some ''fan-in''"

abbreviation disabled_ids :: "canvas_node list \<Rightarrow> string list" where
  "disabled_ids ns \<equiv> ids_where is_author_disabled ns"

text \<open>The outgoing edges a disabled step passes through: a lone edge always, otherwise only
  the \<open>success\<close> branch.\<close>

definition passed_edges :: "canvas_edge list \<Rightarrow> string \<Rightarrow> canvas_edge list" where
  "passed_edges es i =
     (let out = filter (\<lambda>e. esrc e = i) es
      in if 1 < length out then filter (\<lambda>e. outcome_handle e = ''success'') out else out)"

function enabled_targets_beyond :: "string list \<Rightarrow> canvas_edge list \<Rightarrow> string \<Rightarrow> string set \<Rightarrow>
    (string \<times> string option) list" where
  "enabled_targets_beyond dis es i seen =
     concat (map (\<lambda>e.
        if etgt e = '''' then []
        else if etgt e \<in> set dis
        then (if etgt e \<notin> seen
              then enabled_targets_beyond dis es (etgt e) (insert (etgt e) seen) else [])
        else [(etgt e, edge_target_handle e)])
       (passed_edges es i))"
  by pat_completeness auto
termination
  by (relation "measure (\<lambda>(dis, es, i, seen). card (set dis - seen))")
    (auto simp: card_gt_0_iff intro!: diff_less)

declare enabled_targets_beyond.simps [simp del]

type_synonym wire = "string \<times> string option \<times> string \<times> string option"

definition wire :: "canvas_edge \<Rightarrow> wire" where
  "wire e = (esrc e, edge_source_handle e, etgt e, edge_target_handle e)"

text \<open>\<open>keep\<close>: append an edge unless its wire was seen.\<close>

definition keep :: "canvas_edge list \<Rightarrow> canvas_edge \<Rightarrow> canvas_edge list" where
  "keep acc e = (if wire e \<in> wire ` set acc then acc else acc @ [e])"

definition bypass_edge :: "canvas_edge \<Rightarrow> string \<times> string option \<Rightarrow> canvas_edge" where
  "bypass_edge e far =
     e\<lparr>edge_id := Some ((case edge_id e of None \<Rightarrow> ''edge'' | Some s \<Rightarrow> s)
          @ ''::bypass::'' @ fst far),
       edge_target := Some (fst far), edge_target_handle := snd far\<rparr>"

text \<open>The edges one original edge contributes, in the order they are offered to \<open>keep\<close>.\<close>

definition rewired :: "string list \<Rightarrow> canvas_edge list \<Rightarrow> canvas_edge \<Rightarrow> canvas_edge list" where
  "rewired dis es e =
     (if esrc e \<in> set dis then []
      else if etgt e \<notin> set dis then [e]
      else map (bypass_edge e) (enabled_targets_beyond dis es (etgt e) {etgt e}))"

definition resolve_disabled_steps :: "canvas_node list \<Rightarrow> canvas_edge list \<Rightarrow>
    canvas_node list \<times> canvas_edge list" where
  "resolve_disabled_steps nodes edges =
     (let dis = disabled_ids nodes in
      if dis = [] then (nodes, edges)
      else (without_ids (set dis) nodes,
            foldl (\<lambda>acc e. foldl keep acc (rewired dis edges e)) [] edges))"

section \<open>Stop here\<close>

definition resolve_stop_here :: "canvas_node list \<Rightarrow> canvas_edge list \<Rightarrow>
    canvas_node list \<times> canvas_edge list" where
  "resolve_stop_here nodes edges =
     (let stop_ids = ids_where (\<lambda>n. node_kind n = Some ''stop-here'') nodes in
      if stop_ids = [] then (nodes, edges)
      else
        let truncated = \<Union> (set (map (\<lambda>s. downstream_node_ids s nodes edges) stop_ids))
        in (without_ids truncated nodes,
            filter (\<lambda>e. esrc e \<notin> truncated \<and> etgt e \<notin> truncated) edges))"

section \<open>The executable graph\<close>

definition is_executable_node :: "(string \<Rightarrow> plugin_definition option) \<Rightarrow> canvas_node \<Rightarrow> bool" where
  "is_executable_node registry n =
     (if is_author_disabled n then False
      else let kind = or_empty (node_kind n)
           in if kind = '''' then True
              else case registry kind of None \<Rightarrow> True | Some p \<Rightarrow> plugin_executable p)"

definition filter_executable_graph :: "(string \<Rightarrow> plugin_definition option) \<Rightarrow>
    canvas_node list \<Rightarrow> canvas_edge list \<Rightarrow> canvas_node list \<times> canvas_edge list" where
  "filter_executable_graph registry nodes edges =
     (let executable = filter (is_executable_node registry) nodes;
          ids = set (node_ids executable)
      in (executable, filter (\<lambda>e. esrc e \<in> ids \<and> etgt e \<in> ids) edges))"

definition topological_sort :: "(string \<Rightarrow> plugin_definition option) \<Rightarrow>
    canvas_node list \<Rightarrow> canvas_edge list \<Rightarrow> canvas_node list res" where
  "topological_sort registry nodes edges =
     (let (ns, es) = filter_executable_graph registry nodes edges in topological_order ns es)"

text \<open>\<open>StepRunner.load_execution_graph\<close>: funnels, then disabled steps, then stop-here.\<close>

definition load_execution_graph :: "canvas_node list \<Rightarrow> canvas_edge list \<Rightarrow>
    (canvas_node list \<times> canvas_edge list) res" where
  "load_execution_graph nodes edges =
     res_bind (resolve_funnels nodes edges)
       (\<lambda>(ns, es). let (ns', es') = resolve_disabled_steps ns es
                   in Inr (resolve_stop_here ns' es'))"

section \<open>Basic facts\<close>

lemma set_node_ids: "set (node_ids ns) = {i. \<exists>n \<in> set ns. node_id n = Some i}"
  by (induction ns) (auto simp: node_ids_def List.map_filter_def)

lemma set_ids_where: "set (ids_where p ns) = {i. \<exists>n \<in> set ns. p n \<and> node_id n = Some i}"
  by (auto simp: ids_where_def set_node_ids)

lemma ids_where_subset: "set (ids_where p ns) \<subseteq> set (node_ids ns)"
  by (auto simp: set_ids_where set_node_ids)

lemma node_ids_without [simp]: "set (node_ids (without_ids X ns)) = set (node_ids ns) - X"
  by (auto simp: without_ids_def set_node_ids)

lemma set_without_ids: "set (without_ids X ns) \<subseteq> set ns"
  by (auto simp: without_ids_def)

lemma without_empty [simp]: "without_ids {} ns = ns"
  by (auto simp: without_ids_def filter_id_conv split: option.splits)

lemma edge_source_Some: "esrc e = i \<Longrightarrow> i \<noteq> '''' \<Longrightarrow> edge_source e = Some i"
  by (auto simp: or_empty_def split: option.splits)

lemma edge_target_Some: "etgt e = i \<Longrightarrow> i \<noteq> '''' \<Longrightarrow> edge_target e = Some i"
  by (auto simp: or_empty_def split: option.splits)

lemma graph_relI:
  "e \<in> set es \<Longrightarrow> esrc e \<in> set (node_ids ns) \<Longrightarrow> etgt e \<in> set (node_ids ns) \<Longrightarrow>
   (esrc e, etgt e) \<in> graph_rel ns es"
  by (auto simp: graph_rel_def)

lemma graph_relE:
  assumes "(u, v) \<in> graph_rel ns es"
  obtains e where "e \<in> set es" "u = esrc e" "v = etgt e"
    "u \<in> set (node_ids ns)" "v \<in> set (node_ids ns)"
  using assms by (auto simp: graph_rel_def)

section \<open>Funnel resolution\<close>

lemma funnel_fold_Inr:
  assumes "res_fold (funnel_outgoing fids es) acc fs = Inr outgoing"
  shows "(\<forall>f \<in> set fs. \<exists>out. filter (\<lambda>e. edge_source e = Some f) es = [out] \<and> etgt out \<notin> set fids
           \<and> map_of outgoing f = Some out)
    \<and> (\<forall>f. f \<notin> set fs \<longrightarrow> map_of outgoing f = map_of acc f)"
  using assms
proof (induction fs arbitrary: acc)
  case (Cons f fs)
  from Cons.prems obtain acc' where one: "funnel_outgoing fids es acc f = Inr acc'"
    and rest: "res_fold (funnel_outgoing fids es) acc' fs = Inr outgoing"
    by (auto simp: res_bind_Inr_iff)
  from one obtain out where out: "filter (\<lambda>e. edge_source e = Some f) es = [out]"
    "etgt out \<notin> set fids" "acc' = AList.update f out acc"
    by (auto simp: funnel_outgoing_def split: list.splits if_splits)
  from Cons.IH [OF rest] out show ?case
    by (cases "f \<in> set fs") auto
qed simp

lemma funnel_edges_Inr:
  assumes "\<forall>e \<in> set es'. map_of outgoing (etgt e) \<noteq> None"
  shows "res_fold (funnel_edge outgoing) acc es' =
    Inr (acc @ map (\<lambda>e. retarget e (the (map_of outgoing (etgt e)))) es')"
  using assms by (induction es' arbitrary: acc) auto

definition funnel_exit :: "canvas_edge list \<Rightarrow> string \<Rightarrow> canvas_edge" where
  "funnel_exit es f = hd (filter (\<lambda>e. edge_source e = Some f) es)"

definition funnels_ok :: "string list \<Rightarrow> canvas_edge list \<Rightarrow> bool" where
  "funnels_ok fids es \<longleftrightarrow> (\<forall>f \<in> set fids. length (filter (\<lambda>e. edge_source e = Some f) es) = 1
      \<and> etgt (funnel_exit es f) \<notin> set fids)"

text \<open>The edge list after funnel resolution.\<close>

definition funnel_result :: "string set \<Rightarrow> canvas_edge list \<Rightarrow> canvas_edge list" where
  "funnel_result F es =
     filter (\<lambda>e. edge_source e \<notin> Some ` F \<and> edge_target e \<notin> Some ` F) es
     @ map (\<lambda>e. retarget e (funnel_exit es (etgt e))) (filter (\<lambda>e. etgt e \<in> F) es)"

lemma resolve_funnels_Inr:
  assumes "resolve_funnels ns es = Inr (ns', es')"
  shows "funnels_ok (funnel_ids ns) es \<and> ns' = without_ids (set (funnel_ids ns)) ns
    \<and> es' = funnel_result (set (funnel_ids ns)) es"
proof (cases "funnel_ids ns = []")
  case True
  with assms show ?thesis
    by (simp add: resolve_funnels_def funnels_ok_def funnel_result_def)
next
  case False
  let ?F = "funnel_ids ns"
  from False assms obtain outgoing resolved where
    out: "res_fold (funnel_outgoing ?F es) [] ?F = Inr outgoing"
    and res: "res_fold (funnel_edge outgoing) (filter (\<lambda>e. edge_source e \<notin> Some ` set ?F
        \<and> edge_target e \<notin> Some ` set ?F) es) (filter (\<lambda>e. etgt e \<in> set ?F) es) = Inr resolved"
    and eqs: "ns' = without_ids (set ?F) ns" "es' = resolved"
    by (auto simp: resolve_funnels_def Let_def res_bind_Inr_iff)
  have look: "map_of outgoing f = Some (funnel_exit es f) \<and>
      length (filter (\<lambda>e. edge_source e = Some f) es) = 1 \<and> etgt (funnel_exit es f) \<notin> set ?F"
    if "f \<in> set ?F" for f
  proof -
    from funnel_fold_Inr [OF out] that obtain out where
      "filter (\<lambda>e. edge_source e = Some f) es = [out]" "etgt out \<notin> set ?F"
      "map_of outgoing f = Some out" by blast
    then show ?thesis by (simp add: funnel_exit_def)
  qed
  then have spliced: "map (\<lambda>e. retarget e (the (map_of outgoing (etgt e))))
        (filter (\<lambda>e. etgt e \<in> set ?F) es)
      = map (\<lambda>e. retarget e (funnel_exit es (etgt e))) (filter (\<lambda>e. etgt e \<in> set ?F) es)"
    by (intro map_cong) auto
  have "\<forall>e \<in> set (filter (\<lambda>e. etgt e \<in> set ?F) es). map_of outgoing (etgt e) \<noteq> None"
    using look by auto
  from res [unfolded funnel_edges_Inr [OF this] spliced]
  have "resolved = funnel_result (set ?F) es" by (simp add: funnel_result_def)
  with look eqs show ?thesis by (simp add: funnels_ok_def)
qed

lemma funnel_exit_in:
  assumes "funnels_ok fids es" and "f \<in> set fids"
  shows "funnel_exit es f \<in> set es" and "edge_source (funnel_exit es f) = Some f"
    and "\<And>e. e \<in> set es \<Longrightarrow> edge_source e = Some f \<Longrightarrow> e = funnel_exit es f"
proof -
  from assms obtain out where out: "filter (\<lambda>e. edge_source e = Some f) es = [out]"
    by (auto simp: funnels_ok_def length_Suc_conv)
  then have exit: "funnel_exit es f = out" by (simp add: funnel_exit_def)
  have "out \<in> set (filter (\<lambda>e. edge_source e = Some f) es)" by (simp add: out)
  then show "funnel_exit es f \<in> set es" and "edge_source (funnel_exit es f) = Some f"
    by (auto simp: exit)
  fix e assume "e \<in> set es" "edge_source e = Some f"
  then have "e \<in> set (filter (\<lambda>e. edge_source e = Some f) es)" by simp
  then show "e = funnel_exit es f" by (simp add: out exit)
qed

text \<open>Well-formed canvases: no node has the empty id (the default the code uses for a missing
  \<open>source\<close> or \<open>target\<close>).\<close>

abbreviation canvas_ok :: "canvas_node list \<Rightarrow> bool" where
  "canvas_ok ns \<equiv> '''' \<notin> set (node_ids ns)"

lemma funnel_rel:
  assumes res: "resolve_funnels ns es = Inr (ns', es')" and ok: "canvas_ok ns"
    and F: "F = set (funnel_ids ns)" and r: "r = graph_rel ns es"
  shows "graph_rel ns' es' =
    {(u, v). u \<notin> F \<and> v \<notin> F \<and> ((u, v) \<in> r \<or> (\<exists>f \<in> F. (u, f) \<in> r \<and> (f, v) \<in> r))}"
proof -
  from resolve_funnels_Inr [OF res] have fok: "funnels_ok (funnel_ids ns) es"
    and ns': "ns' = without_ids F ns" and es': "es' = funnel_result F es" by (simp_all add: F)
  have F_ids: "F \<subseteq> set (node_ids ns)" unfolding F by (rule ids_where_subset)
  have src: "edge_source e \<in> Some ` F \<longleftrightarrow> esrc e \<in> F" for e
    using ok F_ids by (cases "edge_source e") (auto simp: or_empty_def)
  have tgt: "edge_target e \<in> Some ` F \<longleftrightarrow> etgt e \<in> F" for e
    using ok F_ids by (cases "edge_target e") (auto simp: or_empty_def)
  have rt: "esrc (retarget e out) = esrc e" "etgt (retarget e out) = etgt out" for e out
    by (simp_all add: retarget_def or_empty_def)
  show ?thesis
  proof (intro set_eqI iffI)
    fix p assume "p \<in> graph_rel ns' es'"
    then obtain e where e: "e \<in> set (funnel_result F es)" "p = (esrc e, etgt e)"
      and ends: "esrc e \<in> set (node_ids ns) - F" "etgt e \<in> set (node_ids ns) - F"
      by (auto simp: graph_rel_def ns' es')
    from e(1) consider "e \<in> set es"
      | e0 where "e0 \<in> set es" "etgt e0 \<in> F" "e = retarget e0 (funnel_exit es (etgt e0))"
      by (auto simp: funnel_result_def)
    then show "p \<in> {(u, v). u \<notin> F \<and> v \<notin> F \<and>
        ((u, v) \<in> r \<or> (\<exists>f \<in> F. (u, f) \<in> r \<and> (f, v) \<in> r))}"
    proof cases
      case 1
      with e ends show ?thesis by (auto simp: r intro: graph_relI)
    next
      case 2
      let ?x = "funnel_exit es (etgt e0)"
      note exit = funnel_exit_in(1,2) [OF fok, of "etgt e0"]
      have "etgt e0 \<in> set (node_ids ns)" using 2 F_ids by blast
      then have "(esrc e0, etgt e0) \<in> r"
        using 2 ends by (auto simp: r rt intro: graph_relI)
      moreover have "(etgt e0, etgt ?x) \<in> r"
        using 2 exit ends \<open>etgt e0 \<in> set (node_ids ns)\<close> graph_relI [of ?x es ns]
        by (simp add: r rt F or_empty_def [of "Some _"])
      ultimately show ?thesis using e(2) ends 2 by (auto simp: rt)
    qed
  next
    fix p assume "p \<in> {(u, v). u \<notin> F \<and> v \<notin> F \<and>
        ((u, v) \<in> r \<or> (\<exists>f \<in> F. (u, f) \<in> r \<and> (f, v) \<in> r))}"
    then obtain u v where p: "p = (u, v)" and uv: "u \<notin> F" "v \<notin> F"
      and alt: "(u, v) \<in> r \<or> (\<exists>f \<in> F. (u, f) \<in> r \<and> (f, v) \<in> r)" by auto
    from alt show "p \<in> graph_rel ns' es'"
    proof
      assume "(u, v) \<in> r"
      then obtain e where "e \<in> set es" "u = esrc e" "v = etgt e"
        "u \<in> set (node_ids ns)" "v \<in> set (node_ids ns)" unfolding r by (rule graph_relE)
      then show ?thesis using uv src tgt
        by (auto simp: p graph_rel_def ns' es' funnel_result_def intro!: exI [of _ e])
    next
      assume "\<exists>f \<in> F. (u, f) \<in> r \<and> (f, v) \<in> r"
      then obtain f where f: "f \<in> F" "(u, f) \<in> r" "(f, v) \<in> r" by blast
      obtain e where e: "e \<in> set es" "u = esrc e" "f = etgt e" "u \<in> set (node_ids ns)"
        using f(2) unfolding r by (rule graph_relE)
      obtain x where x: "x \<in> set es" "f = esrc x" "v = etgt x" "v \<in> set (node_ids ns)"
        using f(3) unfolding r by (rule graph_relE)
      have "f \<noteq> ''''" using f(1) F_ids ok by blast
      then have "edge_source x = Some f" by (rule edge_source_Some [OF x(2) [symmetric]])
      moreover have "f \<in> set (funnel_ids ns)" using f(1) by (simp only: F)
      ultimately have "x = funnel_exit es f" using funnel_exit_in(3) [OF fok _ x(1)] by blast
      then have "retarget e x \<in> set es'"
        using e f(1) by (auto simp: es' funnel_result_def)
      then show ?thesis using e x uv
        by (auto simp: p graph_rel_def ns' rt intro!: exI [of _ "retarget e x"])
    qed
  qed
qed

text \<open>Nothing an author wired through a funnel is lost and nothing is added: between the nodes
  that remain, reachability is unchanged.\<close>

lemma funnel_reachability:
  assumes res: "resolve_funnels ns es = Inr (ns', es')" and ok: "canvas_ok ns"
    and uv: "u \<notin> set (funnel_ids ns)" "v \<notin> set (funnel_ids ns)"
  shows "(u, v) \<in> (graph_rel ns' es')\<^sup>+ \<longleftrightarrow> (u, v) \<in> (graph_rel ns es)\<^sup>+"
proof -
  define F where "F = set (funnel_ids ns)"
  define r where "r = graph_rel ns es"
  define r' where "r' = graph_rel ns' es'"
  have r': "r' = {(u, v). u \<notin> F \<and> v \<notin> F \<and> ((u, v) \<in> r \<or> (\<exists>f \<in> F. (u, f) \<in> r \<and> (f, v) \<in> r))}"
    unfolding r'_def by (rule funnel_rel [OF res ok F_def r_def])
  have noloop: "(f, g) \<notin> r" if f: "f \<in> F" and g: "g \<in> F" for f g
  proof
    assume "(f, g) \<in> r"
    then obtain e where e: "e \<in> set es" "f = esrc e" "g = etgt e" "f \<in> set (node_ids ns)"
      unfolding r_def by (rule graph_relE)
    have fok: "funnels_ok (funnel_ids ns) es" using resolve_funnels_Inr [OF res] by simp
    have "f \<noteq> ''''" using e(4) ok by blast
    then have "edge_source e = Some f" by (rule edge_source_Some [OF e(2) [symmetric]])
    then have "e = funnel_exit es f"
      using funnel_exit_in(3) [OF fok _ e(1)] f unfolding F_def by blast
    then show False using fok f g e(3) unfolding F_def funnels_ok_def by blast
  qed
  have "(u, v) \<in> r\<^sup>+" if "(u, v) \<in> r'\<^sup>+" for u v
    using that
  proof (induction rule: trancl_induct)
    case (base v) then show ?case by (auto simp: r' intro: trancl_into_trancl)
  next
    case (step v w) then show ?case by (auto simp: r' intro: trancl_into_trancl)
  qed
  moreover have "(v \<notin> F \<longrightarrow> (u, v) \<in> r'\<^sup>+) \<and> (v \<in> F \<longrightarrow> (\<exists>w. w \<notin> F \<and> (u, w) \<in> r'\<^sup>* \<and> (w, v) \<in> r))"
    if "(u, v) \<in> r\<^sup>+" "u \<notin> F" for u v
    using that
  proof (induction rule: trancl_induct)
    case (base v) then show ?case by (auto simp: r')
  next
    case (step v w)
    show ?case
    proof (cases "v \<in> F")
      case True
      with step obtain x where x: "x \<notin> F" "(u, x) \<in> r'\<^sup>*" "(x, v) \<in> r" by blast
      have w: "w \<notin> F" using True step.hyps(2) noloop by blast
      have "(x, w) \<in> r'" using x True step.hyps(2) w by (auto simp: r')
      with x(2) w show ?thesis by (simp add: rtrancl_into_trancl1)
    next
      case False
      with step have uv: "(u, v) \<in> r'\<^sup>+" by blast
      show ?thesis
      proof (cases "w \<in> F")
        case True
        with False uv step.hyps(2) show ?thesis by (auto intro: trancl_into_rtrancl)
      next
        case w: False
        with False step.hyps(2) have "(v, w) \<in> r'" by (auto simp: r')
        with uv w show ?thesis by (auto intro: trancl_into_trancl)
      qed
    qed
  qed
  ultimately show ?thesis using uv unfolding r_def r'_def F_def by blast
qed

section \<open>Bypassing disabled steps\<close>

text \<open>How a disabled step passes control on: to another disabled step, or out of the chain.\<close>

definition pass_rel :: "string list \<Rightarrow> canvas_edge list \<Rightarrow> (string \<times> string) set" where
  "pass_rel dis es =
     {(i, etgt e) | i e. e \<in> set (passed_edges es i) \<and> etgt e \<noteq> '''' \<and> etgt e \<in> set dis}"

definition pass_exits :: "string list \<Rightarrow> canvas_edge list \<Rightarrow> string \<Rightarrow> (string \<times> string option) set" where
  "pass_exits dis es i =
     {(etgt e, edge_target_handle e) | e.
        e \<in> set (passed_edges es i) \<and> etgt e \<noteq> '''' \<and> etgt e \<notin> set dis}"

lemma rtrancl_avoid_start: "(a, b) \<in> r\<^sup>* \<Longrightarrow> (a, b) \<in> {(x, y) \<in> r. y \<noteq> a}\<^sup>*"
proof (induction rule: rtrancl_induct)
  case (step b c)
  show ?case
  proof (cases "c = a")
    case False
    with step show ?thesis by (auto intro: rtrancl_into_rtrancl)
  qed simp
qed simp

lemma rtrancl_first_step:
  "(\<exists>c. (i, c) \<in> S\<^sup>* \<and> P c) \<longleftrightarrow> P i \<or> (\<exists>d c. (i, d) \<in> S \<and> (d, c) \<in> S\<^sup>* \<and> P c)"
  by (auto elim: converse_rtranclE intro: converse_rtrancl_into_rtrancl)

lemma set_enabled_targets_beyond:
  "set (enabled_targets_beyond dis es i seen) =
     pass_exits dis es i \<union>
     (\<Union>d \<in> {d. (i, d) \<in> pass_rel dis es \<and> d \<notin> seen}.
        set (enabled_targets_beyond dis es d (insert d seen)))"
  by (subst enabled_targets_beyond.simps)
    (auto simp: pass_exits_def pass_rel_def split: if_splits)

lemma enabled_targets_beyond_iff:
  "x \<in> set (enabled_targets_beyond dis es i seen) \<longleftrightarrow>
     (\<exists>d. (i, d) \<in> {(a, b) \<in> pass_rel dis es. b \<notin> seen}\<^sup>* \<and> x \<in> pass_exits dis es d)"
proof (induction "card (set dis - seen)" arbitrary: i seen rule: less_induct)
  case less
  let ?R = "\<lambda>seen. {(a, b) \<in> pass_rel dis es. b \<notin> seen}"
  have IH: "x \<in> set (enabled_targets_beyond dis es d (insert d seen)) \<longleftrightarrow>
      (\<exists>c. (d, c) \<in> (?R (insert d seen))\<^sup>* \<and> x \<in> pass_exits dis es c)"
    if "(i, d) \<in> pass_rel dis es" "d \<notin> seen" for d
  proof (rule less.hyps)
    from that have "d \<in> set dis" by (auto simp: pass_rel_def)
    with that(2) show "card (set dis - insert d seen) < card (set dis - seen)"
      by (intro psubset_card_mono) auto
  qed
  have same: "(d, c) \<in> (?R (insert d seen))\<^sup>* \<longleftrightarrow> (d, c) \<in> (?R seen)\<^sup>*" for d c
  proof
    assume "(d, c) \<in> (?R (insert d seen))\<^sup>*"
    then show "(d, c) \<in> (?R seen)\<^sup>*" by (rule rtrancl_mono [THEN subsetD, rotated]) auto
  next
    assume "(d, c) \<in> (?R seen)\<^sup>*"
    from rtrancl_avoid_start [OF this] show "(d, c) \<in> (?R (insert d seen))\<^sup>*"
      by (rule rtrancl_mono [THEN subsetD, rotated]) auto
  qed
  have IH': "x \<in> set (enabled_targets_beyond dis es d (insert d seen)) \<longleftrightarrow>
      (\<exists>c. (d, c) \<in> (?R seen)\<^sup>* \<and> x \<in> pass_exits dis es c)"
    if "(i, d) \<in> pass_rel dis es" "d \<notin> seen" for d
    using IH [OF that] unfolding same .
  have "x \<in> set (enabled_targets_beyond dis es i seen) \<longleftrightarrow> x \<in> pass_exits dis es i \<or>
      (\<exists>d c. (i, d) \<in> ?R seen \<and> (d, c) \<in> (?R seen)\<^sup>* \<and> x \<in> pass_exits dis es c)"
    by (subst set_enabled_targets_beyond) (auto simp: IH')
  also have "\<dots> \<longleftrightarrow> (\<exists>c. (i, c) \<in> (?R seen)\<^sup>* \<and> x \<in> pass_exits dis es c)"
    by (rule rtrancl_first_step [symmetric])
  finally show ?case .
qed

lemma enabled_targets_beyond_start:
  "x \<in> set (enabled_targets_beyond dis es d {d}) \<longleftrightarrow>
     (\<exists>d'. (d, d') \<in> (pass_rel dis es)\<^sup>* \<and> x \<in> pass_exits dis es d')"
proof -
  have "(d, d') \<in> {(a, b) \<in> pass_rel dis es. b \<notin> {d}}\<^sup>* \<longleftrightarrow> (d, d') \<in> (pass_rel dis es)\<^sup>*" for d'
  proof
    assume "(d, d') \<in> {(a, b) \<in> pass_rel dis es. b \<notin> {d}}\<^sup>*"
    then show "(d, d') \<in> (pass_rel dis es)\<^sup>*" by (rule rtrancl_mono [THEN subsetD, rotated]) auto
  next
    assume "(d, d') \<in> (pass_rel dis es)\<^sup>*"
    from rtrancl_avoid_start [OF this]
    show "(d, d') \<in> {(a, b) \<in> pass_rel dis es. b \<notin> {d}}\<^sup>*" by simp
  qed
  then show ?thesis by (simp only: enabled_targets_beyond_iff)
qed

lemma passed_edges_subset: "set (passed_edges es i) \<subseteq> {e \<in> set es. esrc e = i}"
  by (auto simp: passed_edges_def Let_def)

lemma keep_fold_set: "set (foldl keep acc xs) \<subseteq> set acc \<union> set xs"
  by (induction xs arbitrary: acc) (fastforce simp: keep_def split: if_splits)+

lemma keep_fold_wires: "wire ` set (foldl keep acc xs) = wire ` set acc \<union> wire ` set xs"
  by (induction xs arbitrary: acc) (auto simp: keep_def)

lemma keep_fold_distinct: "distinct (map wire acc) \<Longrightarrow> distinct (map wire (foldl keep acc xs))"
  by (induction xs arbitrary: acc) (auto simp: keep_def)

lemma foldl_keep_concat:
  "foldl (\<lambda>acc e. foldl keep acc (f e)) acc es = foldl keep acc (concat (map f es))"
  by (induction es arbitrary: acc) auto

lemma resolve_disabled_edges:
  assumes "resolve_disabled_steps ns es = (ns', es')" and "disabled_ids ns \<noteq> []"
  shows "ns' = without_ids (set (disabled_ids ns)) ns"
    and "es' = foldl keep [] (concat (map (rewired (disabled_ids ns) es) es))"
  using assms by (auto simp: resolve_disabled_steps_def Let_def foldl_keep_concat)

lemma wire_ends: "wire e = wire e' \<Longrightarrow> esrc e = esrc e' \<and> etgt e = etgt e'"
  by (simp add: wire_def)

text \<open>The dependencies after bypassing: the edges between enabled steps, and for every edge
  into a disabled chain one edge to each step the chain passes control to.\<close>

lemma bypass_ends [simp]:
  "esrc (bypass_edge e far) = esrc e" "etgt (bypass_edge e far) = fst far"
  by (simp_all add: bypass_edge_def or_empty_def)

lemma graph_rel_wires:
  assumes "wire ` set es = wire ` set es'"
  shows "graph_rel ns es = graph_rel ns es'"
proof -
  have "\<exists>e' \<in> set b. esrc e' = esrc e \<and> etgt e' = etgt e"
    if "wire ` set a = wire ` set b" "e \<in> set a" for a b e
  proof -
    from that have "wire e \<in> wire ` set b" by blast
    then show ?thesis by (auto simp: wire_def)
  qed
  from this [OF assms] this [OF assms [symmetric]] show ?thesis
    unfolding graph_rel_def by (auto; metis)
qed

lemma disabled_rel:
  assumes res: "resolve_disabled_steps ns es = (ns', es')" and ok: "canvas_ok ns"
    and D: "D = set (disabled_ids ns)" and r: "r = graph_rel ns es"
  shows "graph_rel ns' es' = {(u, v). u \<notin> D \<and> v \<notin> D \<and> ((u, v) \<in> r \<or>
    (u \<in> set (node_ids ns) \<and> v \<in> set (node_ids ns) \<and> (\<exists>d \<in> D. (u, d) \<in> r \<and>
       (\<exists>d' h. (d, d') \<in> (pass_rel (disabled_ids ns) es)\<^sup>* \<and> (v, h) \<in> pass_exits (disabled_ids ns) es d'))))}"
proof (cases "disabled_ids ns = []")
  case True
  with res show ?thesis by (auto simp: resolve_disabled_steps_def D r)
next
  case False
  let ?dis = "disabled_ids ns"
  note eqs = resolve_disabled_edges [OF res False]
  have D_ids: "D \<subseteq> set (node_ids ns)" unfolding D by (rule ids_where_subset)
  have wires: "wire ` set es' = wire ` set (concat (map (rewired ?dis es) es))"
    unfolding eqs(2) keep_fold_wires by simp
  have "graph_rel ns' es' = graph_rel ns' (concat (map (rewired ?dis es) es))"
    by (rule graph_rel_wires [OF wires])
  also have "\<dots> = {(esrc x, etgt x) | x e. e \<in> set es \<and> x \<in> set (rewired ?dis es e)
      \<and> esrc x \<in> set (node_ids ns) - D \<and> etgt x \<in> set (node_ids ns) - D}"
    by (auto simp: graph_rel_def eqs(1) D)
  also have "\<dots> = {(u, v). u \<notin> D \<and> v \<notin> D \<and> ((u, v) \<in> r \<or>
    (u \<in> set (node_ids ns) \<and> v \<in> set (node_ids ns) \<and> (\<exists>d \<in> D. (u, d) \<in> r \<and>
       (\<exists>h. (v, h) \<in> set (enabled_targets_beyond ?dis es d {d})))))}"
    (is "?L = ?R")
  proof (intro set_eqI iffI)
    fix p assume "p \<in> ?L"
    then obtain x e where x: "p = (esrc x, etgt x)" "e \<in> set es" "x \<in> set (rewired ?dis es e)"
      "esrc x \<in> set (node_ids ns) - D" "etgt x \<in> set (node_ids ns) - D" by blast
    from x(3) consider "x = e" | far where "etgt e \<in> D" "x = bypass_edge e far"
        "far \<in> set (enabled_targets_beyond ?dis es (etgt e) {etgt e})"
      by (auto simp: rewired_def D split: if_splits)
    then show "p \<in> ?R"
    proof cases
      case 1
      with x show ?thesis by (auto simp: r intro: graph_relI)
    next
      case 2
      then have "(esrc e, etgt e) \<in> r" using x D_ids by (auto simp: r intro!: graph_relI)
      moreover obtain v h where "far = (v, h)" by (cases far)
      ultimately show ?thesis using x 2 by auto
    qed
  next
    fix p assume "p \<in> ?R"
    then obtain u v where p: "p = (u, v)" "u \<notin> D" "v \<notin> D" and alt: "(u, v) \<in> r \<or>
      (u \<in> set (node_ids ns) \<and> v \<in> set (node_ids ns) \<and> (\<exists>d \<in> D. (u, d) \<in> r \<and>
         (\<exists>h. (v, h) \<in> set (enabled_targets_beyond ?dis es d {d}))))" by blast
    from alt show "p \<in> ?L"
    proof
      assume "(u, v) \<in> r"
      then obtain e where e: "e \<in> set es" "u = esrc e" "v = etgt e"
        "u \<in> set (node_ids ns)" "v \<in> set (node_ids ns)" unfolding r by (rule graph_relE)
      with p have "e \<in> set (rewired ?dis es e)" by (simp add: rewired_def D)
      with e p show ?thesis by blast
    next
      assume "u \<in> set (node_ids ns) \<and> v \<in> set (node_ids ns) \<and> (\<exists>d \<in> D. (u, d) \<in> r \<and>
         (\<exists>h. (v, h) \<in> set (enabled_targets_beyond ?dis es d {d})))"
      then obtain d h where d: "u \<in> set (node_ids ns)" "v \<in> set (node_ids ns)" "d \<in> D"
        "(u, d) \<in> r" "(v, h) \<in> set (enabled_targets_beyond ?dis es d {d})" by blast
      from d(4) obtain e where e: "e \<in> set es" "u = esrc e" "d = etgt e"
        unfolding r by (rule graph_relE)
      with p d have "bypass_edge e (v, h) \<in> set (rewired ?dis es e)"
        by (auto simp: rewired_def D)
      moreover have "p = (esrc (bypass_edge e (v, h)), etgt (bypass_edge e (v, h)))"
        using e p by simp
      moreover have "esrc (bypass_edge e (v, h)) \<in> set (node_ids ns) - D"
        "etgt (bypass_edge e (v, h)) \<in> set (node_ids ns) - D"
        using e p d by simp_all
      ultimately show ?thesis using e(1) by blast
    qed
  qed
  finally show ?thesis
    unfolding enabled_targets_beyond_start by (auto; blast)
qed

text \<open>Every bypassing edge follows a path of the canvas.\<close>

lemma pass_rel_canvas:
  assumes "(d, d') \<in> (pass_rel (disabled_ids ns) es)\<^sup>*" and "d \<in> set (disabled_ids ns)"
  shows "(d, d') \<in> (graph_rel ns es)\<^sup>* \<and> d' \<in> set (disabled_ids ns)"
  using assms
proof (induction rule: rtrancl_induct)
  case (step x y)
  from step.hyps(2) obtain e where "e \<in> set (passed_edges es x)" "y = etgt e"
    "y \<in> set (disabled_ids ns)" by (auto simp: pass_rel_def)
  moreover from this have "e \<in> set es" "x = esrc e" using passed_edges_subset by blast+
  ultimately have "(x, y) \<in> graph_rel ns es"
    using graph_relI [of e es ns] ids_where_subset [of is_author_disabled ns] step by auto
  with step \<open>y \<in> set (disabled_ids ns)\<close> show ?case by (auto intro: rtrancl_into_rtrancl)
qed simp

lemma disabled_rel_canvas:
  assumes res: "resolve_disabled_steps ns es = (ns', es')" and ok: "canvas_ok ns"
  shows "graph_rel ns' es' \<subseteq> (graph_rel ns es)\<^sup>+"
proof (rule subrelI)
  fix u v assume "(u, v) \<in> graph_rel ns' es'"
  then consider "(u, v) \<in> graph_rel ns es" | d d' h where
      "v \<in> set (node_ids ns)" "d \<in> set (disabled_ids ns)" "(u, d) \<in> graph_rel ns es"
      "(d, d') \<in> (pass_rel (disabled_ids ns) es)\<^sup>*" "(v, h) \<in> pass_exits (disabled_ids ns) es d'"
    unfolding disabled_rel [OF res ok refl refl] by blast
  then show "(u, v) \<in> (graph_rel ns es)\<^sup>+"
  proof cases
    case 2
    from 2(5) obtain e where "e \<in> set (passed_edges es d')" "v = etgt e"
      by (auto simp: pass_exits_def)
    moreover from this have "e \<in> set es" "d' = esrc e" using passed_edges_subset by blast+
    ultimately have "(d', v) \<in> graph_rel ns es"
      using graph_relI [of e es ns] ids_where_subset [of is_author_disabled ns] 2
        pass_rel_canvas [OF 2(4) 2(2)] by auto
    then show ?thesis using pass_rel_canvas [OF 2(4) 2(2)] 2(3)
      by (meson rtrancl_into_trancl2 trancl_into_trancl rtrancl_trancl_trancl r_into_trancl)
  qed blast
qed

lemma disabled_nodes:
  assumes "resolve_disabled_steps ns es = (ns', es')"
  shows "ns' = without_ids (set (disabled_ids ns)) ns"
  using assms by (cases "disabled_ids ns = []") (auto simp: resolve_disabled_steps_def Let_def)

section \<open>Truncating below stop-here\<close>

abbreviation stop_ids :: "canvas_node list \<Rightarrow> string list" where
  "stop_ids ns \<equiv> ids_where (\<lambda>n. node_kind n = Some ''stop-here'') ns"

abbreviation below_stop :: "canvas_node list \<Rightarrow> canvas_edge list \<Rightarrow> string set" where
  "below_stop ns es \<equiv> {v. \<exists>s \<in> set (stop_ids ns). (s, v) \<in> (graph_rel ns es)\<^sup>+}"

lemma resolve_stop_here_eq:
  "resolve_stop_here ns es =
     (without_ids (below_stop ns es) ns,
      filter (\<lambda>e. esrc e \<notin> below_stop ns es \<and> etgt e \<notin> below_stop ns es) es)"
proof (cases "stop_ids ns = []")
  case True
  then show ?thesis by (simp add: resolve_stop_here_def)
next
  case False
  have "\<Union> (set (map (\<lambda>s. downstream_node_ids s ns es) (stop_ids ns))) = below_stop ns es"
    by (auto simp: downstream_reachable)
  with False show ?thesis by (simp add: resolve_stop_here_def Let_def)
qed

lemma stop_rel:
  assumes "resolve_stop_here ns es = (ns', es')"
  shows "graph_rel ns' es' =
    {(u, v) \<in> graph_rel ns es. u \<notin> below_stop ns es \<and> v \<notin> below_stop ns es}"
  using assms unfolding resolve_stop_here_eq by (auto simp: graph_rel_def)

lemma stop_nodes:
  "resolve_stop_here ns es = (ns', es') \<Longrightarrow> ns' = without_ids (below_stop ns es) ns"
  by (simp add: resolve_stop_here_eq)

lemma stop_ancestors:
  assumes "(u, v) \<in> (graph_rel ns es)\<^sup>*" and "v \<notin> below_stop ns es"
  shows "u \<notin> below_stop ns es"
  using assms by (auto intro: trancl_rtrancl_trancl)

section \<open>When funnel resolution succeeds\<close>

lemma funnel_fold_total:
  "\<exists>r. res_fold (funnel_outgoing fids es) acc fs = r \<and>
     (case r of Inl x \<Rightarrow> is_value_error x \<and> \<not> (\<forall>f \<in> set fs.
          length (filter (\<lambda>e. edge_source e = Some f) es) = 1 \<and> etgt (funnel_exit es f) \<notin> set fids)
      | Inr out \<Rightarrow> (\<forall>f \<in> set fs.
          length (filter (\<lambda>e. edge_source e = Some f) es) = 1 \<and> etgt (funnel_exit es f) \<notin> set fids))"
proof (induction fs arbitrary: acc)
  case (Cons f fs)
  consider out where "filter (\<lambda>e. edge_source e = Some f) es = [out]" "etgt out \<notin> set fids"
    | out where "filter (\<lambda>e. edge_source e = Some f) es = [out]" "etgt out \<in> set fids"
    | "length (filter (\<lambda>e. edge_source e = Some f) es) \<noteq> 1"
    by (cases "filter (\<lambda>e. edge_source e = Some f) es" rule: remdups_adj.cases) auto
  then show ?case
  proof cases
    case 1
    then have "funnel_outgoing fids es acc f = Inr (AList.update f out acc)"
      by (simp add: funnel_outgoing_def)
    with 1 Cons.IH [of "AList.update f out acc"] show ?thesis
      by (auto simp: funnel_exit_def split: sum.splits)
  next
    case 2
    then show ?thesis by (auto simp: funnel_outgoing_def funnel_exit_def)
  next
    case 3
    then have "\<exists>m. funnel_outgoing fids es acc f = Inl (ValueError m)"
      by (cases "filter (\<lambda>e. edge_source e = Some f) es" rule: remdups_adj.cases)
        (auto simp: funnel_outgoing_def)
    with 3 show ?thesis by auto
  qed
qed simp

lemma resolve_funnels_total:
  "case resolve_funnels ns es of
     Inl x \<Rightarrow> is_value_error x \<and> \<not> funnels_ok (funnel_ids ns) es
   | Inr _ \<Rightarrow> funnels_ok (funnel_ids ns) es"
proof (cases "resolve_funnels ns es")
  case (Inr r)
  then show ?thesis using resolve_funnels_Inr by (cases r) auto
next
  case (Inl x)
  then have ne: "funnel_ids ns \<noteq> []" by (auto simp: resolve_funnels_def)
  show ?thesis
  proof (cases "res_fold (funnel_outgoing (funnel_ids ns) es) [] (funnel_ids ns)")
    case err: (Inl y)
    with Inl ne have "y = x" by (auto simp: resolve_funnels_def Let_def)
    with err Inl funnel_fold_total [of "funnel_ids ns" es "[]" "funnel_ids ns"] show ?thesis
      by (auto simp: funnels_ok_def)
  next
    case out: (Inr outgoing)
    have "\<forall>e \<in> set (filter (\<lambda>e. etgt e \<in> set (funnel_ids ns)) es). map_of outgoing (etgt e) \<noteq> None"
      using funnel_fold_Inr [OF out] by auto
    from funnel_edges_Inr [OF this] out Inl ne show ?thesis
      by (auto simp: resolve_funnels_def Let_def)
  qed
qed

section \<open>Properties of the resolution passes\<close>

text \<open>C7. Funnel resolution fails only with a \<open>ValueError\<close>, and exactly when some funnel has not
  one outgoing edge or feeds another funnel; otherwise all funnels are gone and reachability
  between the remaining steps is unchanged.\<close>

theorem resolve_funnels_correct:
  "case resolve_funnels ns es of
     Inl x \<Rightarrow> is_value_error x \<and> \<not> funnels_ok (funnel_ids ns) es
   | Inr (ns', es') \<Rightarrow> funnels_ok (funnel_ids ns) es
       \<and> set (node_ids ns') = set (node_ids ns) - set (funnel_ids ns)
       \<and> (canvas_ok ns \<longrightarrow> (\<forall>u v. u \<notin> set (funnel_ids ns) \<and> v \<notin> set (funnel_ids ns) \<longrightarrow>
            ((u, v) \<in> (graph_rel ns' es')\<^sup>+ \<longleftrightarrow> (u, v) \<in> (graph_rel ns es)\<^sup>+)))"
proof (cases "resolve_funnels ns es")
  case (Inl x)
  with resolve_funnels_total [of ns es] show ?thesis by simp
next
  case (Inr r)
  obtain ns' es' where r: "r = (ns', es')" by (cases r)
  note res = Inr [unfolded r]
  show ?thesis using resolve_funnels_Inr [OF res] funnel_reachability [OF res]
    by (auto simp: res)
qed

definition funnel_canvas :: "canvas_node list" where
  "funnel_canvas = [mk_node ''a'' ''step'', mk_node ''f'' ''funnel'', mk_node ''b'' ''step'']"

definition funnel_canvas_edges :: "canvas_edge list" where
  "funnel_canvas_edges = [mk_edge ''a'' ''f'', mk_edge ''f'' ''b'']"

theorem resolve_funnels_correct_witness:
  "\<exists>ns' es'. resolve_funnels funnel_canvas funnel_canvas_edges = Inr (ns', es')
    \<and> canvas_ok funnel_canvas
    \<and> ((''a'', ''b'') \<in> (graph_rel ns' es')\<^sup>+ \<longleftrightarrow>
       (''a'', ''b'') \<in> (graph_rel funnel_canvas funnel_canvas_edges)\<^sup>+)"
proof -
  have ok: "canvas_ok funnel_canvas" "''a'' \<notin> set (funnel_ids funnel_canvas)"
    "''b'' \<notin> set (funnel_ids funnel_canvas)" by code_simp+
  have "\<not> isl (resolve_funnels funnel_canvas funnel_canvas_edges)" by code_simp
  then obtain ns' es' where
    res: "resolve_funnels funnel_canvas funnel_canvas_edges = Inr (ns', es')"
    by (cases "resolve_funnels funnel_canvas funnel_canvas_edges") auto
  with resolve_funnels_correct [of funnel_canvas funnel_canvas_edges] ok show ?thesis by auto
qed

text \<open>C8. Bypassing the author-disabled steps leaves exactly these dependencies: those between
  enabled steps, and for each edge into a disabled step the enabled steps its chain of disabled
  steps passes control to (a lone outgoing edge, or only the success branch of several). No
  edge is duplicated.\<close>

theorem resolve_disabled_steps_dependencies:
  assumes "resolve_disabled_steps ns es = (ns', es')" and "canvas_ok ns"
  shows "set (node_ids ns') = set (node_ids ns) - set (disabled_ids ns)
    \<and> (disabled_ids ns \<noteq> [] \<longrightarrow> distinct (map wire es'))
    \<and> ((u, v) \<in> graph_rel ns' es' \<longleftrightarrow>
        u \<notin> set (disabled_ids ns) \<and> v \<notin> set (disabled_ids ns) \<and>
        ((u, v) \<in> graph_rel ns es \<or>
         u \<in> set (node_ids ns) \<and> v \<in> set (node_ids ns) \<and>
         (\<exists>d \<in> set (disabled_ids ns). (u, d) \<in> graph_rel ns es \<and>
            (\<exists>d' h. (d, d') \<in> (pass_rel (disabled_ids ns) es)\<^sup>*
               \<and> (v, h) \<in> pass_exits (disabled_ids ns) es d'))))"
  using disabled_nodes [OF assms(1)] resolve_disabled_edges [OF assms(1)]
    disabled_rel [OF assms refl refl] keep_fold_distinct [of "[]"]
  by simp

definition bypass_canvas :: "canvas_node list" where
  "bypass_canvas = [mk_node ''a'' ''step'',
     mk_node ''x'' ''step''\<lparr>node_data := node_data (mk_node ''x'' ''step'')\<lparr>data_disabled := True\<rparr>\<rparr>,
     mk_node ''b'' ''step'']"

definition bypass_canvas_edges :: "canvas_edge list" where
  "bypass_canvas_edges = [mk_edge ''a'' ''x'', mk_edge ''x'' ''b'']"

theorem resolve_disabled_steps_dependencies_witness:
  "\<exists>ns' es'. resolve_disabled_steps bypass_canvas bypass_canvas_edges = (ns', es')
    \<and> canvas_ok bypass_canvas \<and> disabled_ids bypass_canvas = [''x'']
    \<and> distinct (map wire es') \<and> set (node_ids ns') = {''a'', ''b''}"
proof -
  obtain ns' es' where
    res: "resolve_disabled_steps bypass_canvas bypass_canvas_edges = (ns', es')" by fastforce
  have ok: "canvas_ok bypass_canvas" by code_simp
  have dis: "disabled_ids bypass_canvas = [''x'']" by code_simp
  have "set (node_ids bypass_canvas) - set (disabled_ids bypass_canvas) = {''a'', ''b''}"
    by code_simp
  with resolve_disabled_steps_dependencies [OF res ok] res ok dis show ?thesis by auto
qed

text \<open>Stop-here truncation removes exactly the steps strictly below a stop-here node, keeps
  every ancestor of a kept step with all edges between kept steps, and leaves no edge out of a
  stop-here node.\<close>

lemma resolve_stop_here_correct:
  assumes "resolve_stop_here ns es = (ns', es')"
  shows "set (node_ids ns') = {v \<in> set (node_ids ns).
           \<not> (\<exists>s \<in> set (stop_ids ns). (s, v) \<in> (graph_rel ns es)\<^sup>+)}
    \<and> (\<forall>u v. (u, v) \<in> graph_rel ns es \<and> v \<in> set (node_ids ns') \<longrightarrow>
         u \<in> set (node_ids ns') \<and> (u, v) \<in> graph_rel ns' es')
    \<and> (\<forall>s \<in> set (stop_ids ns). \<forall>v. (s, v) \<notin> graph_rel ns' es')"
proof -
  have ids: "set (node_ids ns') = set (node_ids ns) - below_stop ns es"
    using assms unfolding resolve_stop_here_eq by auto
  have "u \<in> set (node_ids ns') \<and> (u, v) \<in> graph_rel ns' es'"
    if "(u, v) \<in> graph_rel ns es" "v \<in> set (node_ids ns')" for u v
  proof -
    from that ids have v: "v \<notin> below_stop ns es" by blast
    with stop_ancestors [of u v] that have "u \<notin> below_stop ns es" by blast
    with v that show ?thesis
      unfolding stop_rel [OF assms] ids using graph_rel_subset [of ns es] by auto
  qed
  moreover have "(s, v) \<notin> graph_rel ns' es'" if "s \<in> set (stop_ids ns)" for s v
    unfolding stop_rel [OF assms] using that by blast
  ultimately show ?thesis using ids by auto
qed

definition stop_canvas :: "canvas_node list" where
  "stop_canvas = [mk_node ''a'' ''step'', mk_node ''s'' ''stop-here'', mk_node ''b'' ''step'']"

definition stop_canvas_edges :: "canvas_edge list" where
  "stop_canvas_edges = [mk_edge ''a'' ''s'', mk_edge ''s'' ''b'']"

section \<open>The loaded graph\<close>

lemma node_by_id:
  "n \<in> set (without_ids X ns) \<Longrightarrow> node_id n = Some i \<Longrightarrow> i \<notin> X"
  by (auto simp: without_ids_def)

lemma id_where: "n \<in> set ns \<Longrightarrow> p n \<Longrightarrow> node_id n = Some i \<Longrightarrow> i \<in> set (ids_where p ns)"
  by (auto simp: set_ids_where)

lemma trancl_within: "r' \<subseteq> r\<^sup>+ \<Longrightarrow> r'\<^sup>+ \<subseteq> r\<^sup>+"
  using trancl_mono_subset [of r' "r\<^sup>+"] by simp

lemma acyclic_via: "acyclic r \<Longrightarrow> r' \<subseteq> r\<^sup>+ \<Longrightarrow> acyclic r'"
  using trancl_within [of r' r] unfolding acyclic_def by blast

lemma Collect_case_prod_subset: "{(u, v) \<in> r. P u v} \<subseteq> r"
  by auto

lemma filter_executable_rel:
  assumes "filter_executable_graph registry ns es = (ns', es')"
  shows "graph_rel ns' es' = {(u, v) \<in> graph_rel ns es.
    u \<in> set (node_ids ns') \<and> v \<in> set (node_ids ns')}"
proof -
  from assms have ns': "ns' = filter (is_executable_node registry) ns"
    and es': "es' = filter (\<lambda>e. esrc e \<in> set (node_ids ns') \<and> etgt e \<in> set (node_ids ns')) es"
    by (auto simp: filter_executable_graph_def Let_def)
  have "set (node_ids ns') \<subseteq> set (node_ids ns)" by (auto simp: ns' set_node_ids)
  then show ?thesis by (subst es') (auto simp: graph_rel_def)
qed

lemma load_execution_graph_InrE:
  assumes "load_execution_graph ns es = Inr (ns', es')"
  obtains ns1 es1 ns2 es2 where "resolve_funnels ns es = Inr (ns1, es1)"
    "resolve_disabled_steps ns1 es1 = (ns2, es2)" "resolve_stop_here ns2 es2 = (ns', es')"
proof (cases "resolve_funnels ns es")
  case (Inr r)
  obtain ns1 es1 where r: "r = (ns1, es1)" by (cases r)
  obtain ns2 es2 where d: "resolve_disabled_steps ns1 es1 = (ns2, es2)" by fastforce
  from assms Inr r d that show thesis by (simp add: load_execution_graph_def)
qed (use assms in \<open>simp add: load_execution_graph_def\<close>)

lemma load_execution_graph_rel:
  assumes load: "load_execution_graph ns es = Inr (ns', es')" and ok: "canvas_ok ns"
  shows "graph_rel ns' es' \<subseteq> (graph_rel ns es)\<^sup>+"
proof -
  from load obtain ns1 es1 ns2 es2 where funnel: "resolve_funnels ns es = Inr (ns1, es1)"
    and dis: "resolve_disabled_steps ns1 es1 = (ns2, es2)"
    and stop: "resolve_stop_here ns2 es2 = (ns', es')" by (rule load_execution_graph_InrE)
  have "canvas_ok ns1" using resolve_funnels_Inr [OF funnel] ok by simp
  from disabled_rel_canvas [OF dis this] have "graph_rel ns2 es2 \<subseteq> (graph_rel ns1 es1)\<^sup>+" .
  moreover have "graph_rel ns1 es1 \<subseteq> (graph_rel ns es)\<^sup>+"
  proof (rule subrelI)
    fix u v assume "(u, v) \<in> graph_rel ns1 es1"
    then consider "(u, v) \<in> graph_rel ns es"
      | f where "(u, f) \<in> graph_rel ns es" "(f, v) \<in> graph_rel ns es"
      unfolding funnel_rel [OF funnel ok refl refl] by blast
    then show "(u, v) \<in> (graph_rel ns es)\<^sup>+" by cases (blast, blast intro: trancl_into_trancl)
  qed
  then have "(graph_rel ns1 es1)\<^sup>+ \<subseteq> (graph_rel ns es)\<^sup>+"
    by (rule trancl_within)
  moreover have "graph_rel ns' es' \<subseteq> graph_rel ns2 es2"
    unfolding stop_rel [OF stop] by (rule Collect_case_prod_subset)
  ultimately show ?thesis by (meson subset_trans)
qed

lemma load_execution_graph_nodes:
  assumes load: "load_execution_graph ns es = Inr (ns', es')"
    and n: "n \<in> set ns'" "node_id n = Some i"
  shows "n \<in> set ns \<and> node_kind n \<noteq> Some ''funnel'' \<and> \<not> is_author_disabled n"
proof -
  from load obtain ns1 es1 ns2 es2 where funnel: "resolve_funnels ns es = Inr (ns1, es1)"
    and dis: "resolve_disabled_steps ns1 es1 = (ns2, es2)"
    and stop: "resolve_stop_here ns2 es2 = (ns', es')" by (rule load_execution_graph_InrE)
  have ns1: "ns1 = without_ids (set (funnel_ids ns)) ns" using resolve_funnels_Inr [OF funnel] by simp
  note ns2 = disabled_nodes [OF dis]
  have n2: "n \<in> set ns2" by (rule subsetD [OF set_without_ids n(1) [unfolded stop_nodes [OF stop]]])
  have n1: "n \<in> set ns1" by (rule subsetD [OF set_without_ids n2 [unfolded ns2]])
  have n0: "n \<in> set ns" by (rule subsetD [OF set_without_ids n1 [unfolded ns1]])
  have "node_kind n \<noteq> Some ''funnel''"
    using node_by_id [OF n1 [unfolded ns1] n(2)]
      id_where [OF n0 _ n(2), of "\<lambda>n. node_kind n = Some ''funnel''"] by blast
  moreover have "\<not> is_author_disabled n"
    using node_by_id [OF n2 [unfolded ns2] n(2)] id_where [OF n1 _ n(2), of is_author_disabled] by blast
  ultimately show ?thesis using n0 by blast
qed

text \<open>C10. An acyclic canvas whose funnels are well formed can always be executed: after all
  resolution passes the plan exists, it contains no funnel and no disabled step, and whenever it
  orders two steps the canvas has a path between them.\<close>

theorem load_execution_graph_schedulable:
  assumes "canvas_ok ns" and "acyclic (graph_rel ns es)" and "funnels_ok (funnel_ids ns) es"
  shows "\<exists>ns' es' os. load_execution_graph ns es = Inr (ns', es')
    \<and> topological_sort registry ns' es' = Inr os
    \<and> graph_rel ns' es' \<subseteq> (graph_rel ns es)\<^sup>+
    \<and> (\<forall>n \<in> set os. n \<in> set ns \<and> node_kind n \<noteq> Some ''funnel'' \<and> \<not> is_author_disabled n
         \<and> is_executable_node registry n)"
proof -
  from resolve_funnels_total [of ns es] assms(3) obtain g where "resolve_funnels ns es = Inr g"
    by (cases "resolve_funnels ns es") auto
  then obtain ns' es' where load: "load_execution_graph ns es = Inr (ns', es')"
    by (cases g; cases "resolve_disabled_steps (fst g) (snd g)";
        cases "resolve_stop_here (fst (resolve_disabled_steps (fst g) (snd g)))
          (snd (resolve_disabled_steps (fst g) (snd g)))") (auto simp: load_execution_graph_def)
  have rel: "graph_rel ns' es' \<subseteq> (graph_rel ns es)\<^sup>+"
    by (rule load_execution_graph_rel [OF load assms(1)])
  obtain xs xe where x: "filter_executable_graph registry ns' es' = (xs, xe)" by fastforce
  have "graph_rel xs xe \<subseteq> (graph_rel ns es)\<^sup>+" unfolding filter_executable_rel [OF x] using rel by blast
  then have "acyclic (graph_rel xs xe)" by (rule acyclic_via [OF assms(2)])
  then obtain os where os: "topological_order xs xe = Inr os"
    using topological_order_acyclic [of xs xe] by blast
  have nodes: "n \<in> set xs \<and> node_id n \<noteq> None" if "n \<in> set os" for n
    using topological_order_InrD(1,5) [OF os] that by blast
  have xs: "n \<in> set ns' \<and> is_executable_node registry n" if "n \<in> set xs" for n
    using x that by (auto simp: filter_executable_graph_def Let_def)
  have "topological_sort registry ns' es' = Inr os" by (simp add: topological_sort_def x os)
  moreover have "n \<in> set ns \<and> node_kind n \<noteq> Some ''funnel'' \<and> \<not> is_author_disabled n
      \<and> is_executable_node registry n" if "n \<in> set os" for n
  proof -
    from nodes [OF that] obtain i where "n \<in> set xs" "node_id n = Some i" by auto
    with xs [of n] load_execution_graph_nodes [OF load, of n i] show ?thesis by blast
  qed
  ultimately show ?thesis using load rel by blast
qed


theorem load_execution_graph_schedulable_witness:
  "\<exists>ns' es' os. load_execution_graph funnel_canvas funnel_canvas_edges = Inr (ns', es')
    \<and> topological_sort (\<lambda>_. None) ns' es' = Inr os"
proof -
  have "canvas_ok funnel_canvas" by code_simp
  moreover have "funnels_ok (funnel_ids funnel_canvas) funnel_canvas_edges" by code_simp
  moreover have "\<not> isl (topological_order funnel_canvas funnel_canvas_edges)" by code_simp
  then have "\<exists>os. topological_order funnel_canvas funnel_canvas_edges = Inr os"
    by (cases "topological_order funnel_canvas funnel_canvas_edges") auto
  then have "acyclic (graph_rel funnel_canvas funnel_canvas_edges)"
    by (simp only: topological_order_acyclic)
  ultimately show ?thesis using load_execution_graph_schedulable by blast
qed

end
