(* ===== verification/Fan_Out_Topology.thy ===== *)
theory Fan_Out_Topology
  imports Graph_Resolution
begin

text \<open>
  \<open>services/execution/fan_out_topology.py\<close>: the save-time check of the fan-out rules R1-R3.
  The validator resolves the canvas the way the engine does, orders it, and reports the steps
  that a fanned-out run would skip or feed with the wrong input.
\<close>

datatype fan_out_rule = R1 | R2 | R3

record fan_out_violation =
  violation_rule :: fan_out_rule
  violation_node :: string

definition CANVAS_ONLY_KINDS :: "string set" where
  "CANVAS_ONLY_KINDS = {''label'', ''background'', ''funnel'', ''step-group''}"

definition is_canvas_only :: "canvas_node \<Rightarrow> bool" where
  "is_canvas_only n = (case node_kind n of None \<Rightarrow> False | Some k \<Rightarrow> k \<in> CANVAS_ONLY_KINDS)"

text \<open>\<open>pluginConfig.fan_out.enabled\<close>, where a value that is not an object counts as off.\<close>

definition fan_out_enabled :: "canvas_node \<Rightarrow> bool" where
  "fan_out_enabled n =
     (case map_of (data_plugin_config (node_data n)) ''fan_out'' of
        Some (JObj d) \<Rightarrow> (case map_of d ''enabled'' of None \<Rightarrow> False | Some v \<Rightarrow> truthy v)
      | _ \<Rightarrow> False)"

definition enabled_fan_out_ids :: "canvas_node list \<Rightarrow> string list" where
  "enabled_fan_out_ids ns = node_ids (filter fan_out_enabled ns)"

text \<open>The \<open>try\<close> block: resolve, drop decorations, order.\<close>

definition walked_graph :: "canvas_node list \<Rightarrow> canvas_edge list \<Rightarrow>
    (canvas_node list \<times> canvas_edge list \<times> canvas_node list) res" where
  "walked_graph nodes edges =
     res_bind (load_execution_graph nodes edges)
       (\<lambda>(ns, es).
          let executable = filter (\<lambda>n. \<not> is_canvas_only n) ns;
              ids = set (node_ids executable);
              es' = filter (\<lambda>e. edge_source e \<in> Some ` ids \<and> edge_target e \<in> Some ` ids) es
          in res_bind (topological_order executable es') (\<lambda>ordered. Inr (executable, es', ordered)))"

text \<open>\<open>{n["id"]: d for d, wave in enumerate(...) for n in wave}\<close>\<close>

definition depth_table :: "canvas_node list list \<Rightarrow> (string, nat) dict" where
  "depth_table gens =
     dict_of (concat (map (\<lambda>(d, w). map (\<lambda>n. (nid n, d)) w) (List.enumerate 0 gens)))"

text \<open>\<open>min(xs, key=lambda x: depth[x])\<close>: the first minimal element; an unknown id is a
  \<open>KeyError\<close>.\<close>

fun min_by_depth :: "(string, nat) dict \<Rightarrow> string \<Rightarrow> string list \<Rightarrow> string res" where
  "min_by_depth depth best [] = Inr best"
| "min_by_depth depth best (x # xs) =
     (case (map_of depth best, map_of depth x) of
        (Some b, Some d) \<Rightarrow> min_by_depth depth (if d < b then x else best) xs
      | _ \<Rightarrow> Inl (KeyError x))"

definition r1_violation :: "(string, nat) dict \<Rightarrow> string \<Rightarrow> string \<Rightarrow> fan_out_violation list res" where
  "r1_violation depth inventory i =
     (case (map_of depth i, map_of depth inventory) of
        (Some d, Some d0) \<Rightarrow> Inr (if d0 < d then [\<lparr>violation_rule = R1, violation_node = i\<rparr>] else [])
      | _ \<Rightarrow> Inl (KeyError i))"

definition r2_violation :: "string set \<Rightarrow> string \<Rightarrow> canvas_edge \<Rightarrow> fan_out_violation list" where
  "r2_violation region inventory e =
     (if edge_target e \<in> Some ` region \<and> edge_source e \<notin> Some ` region
         \<and> edge_source e \<noteq> Some inventory
      then [\<lparr>violation_rule = R2, violation_node = etgt e\<rparr>] else [])"

definition fan_out_violations :: "canvas_node list \<Rightarrow> canvas_edge list \<Rightarrow> canvas_node list \<Rightarrow>
    string \<Rightarrow> string list \<Rightarrow> fan_out_violation list res" where
  "fan_out_violations executable es ordered x fan_out =
     res_bind (topological_generations ordered es) (\<lambda>gens.
       let depth = depth_table gens in
       res_bind (min_by_depth depth x fan_out) (\<lambda>inventory.
         let r3 = map (\<lambda>i. \<lparr>violation_rule = R3, violation_node = i\<rparr>)
                    (filter (\<lambda>i. i \<noteq> inventory) (x # fan_out));
             region = downstream_node_ids inventory executable es;
             outside = sort (remdups (filter (\<lambda>i. i \<notin> region \<and> i \<noteq> inventory) (node_ids executable)))
         in res_bind (res_fold (\<lambda>vs i. res_bind (r1_violation depth inventory i) (\<lambda>v. Inr (vs @ v)))
                        r3 outside)
              (\<lambda>vs. Inr (vs @ concat (map (r2_violation region inventory) es)))))"

definition validate_fan_out_topology ::
  "canvas_node list \<Rightarrow> canvas_edge list \<Rightarrow> fan_out_violation list res" where
  "validate_fan_out_topology nodes edges =
     (case walked_graph nodes edges of
        Inl err \<Rightarrow> (if is_value_error err then Inr [] else Inl err)
      | Inr (executable, es, ordered) \<Rightarrow>
          (case enabled_fan_out_ids executable of
             [] \<Rightarrow> Inr []
           | x # fan_out \<Rightarrow> fan_out_violations executable es ordered x fan_out))"


section \<open>The depth table\<close>

lemma dict_of_function:
  assumes "\<forall>(k, v) \<in> set kvs. v = f k" and "k \<in> fst ` set kvs"
  shows "map_of (dict_of kvs) k = Some (f k)"
  using assms
proof (induction kvs rule: rev_induct)
  case (snoc kv kvs)
  then show ?case by (cases kv) (auto simp: dict_of_snoc)
qed simp

text \<open>\<open>i\<close> runs in wave \<open>d\<close>.\<close>

definition wave_at :: "canvas_node list list \<Rightarrow> nat \<Rightarrow> string \<Rightarrow> bool" where
  "wave_at gens d i \<longleftrightarrow> d < length gens \<and> i \<in> nid ` set (gens ! d)"

lemma wave_at_plan:
  assumes "wave_plan r os gens dep"
  shows "wave_at gens d i \<longleftrightarrow> i \<in> nid ` set os \<and> dep i = d"
proof -
  from assms have gens: "gens = map (\<lambda>d. filter (\<lambda>n. dep (nid n) = d) os) [0..<length gens]"
    and small: "\<forall>n \<in> set os. dep (nid n) < length gens" by (simp_all add: wave_plan_def)
  have "gens ! d = filter (\<lambda>n. dep (nid n) = d) os" if "d < length gens" for d
    using that by (subst gens) simp
  with small show ?thesis by (auto simp: wave_at_def)
qed

lemma depth_table_entries:
  "(i, d) \<in> set (concat (map (\<lambda>(d, w). map (\<lambda>n. (nid n, d)) w) (List.enumerate 0 gens)))
    \<longleftrightarrow> wave_at gens d i"
  by (force simp: wave_at_def enumerate_eq_zip set_zip)

lemma depth_table_lookup:
  assumes "wave_plan r os gens dep" and "i \<in> nid ` set os"
  shows "map_of (depth_table gens) i = Some (dep i)"
  unfolding depth_table_def
proof (rule dict_of_function)
  let ?kvs = "concat (map (\<lambda>(d, w). map (\<lambda>n. (nid n, d)) w) (List.enumerate 0 gens))"
  show "\<forall>(k, v) \<in> set ?kvs. v = dep k"
  proof (intro ballI, clarify)
    fix k v assume "(k, v) \<in> set ?kvs"
    then have "wave_at gens v k" unfolding depth_table_entries .
    then show "v = dep k" unfolding wave_at_plan [OF assms(1)] by simp
  qed
  have "wave_at gens (dep i) i" using wave_at_plan [OF assms(1)] assms(2) by simp
  then have "(i, dep i) \<in> set ?kvs" unfolding depth_table_entries .
  then show "i \<in> fst ` set ?kvs" by force
qed

lemma min_by_depth_correct:
  assumes "\<forall>i \<in> set (x # xs). map_of depth i = Some (dep i)"
  shows "\<exists>m. min_by_depth depth x xs = Inr m \<and> m \<in> set (x # xs) \<and> (\<forall>y \<in> set (x # xs). dep m \<le> dep y)"
  using assms
proof (induction xs arbitrary: x)
  case (Cons y ys)
  let ?b = "if dep y < dep x then y else x"
  from Cons.prems have "\<forall>i \<in> set (?b # ys). map_of depth i = Some (dep i)" by auto
  from Cons.IH [OF this] obtain m where m: "min_by_depth depth ?b ys = Inr m" "m \<in> set (?b # ys)"
    "\<forall>z \<in> set (?b # ys). dep m \<le> dep z" by blast
  from m(3) have "dep m \<le> dep x \<and> dep m \<le> dep y" by (auto split: if_splits)
  with m Cons.prems show ?case by (auto split: if_splits)
qed simp

lemma r1_fold:
  assumes "\<forall>i \<in> insert i0 (set xs). map_of depth i = Some (dep i)"
  shows "res_fold (\<lambda>vs i. res_bind (r1_violation depth i0 i) (\<lambda>v. Inr (vs @ v))) acc xs =
    Inr (acc @ map (\<lambda>i. \<lparr>violation_rule = R1, violation_node = i\<rparr>) (filter (\<lambda>i. dep i0 < dep i) xs))"
  using assms by (induction xs arbitrary: acc) (auto simp: r1_violation_def)

section \<open>Soundness and completeness of the check\<close>

lemma walked_graph_errors: "walked_graph ns es = Inl err \<Longrightarrow> is_value_error err"
proof -
  assume err: "walked_graph ns es = Inl err"
  show ?thesis
  proof (cases "load_execution_graph ns es")
    case (Inl e)
    with err have "err = e" by (simp add: walked_graph_def)
    moreover from Inl have "resolve_funnels ns es = Inl e"
      by (cases "resolve_funnels ns es")
        (auto simp: load_execution_graph_def Let_def split: prod.splits)
    ultimately show ?thesis using resolve_funnels_total [of ns es] by simp
  next
    case (Inr g)
    with err obtain xs es' where "topological_order xs es' = Inl err"
      by (cases g) (auto simp: walked_graph_def Let_def res_bind_Inl_iff)
    then show ?thesis using topological_order_InlD by fastforce
  qed
qed

text \<open>The rules of the module header, for the graph the engine walks.\<close>

definition fan_out_rules :: "canvas_node list \<Rightarrow> canvas_edge list \<Rightarrow> canvas_node list list \<Rightarrow>
    string \<Rightarrow> bool" where
  "fan_out_rules xs es gens i0 \<longleftrightarrow>
     set (enabled_fan_out_ids xs) = {i0}
     \<and> (\<forall>u d d0. wave_at gens d u \<and> wave_at gens d0 i0 \<and> u \<noteq> i0
          \<and> (i0, u) \<notin> (graph_rel xs es)\<^sup>+ \<longrightarrow> d \<le> d0)
     \<and> (\<forall>u v. (u, v) \<in> graph_rel xs es \<and> (i0, v) \<in> (graph_rel xs es)\<^sup>+ \<longrightarrow>
          u = i0 \<or> (i0, u) \<in> (graph_rel xs es)\<^sup>+)"


lemma fan_out_violations_correct:
  assumes order: "topological_order xs es = Inr os"
    and edges: "\<forall>e \<in> set es. edge_source e \<in> Some ` set (node_ids xs)
      \<and> edge_target e \<in> Some ` set (node_ids xs)"
    and fo: "enabled_fan_out_ids xs = x # fo"
  shows "\<exists>gens vs. topological_generations os es = Inr gens
    \<and> fan_out_violations xs es os x fo = Inr vs \<and> (vs = [] \<longleftrightarrow> (\<exists>i. fan_out_rules xs es gens i))"
proof -
  note ord = topological_order_InrD [OF order]
  have rel: "graph_rel os es = graph_rel xs es" by (rule graph_rel_order [OF order])
  obtain gens dep where gens: "topological_generations os es = Inr gens"
    and plan: "wave_plan (graph_rel xs es) os gens dep"
    using topological_generations_plan [of os es] ord rel by auto
  let ?depth = "depth_table gens"
  have ids: "nid ` set os = set (node_ids xs)" using ord(3) by simp
  have look: "map_of ?depth i = Some (dep i)" if "i \<in> set (node_ids xs)" for i
    using depth_table_lookup [OF plan] that by (simp only: ids)
  have fo_ids: "set (x # fo) \<subseteq> set (node_ids xs)"
    using fo [symmetric] by (auto simp: enabled_fan_out_ids_def set_node_ids)
  then obtain i0 where i0: "min_by_depth ?depth x fo = Inr i0" "i0 \<in> set (x # fo)"
    "\<forall>y \<in> set (x # fo). dep i0 \<le> dep y"
    using min_by_depth_correct [of x fo ?depth dep] look by blast
  have i0_id: "i0 \<in> set (node_ids xs)" using i0(2) fo_ids by blast
  define region where "region = downstream_node_ids i0 xs es"
  have region: "v \<in> region \<longleftrightarrow> (i0, v) \<in> (graph_rel xs es)\<^sup>+" for v
    by (simp add: region_def downstream_reachable)
  let ?out = "sort (remdups (filter (\<lambda>i. i \<notin> region \<and> i \<noteq> i0) (node_ids xs)))"
  have outs: "set ?out = {i \<in> set (node_ids xs). i \<notin> region \<and> i \<noteq> i0}" by auto
  let ?r3 = "map (\<lambda>i. \<lparr>violation_rule = R3, violation_node = i\<rparr>) (filter (\<lambda>i. i \<noteq> i0) (x # fo))"
  let ?r1 = "map (\<lambda>i. \<lparr>violation_rule = R1, violation_node = i\<rparr>) (filter (\<lambda>i. dep i0 < dep i) ?out)"
  let ?r2 = "concat (map (r2_violation region i0) es)"
  have "\<forall>i \<in> insert i0 (set ?out). map_of ?depth i = Some (dep i)" using look i0_id outs by blast
  from r1_fold [OF this, of ?r3]
  have run: "fan_out_violations xs es os x fo = Inr (?r3 @ ?r1 @ ?r2)"
    by (simp add: fan_out_violations_def gens i0(1) Let_def region_def [symmetric])
  have r3: "?r3 = [] \<longleftrightarrow> set (x # fo) = {i0}" using i0(2) by (auto simp: filter_empty_conv)
  have r1: "?r1 = [] \<longleftrightarrow> (\<forall>u d d0. wave_at gens d u \<and> wave_at gens d0 i0 \<and> u \<noteq> i0
      \<and> (i0, u) \<notin> (graph_rel xs es)\<^sup>+ \<longrightarrow> d \<le> d0)"
    unfolding map_is_Nil_conv filter_empty_conv outs wave_at_plan [OF plan] ids region
    using i0_id by (auto simp: not_less)
  have ends: "edge_source e = Some (esrc e) \<and> edge_target e = Some (etgt e)
      \<and> esrc e \<in> set (node_ids xs) \<and> etgt e \<in> set (node_ids xs)" if "e \<in> set es" for e
    using edges that by (auto simp: or_empty_def)
  have "?r2 = [] \<longleftrightarrow> (\<forall>e \<in> set es. etgt e \<in> region \<longrightarrow> esrc e \<in> region \<or> esrc e = i0)"
  proof -
    have "r2_violation region i0 e = [] \<longleftrightarrow> (etgt e \<in> region \<longrightarrow> esrc e \<in> region \<or> esrc e = i0)"
      if "e \<in> set es" for e
    proof -
      obtain s t where e: "edge_source e = Some s" "edge_target e = Some t"
        using ends [OF \<open>e \<in> set es\<close>] by blast
      show ?thesis by (auto simp: r2_violation_def e or_empty_def)
    qed
    then show ?thesis unfolding concat_eq_Nil_conv set_map by blast
  qed
  also have "\<dots> \<longleftrightarrow> (\<forall>u v. (u, v) \<in> graph_rel xs es \<and> v \<in> region \<longrightarrow> u = i0 \<or> u \<in> region)"
    unfolding graph_rel_def using ends by blast
  finally have r2: "?r2 = [] \<longleftrightarrow> (\<forall>u v. (u, v) \<in> graph_rel xs es \<and> (i0, v) \<in> (graph_rel xs es)\<^sup>+
      \<longrightarrow> u = i0 \<or> (i0, u) \<in> (graph_rel xs es)\<^sup>+)" by (simp only: region)
  have "?r3 @ ?r1 @ ?r2 = [] \<longleftrightarrow> fan_out_rules xs es gens i0"
    unfolding append_is_Nil_conv r1 r2 r3 fan_out_rules_def fo by simp
  moreover have "i = i0" if "fan_out_rules xs es gens i" for i
    using that i0(2) fo by (auto simp: fan_out_rules_def)
  ultimately show ?thesis using gens run by blast
qed


lemma walked_graph_InrD:
  assumes "walked_graph ns es = Inr (xs, es', os)"
  shows "topological_order xs es' = Inr os"
    and "\<forall>e \<in> set es'. edge_source e \<in> Some ` set (node_ids xs) \<and> edge_target e \<in> Some ` set (node_ids xs)"
  using assms by (auto simp: walked_graph_def Let_def res_bind_Inr_iff split: prod.splits)

text \<open>C11. The fan-out check raises no exception; on a canvas that can be walked and has a
  fan-out step it reports nothing exactly when the rules hold: one fan-out step, every step that
  is not below it runs no later than it does, and steps below it get input from nowhere else.\<close>

theorem validate_fan_out_topology_correct:
  "(\<exists>vs. validate_fan_out_topology ns es = Inr vs)
    \<and> (\<forall>xs es' os. walked_graph ns es = Inr (xs, es', os) \<and> enabled_fan_out_ids xs \<noteq> [] \<longrightarrow>
        (\<exists>gens. topological_generations os es' = Inr gens
          \<and> (validate_fan_out_topology ns es = Inr [] \<longleftrightarrow> (\<exists>i. fan_out_rules xs es' gens i))))"
proof (cases "walked_graph ns es")
  case (Inl err)
  with walked_graph_errors [OF Inl] show ?thesis by (simp add: validate_fan_out_topology_def)
next
  case (Inr g)
  obtain xs es' os where g: "g = (xs, es', os)" by (cases g)
  note walk = walked_graph_InrD [OF Inr [unfolded g]]
  show ?thesis
  proof (cases "enabled_fan_out_ids xs")
    case Nil
    with Inr g show ?thesis by (simp add: validate_fan_out_topology_def)
  next
    case (Cons x fo)
    from fan_out_violations_correct [OF walk Cons] Inr g Cons show ?thesis
      by (auto simp: validate_fan_out_topology_def)
  qed
qed

definition fan_out_canvas :: "canvas_node list" where
  "fan_out_canvas = [mk_node ''i'' ''inventory''
      \<lparr>node_data := node_data (mk_node ''i'' ''inventory'')
         \<lparr>data_plugin_config := [(''fan_out'', JObj [(''enabled'', JBool True)])]\<rparr>\<rparr>,
     mk_node ''b'' ''step'']"

theorem validate_fan_out_topology_correct_witness:
  "\<exists>gens. topological_generations fan_out_canvas [mk_edge ''i'' ''b''] = Inr gens
    \<and> (\<exists>i. fan_out_rules fan_out_canvas [mk_edge ''i'' ''b''] gens i)"
proof -
  have "walked_graph fan_out_canvas [mk_edge ''i'' ''b''] =
      Inr (fan_out_canvas, [mk_edge ''i'' ''b''], fan_out_canvas)"
    "enabled_fan_out_ids fan_out_canvas \<noteq> []"
    "validate_fan_out_topology fan_out_canvas [mk_edge ''i'' ''b''] = Inr []"
    by code_simp+
  with validate_fan_out_topology_correct [of fan_out_canvas "[mk_edge ''i'' ''b'']"]
  show ?thesis by blast
qed

end
