(* ===== verification/Workflow_Context.thy ===== *)
theory Workflow_Context
  imports Json
begin

text \<open>
  \<open>models/workflow_context.py\<close>: the envelope that flows along every edge of a workflow. A
  \<open>workflow_context\<close> carries the devices with everything the run knows about them, the pending
  commands and the metadata; a \<open>step_outcome\<close> is a named exit of a step with the envelope it
  hands on. Time stamps are strings supplied by the caller (\<open>now_iso()\<close>).
\<close>

section \<open>Capabilities and device status\<close>

datatype capability =
    IDENTITY | ATTRIBUTES | RUNNING_CONFIG | STARTUP_CONFIG | PARSED | PENDING_COMMANDS
  | PYATS_TESTBED | NAUTOBOT_JOB

definition all_capabilities :: "capability list" where
  "all_capabilities = [IDENTITY, ATTRIBUTES, RUNNING_CONFIG, STARTUP_CONFIG, PARSED,
     PENDING_COMMANDS, PYATS_TESTBED, NAUTOBOT_JOB]"

lemma set_all_capabilities: "set all_capabilities = UNIV"
proof -
  have "c \<in> set all_capabilities" for c by (cases c) (simp_all add: all_capabilities_def)
  then show ?thesis by blast
qed

instantiation capability :: enum
begin

definition enum_capability :: "capability list" where
  "enum_capability = all_capabilities"

definition enum_all_capability :: "(capability \<Rightarrow> bool) \<Rightarrow> bool" where
  "enum_all_capability P \<longleftrightarrow> list_all P all_capabilities"

definition enum_ex_capability :: "(capability \<Rightarrow> bool) \<Rightarrow> bool" where
  "enum_ex_capability P \<longleftrightarrow> list_ex P all_capabilities"

instance
  by standard
    (simp_all add: enum_capability_def enum_all_capability_def enum_ex_capability_def
      set_all_capabilities list_all_iff list_ex_iff, simp add: all_capabilities_def)

end

fun capability_value :: "capability \<Rightarrow> string" where
  "capability_value IDENTITY = ''identity''"
| "capability_value ATTRIBUTES = ''attributes''"
| "capability_value RUNNING_CONFIG = ''running_config''"
| "capability_value STARTUP_CONFIG = ''startup_config''"
| "capability_value PARSED = ''parsed''"
| "capability_value PENDING_COMMANDS = ''pending_commands''"
| "capability_value PYATS_TESTBED = ''pyats_testbed''"
| "capability_value NAUTOBOT_JOB = ''nautobot_job''"

text \<open>\<open>Capability(value)\<close>\<close>

definition parse_capability :: "string \<Rightarrow> capability res" where
  "parse_capability s =
     (case List.find (\<lambda>c. capability_value c = s) all_capabilities of
        None \<Rightarrow> Inl (ValueError (py_repr s @ '' is not a valid Capability''))
      | Some c \<Rightarrow> Inr c)"

lemma parse_capability_value: "parse_capability (capability_value c) = Inr c"
  by (cases c) (simp_all add: parse_capability_def all_capabilities_def)

fun parse_capabilities :: "string list \<Rightarrow> capability set res" where
  "parse_capabilities [] = Inr {}"
| "parse_capabilities (s # ss) =
     res_bind (parse_capability s) (\<lambda>c. res_bind (parse_capabilities ss) (\<lambda>cs. Inr (insert c cs)))"

text \<open>\<open>serialize_capabilities\<close>: the sorted values.\<close>

definition serialize_capabilities :: "capability set \<Rightarrow> string list" where
  "serialize_capabilities cs =
     sort (map capability_value (filter (\<lambda>c. c \<in> cs) all_capabilities))"

datatype device_status = PENDING | OK | FAILED | SKIPPED

fun STATUS_RANK :: "device_status \<Rightarrow> nat" where
  "STATUS_RANK FAILED = 3"
| "STATUS_RANK SKIPPED = 2"
| "STATUS_RANK PENDING = 1"
| "STATUS_RANK OK = 0"

definition worst_device_status :: "device_status \<Rightarrow> device_status \<Rightarrow> device_status" where
  "worst_device_status l r = (if STATUS_RANK r \<le> STATUS_RANK l then l else r)"

lemma STATUS_RANK_inj: "STATUS_RANK a = STATUS_RANK b \<Longrightarrow> a = b"
  by (cases a; cases b) simp_all

text \<open>Statuses are ordered by severity; \<open>worst_device_status\<close> is the maximum of that order.\<close>

instantiation device_status :: linorder
begin

definition less_eq_device_status :: "device_status \<Rightarrow> device_status \<Rightarrow> bool" where
  "less_eq_device_status a b \<longleftrightarrow> STATUS_RANK a \<le> STATUS_RANK b"

definition less_device_status :: "device_status \<Rightarrow> device_status \<Rightarrow> bool" where
  "less_device_status a b \<longleftrightarrow> STATUS_RANK a < STATUS_RANK b"

instance
  by standard (auto simp: less_eq_device_status_def less_device_status_def intro: STATUS_RANK_inj)

end

lemma worst_device_status_max: "worst_device_status a b = max a b"
  by (cases a; cases b) (simp_all add: worst_device_status_def max_def less_eq_device_status_def)

section \<open>Records\<close>

record artifact_ref =
  artifact_id :: string
  artifact_kind :: string
  media_type :: string
  size_bytes :: "int option"
  sha256 :: "string option"
  created_at :: string

record command_result =
  cr_node_id :: string
  cr_command :: string
  cr_success :: bool
  cr_executed_at :: string
  cr_output_ref :: "artifact_ref option"
  cr_summary :: "string option"

record request_record =
  rr_target :: string
  rr_method :: string
  rr_endpoint :: string
  rr_request :: "jdict option"
  rr_response :: "jdict option"
  rr_ok :: bool
  rr_sent_at :: string

record failure_info =
  fi_phase :: string
  fi_kind :: string
  fi_retryable :: bool
  fi_attempts :: "int option"
  fi_max_attempts :: "int option"
  fi_elapsed_ms :: "int option"
  fi_http_status :: "int option"
  fi_line :: "int option"
  fi_exception_type :: "string option"
  fi_hint :: "string option"

record device_error =
  de_node_id :: string
  de_step_id :: string
  de_code :: string
  de_message :: string
  de_occurred_at :: string
  de_failure :: "failure_info option"

record device_context =
  dev_id :: string
  dev_name :: string
  dev_hostname :: string
  dev_platform :: "string option"
  dev_network_driver :: "string option"
  dev_primary_ip4 :: "string option"
  dev_source :: string
  dev_source_id :: string
  attribute_bags :: "(string, jdict) dict"
  running_config_ref :: "artifact_ref option"
  startup_config_ref :: "artifact_ref option"
  dev_parsed :: jdict
  command_results :: "(string, command_result list) dict"
  dry_run_results :: "(string, jdict) dict"
  dev_requests :: "(string, request_record list) dict"
  dev_capabilities :: "capability set"
  dev_status :: device_status
  dev_errors :: "device_error list"

record workflow_context =
  ctx_run_id :: string
  ctx_workflow_id :: string
  schema_version :: int
  devices :: "(string, device_context) dict"
  pending_commands :: "(string, (string, string list) dict) dict"
  metadata :: jdict

record step_outcome =
  outcome_name :: string
  outcome_context :: workflow_context
  outcome_summary :: "string option"
  outcome_failure :: "failure_info option"

text \<open>\<open>WorkflowContext(run_id=..., workflow_id=...)\<close> with the declared defaults.\<close>

definition empty_context :: "string \<Rightarrow> string \<Rightarrow> workflow_context" where
  "empty_context r w = \<lparr>ctx_run_id = r, ctx_workflow_id = w, schema_version = 2, devices = [],
     pending_commands = [], metadata = []\<rparr>"

definition new_device :: "string \<Rightarrow> string \<Rightarrow> string \<Rightarrow> device_context" where
  "new_device i n h = \<lparr>dev_id = i, dev_name = n, dev_hostname = h, dev_platform = None,
     dev_network_driver = None, dev_primary_ip4 = None, dev_source = '''', dev_source_id = '''',
     attribute_bags = [], running_config_ref = None, startup_config_ref = None, dev_parsed = [],
     command_results = [], dry_run_results = [], dev_requests = [], dev_capabilities = {},
     dev_status = PENDING, dev_errors = []\<rparr>"

section \<open>What every device provides\<close>

definition provided_capabilities :: "workflow_context \<Rightarrow> capability set" where
  "provided_capabilities c =
     (if devices c = [] then UNIV else \<Inter> (set (map (dev_capabilities \<circ> snd) (devices c))))"

definition provided_parsed_keys :: "workflow_context \<Rightarrow> string set" where
  "provided_parsed_keys c =
     (if devices c = [] then {}
      else \<Inter> (set (map (\<lambda>d. fst ` set (dev_parsed (snd d))) (devices c))))"

definition bare_hostname :: "string option \<Rightarrow> string \<Rightarrow> string" where
  "bare_hostname ip fallback =
     (case ip of
        None \<Rightarrow> fallback
      | Some s \<Rightarrow> if s = '''' then fallback else takeWhile (\<lambda>c. c \<noteq> CHR ''/'') s)"

section \<open>Well-formed envelopes\<close>

text \<open>Python dictionaries have distinct keys, and JSON values are well formed.\<close>

definition request_ok :: "request_record \<Rightarrow> bool" where
  "request_ok r \<longleftrightarrow> (case rr_request r of None \<Rightarrow> True | Some d \<Rightarrow> jdict_ok d)
      \<and> (case rr_response r of None \<Rightarrow> True | Some d \<Rightarrow> jdict_ok d)"

definition device_ok :: "device_context \<Rightarrow> bool" where
  "device_ok d \<longleftrightarrow> dict_ok (attribute_bags d) \<and> (\<forall>b \<in> snd ` set (attribute_bags d). jdict_ok b)
     \<and> jdict_ok (dev_parsed d) \<and> dict_ok (command_results d) \<and> dict_ok (dev_requests d)
     \<and> (\<forall>rs \<in> snd ` set (dev_requests d). \<forall>r \<in> set rs. request_ok r)"

definition context_ok :: "workflow_context \<Rightarrow> bool" where
  "context_ok c \<longleftrightarrow> dict_ok (devices c) \<and> (\<forall>d \<in> snd ` set (devices c). device_ok d)
     \<and> dict_ok (pending_commands c) \<and> (\<forall>p \<in> snd ` set (pending_commands c). dict_ok p)
     \<and> jdict_ok (metadata c)"

text \<open>Serialised capabilities read back as the same set (\<open>serialize_capabilities\<close> and
  \<open>parse_capabilities\<close>).\<close>

lemma parse_capabilities_values:
  "parse_capabilities (map capability_value cs) = Inr (set cs)"
  by (induction cs) (simp_all add: parse_capability_value)

lemma parse_capabilities_Inr_iff:
  "parse_capabilities ss = Inr C \<longleftrightarrow> (\<exists>cs. ss = map capability_value cs \<and> C = set cs)"
proof
  assume "parse_capabilities ss = Inr C"
  then show "\<exists>cs. ss = map capability_value cs \<and> C = set cs"
  proof (induction ss arbitrary: C)
    case (Cons s ss)
    then obtain c D where "parse_capability s = Inr c" "parse_capabilities ss = Inr D" "C = insert c D"
      by (auto simp: res_bind_Inr_iff)
    moreover from this(1) have "s = capability_value c"
      by (auto simp: parse_capability_def find_Some_iff split: option.splits)
    ultimately show ?case using Cons.IH [of D] by (metis list.simps(15) list.simps(9))
  qed simp
qed (auto simp: parse_capabilities_values)

end
