(* ===== verification/Context_Merge.thy ===== *)
theory Context_Merge
  imports Workflow_Context
begin

text \<open>
  \<open>services/workflow_context/merge.py\<close>: what happens when branches of a workflow converge
  (\<open>merge_workflow_contexts\<close>) and when the children of a fan-out rejoin
  (\<open>merge_fan_out_contexts\<close>).

  Python iterates over the sets \<open>set(left) | set(right)\<close> of device ids; the model visits the
  left keys first and then the new right keys. The order only decides which of several conflicts
  is reported and the key order of the merged dictionary. \<open>now\<close> is the time stamp of the
  conflict errors.
\<close>

section \<open>Python equality of the record types\<close>

definition jopt_eq :: "jdict option \<Rightarrow> jdict option \<Rightarrow> bool" where
  "jopt_eq a b =
     (case (a, b) of
        (None, None) \<Rightarrow> True
      | (Some x, Some y) \<Rightarrow> py_eq (JObj x) (JObj y)
      | _ \<Rightarrow> False)"

definition request_eq :: "request_record \<Rightarrow> request_record \<Rightarrow> bool" where
  "request_eq a b \<longleftrightarrow> rr_target a = rr_target b \<and> rr_method a = rr_method b
     \<and> rr_endpoint a = rr_endpoint b \<and> jopt_eq (rr_request a) (rr_request b)
     \<and> jopt_eq (rr_response a) (rr_response b) \<and> rr_ok a = rr_ok b \<and> rr_sent_at a = rr_sent_at b"

section \<open>The merge loops\<close>

text \<open>One turn of the loop all conflict-checking merges share: \<open>if key in merged and
  merged[key] != value: raise ...\<close>, then \<open>merged[key] = value\<close>.\<close>

definition merge_entry :: "('v \<Rightarrow> 'v \<Rightarrow> bool) \<Rightarrow> (string \<Rightarrow> string) \<Rightarrow> (string, 'v) dict \<Rightarrow>
    string \<times> 'v \<Rightarrow> (string, 'v) dict res" where
  "merge_entry eq msg merged kv =
     (case map_of merged (fst kv) of
        Some old \<Rightarrow> if \<not> eq old (snd kv) then Inl (ValueError (msg (fst kv)))
                    else Inr (AList.update (fst kv) (snd kv) merged)
      | None \<Rightarrow> Inr (AList.update (fst kv) (snd kv) merged))"

definition merge_shallow_dicts :: "string \<Rightarrow> jdict \<Rightarrow> jdict \<Rightarrow> jdict res" where
  "merge_shallow_dicts label left right =
     res_fold (merge_entry py_eq (\<lambda>k. ''Conflict merging '' @ label @ '' key '' @ py_repr k)) left right"

definition merge_command_results :: "(string, command_result list) dict \<Rightarrow>
    (string, command_result list) dict \<Rightarrow> (string, command_result list) dict res" where
  "merge_command_results left right =
     res_fold (merge_entry (=)
       (\<lambda>k. ''Conflict merging command_results for node_id '' @ py_repr k)) left right"

definition merge_requests :: "(string, request_record list) dict \<Rightarrow>
    (string, request_record list) dict \<Rightarrow> (string, request_record list) dict res" where
  "merge_requests left right =
     res_fold (merge_entry (list_all2 request_eq)
       (\<lambda>k. ''Conflict merging requests for node_id '' @ py_repr k)) left right"

definition merge_pending_commands_for_device :: "(string, string list) dict \<Rightarrow>
    (string, string list) dict \<Rightarrow> (string, string list) dict res" where
  "merge_pending_commands_for_device left right =
     res_fold (merge_entry (=)
       (\<lambda>k. ''Conflict merging pending_commands for node_id '' @ py_repr k)) left right"

definition merge_metadata :: "jdict \<Rightarrow> jdict \<Rightarrow> jdict res" where
  "merge_metadata left right =
     res_fold (merge_entry py_eq (\<lambda>k. ''Conflict merging metadata key '' @ py_repr k)) left right"

definition merge_bag :: "(string, jdict) dict \<Rightarrow> string \<times> jdict \<Rightarrow> (string, jdict) dict res" where
  "merge_bag merged kv =
     (case map_of merged (fst kv) of
        Some old \<Rightarrow>
          res_bind (merge_shallow_dicts (''attribute_bags['' @ py_repr (fst kv) @ '']'') old (snd kv))
            (\<lambda>b. Inr (AList.update (fst kv) b merged))
      | None \<Rightarrow> Inr (AList.update (fst kv) (snd kv) merged))"

definition merge_attribute_bags ::
  "(string, jdict) dict \<Rightarrow> (string, jdict) dict \<Rightarrow> (string, jdict) dict res" where
  "merge_attribute_bags left right = res_fold merge_bag left right"

definition merge_artifact_ref ::
  "artifact_ref option \<Rightarrow> artifact_ref option \<Rightarrow> artifact_ref option res" where
  "merge_artifact_ref left right =
     (case left of
        None \<Rightarrow> Inr right
      | Some l \<Rightarrow>
         (case right of
            None \<Rightarrow> Inr left
          | Some r \<Rightarrow> if l \<noteq> r
              then Inl (ValueError ''Conflict merging artifact refs with different values'')
              else Inr left))"

definition merge_scalar_identity :: "string \<Rightarrow> string option \<Rightarrow> string option \<Rightarrow>
    string option \<times> device_error list" where
  "merge_scalar_identity now left right =
     (if left = right \<or> right = None then (left, [])
      else if left = None then (right, [])
      else (left, [\<lparr>de_node_id = '''', de_step_id = ''merge'', de_code = ''identity_conflict'',
              de_message = ''Conflicting identity values during merge: '' @ py_repr (the left)
                 @ '' vs '' @ py_repr (the right),
              de_occurred_at = now, de_failure = None\<rparr>]))"

text \<open>\<open>_merge_errors\<close>: keep every left error; append the right ones whose
  \<open>(node_id, step_id)\<close> was not seen yet.\<close>

definition error_key :: "device_error \<Rightarrow> string \<times> string" where
  "error_key e = (de_node_id e, de_step_id e)"

definition merge_errors :: "device_error list \<Rightarrow> device_error list \<Rightarrow> device_error list" where
  "merge_errors left right =
     fst (foldl (\<lambda>(merged, seen) e.
              if error_key e \<in> seen then (merged, seen)
              else (merged @ [e], insert (error_key e) seen))
            (left, set (map error_key left)) right)"

definition merge_two_devices :: "string \<Rightarrow> device_context \<Rightarrow> device_context \<Rightarrow> device_context res" where
  "merge_two_devices now left right =
     (let (i, e1) = merge_scalar_identity now (Some (dev_id left)) (Some (dev_id right));
          (n, e2) = merge_scalar_identity now (Some (dev_name left)) (Some (dev_name right));
          (h, e3) = merge_scalar_identity now (Some (dev_hostname left)) (Some (dev_hostname right));
          (p, e4) = merge_scalar_identity now (dev_platform left) (dev_platform right);
          (d, e5) = merge_scalar_identity now (dev_network_driver left) (dev_network_driver right);
          (ip, e6) = merge_scalar_identity now (dev_primary_ip4 left) (dev_primary_ip4 right);
          (s, e7) = merge_scalar_identity now (Some (dev_source left)) (Some (dev_source right));
          (si, e8) = merge_scalar_identity now (Some (dev_source_id left)) (Some (dev_source_id right))
      in
      res_bind (merge_attribute_bags (attribute_bags left) (attribute_bags right)) (\<lambda>bags.
      res_bind (merge_shallow_dicts ''parsed'' (dev_parsed left) (dev_parsed right)) (\<lambda>parsed.
      res_bind (merge_artifact_ref (running_config_ref left) (running_config_ref right)) (\<lambda>running.
      res_bind (merge_artifact_ref (startup_config_ref left) (startup_config_ref right)) (\<lambda>startup.
      res_bind (merge_command_results (command_results left) (command_results right)) (\<lambda>crs.
      res_bind (merge_requests (dev_requests left) (dev_requests right)) (\<lambda>reqs.
      Inr (left\<lparr>dev_id := the i, dev_name := the n, dev_hostname := the h, dev_platform := p,
              dev_network_driver := d, dev_primary_ip4 := ip, dev_source := the s,
              dev_source_id := the si, attribute_bags := bags, running_config_ref := running,
              startup_config_ref := startup, dev_parsed := parsed, command_results := crs,
              dev_requests := reqs,
              dev_capabilities := dev_capabilities left \<union> dev_capabilities right,
              dev_status := worst_device_status (dev_status left) (dev_status right),
              dev_errors := merge_errors (dev_errors left)
                (dev_errors right @ e1 @ e2 @ e3 @ e4 @ e5 @ e6 @ e7 @ e8)\<rparr>))))))))"

fun merge_device_contexts :: "string \<Rightarrow> device_context list \<Rightarrow> device_context res" where
  "merge_device_contexts now [] =
     Inl (ValueError ''merge_device_contexts requires at least one device'')"
| "merge_device_contexts now (d # ds) = res_fold (merge_two_devices now) d ds"

definition assert_same_invariants :: "workflow_context \<Rightarrow> workflow_context \<Rightarrow> unit res" where
  "assert_same_invariants left right =
     (if ctx_run_id left \<noteq> ctx_run_id right
      then Inl (ValueError ''Cannot merge contexts with different run_id'')
      else if ctx_workflow_id left \<noteq> ctx_workflow_id right
      then Inl (ValueError ''Cannot merge contexts with different workflow_id'')
      else if schema_version left \<noteq> schema_version right
      then Inl (ValueError ''Cannot merge contexts with different schema_version'')
      else Inr ())"

text \<open>The loop over \<open>set(left) | set(right)\<close>: present on one side only, or merged by \<open>f\<close>.\<close>

definition union_keys :: "('k, 'v) dict \<Rightarrow> ('k, 'v) dict \<Rightarrow> 'k list" where
  "union_keys left right = map fst left @ filter (\<lambda>k. k \<notin> fst ` set left) (map fst right)"

definition tabulate :: "(string \<Rightarrow> 'v res) \<Rightarrow> string list \<Rightarrow> (string, 'v) dict res" where
  "tabulate f ks = res_fold (\<lambda>merged k. res_bind (f k) (\<lambda>v. Inr (AList.update k v merged))) [] ks"

definition merged_device :: "string \<Rightarrow> (string, device_context) dict \<Rightarrow>
    (string, device_context) dict \<Rightarrow> string \<Rightarrow> device_context res" where
  "merged_device now left right k =
     (case (map_of left k, map_of right k) of
        (None, None) \<Rightarrow> Inl (KeyError k)
      | (None, Some r) \<Rightarrow> Inr r
      | (Some l, None) \<Rightarrow> Inr l
      | (Some l, Some r) \<Rightarrow> merge_device_contexts now [l, r])"

definition merge_pending_commands :: "(string, (string, string list) dict) dict \<Rightarrow>
    (string, (string, string list) dict) dict \<Rightarrow> (string, (string, string list) dict) dict res" where
  "merge_pending_commands left right =
     tabulate (\<lambda>k. merge_pending_commands_for_device (dget left k []) (dget right k []))
       (union_keys left right)"

definition merge_two_contexts ::
  "string \<Rightarrow> workflow_context \<Rightarrow> workflow_context \<Rightarrow> workflow_context res" where
  "merge_two_contexts now left right =
     res_bind (tabulate (merged_device now (devices left) (devices right))
                 (union_keys (devices left) (devices right))) (\<lambda>devs.
     res_bind (merge_pending_commands (pending_commands left) (pending_commands right)) (\<lambda>pend.
     res_bind (merge_metadata (metadata left) (metadata right)) (\<lambda>meta.
     Inr (left\<lparr>devices := devs, pending_commands := pend, metadata := meta\<rparr>))))"

definition merge_step :: "string \<Rightarrow> workflow_context \<Rightarrow> workflow_context \<Rightarrow> workflow_context res" where
  "merge_step now base other =
     res_bind (assert_same_invariants base other) (\<lambda>_. merge_two_contexts now base other)"

fun merge_workflow_contexts :: "string \<Rightarrow> workflow_context list \<Rightarrow> workflow_context res" where
  "merge_workflow_contexts now [] =
     Inl (ValueError ''merge_workflow_contexts requires at least one context'')"
| "merge_workflow_contexts now (c # cs) = res_fold (merge_step now) c cs"

definition flatten_pending_commands :: "(string, string list) dict \<Rightarrow> string list \<Rightarrow> string list" where
  "flatten_pending_commands pending order =
     concat (map (\<lambda>n. case map_of pending n of None \<Rightarrow> [] | Some cmds \<Rightarrow> cmds) order)"

section \<open>Fan-in of fan-out children\<close>

fun is_count :: "json \<Rightarrow> bool" where
  "is_count (JInt _) = True"
| "is_count _ = False"

fun is_count_dict :: "json \<Rightarrow> bool" where
  "is_count_dict (JObj d) = list_all (\<lambda>kv. is_count (snd kv)) d"
| "is_count_dict _ = False"

fun count_of :: "json \<Rightarrow> int" where
  "count_of (JInt i) = i"
| "count_of _ = 0"

fun add_counts :: "json \<Rightarrow> json \<Rightarrow> json" where
  "add_counts (JObj a) (JObj b) =
     JObj (map (\<lambda>k. (k, JInt (count_of (dget a k (JInt 0)) + count_of (dget b k (JInt 0)))))
            (union_keys a b))"
| "add_counts v _ = v"

definition ends_with :: "string \<Rightarrow> string \<Rightarrow> bool" where
  "ends_with s suf \<longleftrightarrow> length suf \<le> length s \<and> drop (length s - length suf) s = suf"

definition starts_with :: "string \<Rightarrow> string \<Rightarrow> bool" where
  "starts_with s pre \<longleftrightarrow> take (length pre) s = pre"

text \<open>The branches of the loop for a key that is present on both sides.\<close>

definition fan_in_value :: "string option \<Rightarrow> string \<Rightarrow> json \<Rightarrow> json \<Rightarrow> json" where
  "fan_in_value own_node key current v =
     (let own = (case own_node of None \<Rightarrow> False | Some n \<Rightarrow> starts_with key (n @ ''.''));
          counter = (ends_with key ''_count'' \<or> ends_with key ''.total'' \<or> ends_with key ''_total'')
            \<and> is_count current \<and> is_count v;
          counts = ends_with key ''_counts'' \<and> is_count_dict current \<and> is_count_dict v
      in if counter \<and> (own \<or> \<not> py_eq current v) then JInt (count_of current + count_of v)
         else if counts \<and> (own \<or> \<not> py_eq current v) then add_counts current v
         else if py_eq current v then current
         else case (current, v) of
                (JList xs, JList ys) \<Rightarrow> JList (xs @ ys)
              | _ \<Rightarrow> current)"

definition merge_metadata_fan_out :: "string option \<Rightarrow> jdict \<Rightarrow> jdict \<Rightarrow> jdict" where
  "merge_metadata_fan_out own_node left right =
     foldl (\<lambda>merged (k, v).
        case map_of merged k of
          None \<Rightarrow> AList.update k v merged
        | Some current \<Rightarrow> AList.update k (fan_in_value own_node k current v) merged) left right"

definition fan_in_two_contexts ::
  "string option \<Rightarrow> workflow_context \<Rightarrow> workflow_context \<Rightarrow> workflow_context res" where
  "fan_in_two_contexts own_node left right =
     res_bind (merge_pending_commands (pending_commands left) (pending_commands right)) (\<lambda>pend.
     Inr (left\<lparr>devices := dict_union (devices left) (devices right), pending_commands := pend,
               metadata := merge_metadata_fan_out own_node (metadata left) (metadata right)\<rparr>))"

definition fan_in_step :: "string option \<Rightarrow> workflow_context \<Rightarrow> workflow_context \<Rightarrow> workflow_context res" where
  "fan_in_step own_node base other =
     res_bind (assert_same_invariants base other) (\<lambda>_. fan_in_two_contexts own_node base other)"

fun merge_fan_out_contexts :: "string option \<Rightarrow> workflow_context list \<Rightarrow> workflow_context res" where
  "merge_fan_out_contexts own_node [] =
     Inl (ValueError ''merge_fan_out_contexts requires at least one context'')"
| "merge_fan_out_contexts own_node (c # cs) = res_fold (fan_in_step own_node) c cs"


section \<open>Checked unions\<close>

text \<open>Two dictionaries agree when their common keys carry equal values.\<close>

definition agree :: "('v \<Rightarrow> 'v \<Rightarrow> bool) \<Rightarrow> ('k, 'v) dict \<Rightarrow> ('k, 'v) dict \<Rightarrow> bool" where
  "agree eq l r \<longleftrightarrow> (\<forall>k v w. map_of l k = Some v \<longrightarrow> map_of r k = Some w \<longrightarrow> eq v w)"

text \<open>The contract of a conflict-checking merge: the union when the operands agree, a
  \<open>ValueError\<close> otherwise.\<close>

locale checked_union =
  fixes eq :: "'v \<Rightarrow> 'v \<Rightarrow> bool"
    and merge :: "(string, 'v) dict \<Rightarrow> (string, 'v) dict \<Rightarrow> (string, 'v) dict res"
  assumes merge_agree: "dict_ok r \<Longrightarrow> agree eq l r \<Longrightarrow> merge l r = Inr (dict_union l r)"
    and merge_conflict: "dict_ok r \<Longrightarrow> \<not> agree eq l r \<Longrightarrow> \<exists>m. merge l r = Inl (ValueError m)"
begin

lemma merge_Inr_iff:
  "dict_ok r \<Longrightarrow> merge l r = Inr m \<longleftrightarrow> agree eq l r \<and> m = dict_union l r"
  using merge_agree [of r l] merge_conflict [of r l] by (cases "agree eq l r") auto

lemma merge_InlD: "dict_ok r \<Longrightarrow> merge l r = Inl e \<Longrightarrow> is_value_error e \<and> \<not> agree eq l r"
  using merge_agree [of r l] merge_conflict [of r l] by (cases "agree eq l r") auto

lemma merge_keys: "dict_ok r \<Longrightarrow> merge l r = Inr m \<Longrightarrow> fst ` set m = fst ` set l \<union> fst ` set r"
  by (simp add: merge_Inr_iff)

text \<open>Nothing is lost: every entry of either side is found again, up to equality.\<close>

lemma merge_right: "dict_ok r \<Longrightarrow> merge l r = Inr m \<Longrightarrow> map_of r k = Some v \<Longrightarrow> map_of m k = Some v"
  by (simp add: merge_Inr_iff map_of_dict_union)

lemma merge_left:
  assumes "dict_ok r" "merge l r = Inr m" "map_of l k = Some v"
  shows "map_of m k = Some v \<or> (\<exists>w. map_of m k = Some w \<and> eq v w)"
  using assms by (auto simp: merge_Inr_iff map_of_dict_union agree_def split: option.splits)

lemma merge_ok: "dict_ok r \<Longrightarrow> merge l r = Inr m \<Longrightarrow> dict_ok l \<Longrightarrow> dict_ok m"
  by (simp add: merge_Inr_iff)

text \<open>Merging a dictionary with itself changes nothing.\<close>

lemma merge_self:
  assumes "dict_ok l" and "\<And>v. v \<in> snd ` set l \<Longrightarrow> eq v v"
  shows "merge l l = Inr l"
proof -
  have "agree eq l l" using assms(2) by (force simp: agree_def dest: map_of_SomeD)
  then show ?thesis using merge_agree [of l l] assms(1) by (simp add: dict_union_self)
qed

end


lemma merge_entry_fold:
  assumes "dict_ok r"
  shows "if agree eq l r then res_fold (merge_entry eq msg) l r = Inr (dict_union l r)
    else \<exists>m. res_fold (merge_entry eq msg) l r = Inl (ValueError m)"
  using assms
proof (induction r arbitrary: l)
  case Nil
  then show ?case by (simp add: agree_def dict_union_def)
next
  case (Cons kv r)
  obtain k v where kv: "kv = (k, v)" by (cases kv)
  from Cons.prems have fresh: "map_of r k = None" and ok: "dict_ok r"
    by (auto simp: kv map_of_eq_None_iff)
  have agree: "agree eq l (kv # r) \<longleftrightarrow> (case map_of l k of None \<Rightarrow> True | Some w \<Rightarrow> eq w v)
      \<and> agree eq (AList.update k v l) r"
    using fresh by (auto simp: agree_def kv split: option.splits if_splits)
  have "dict_union l (kv # r) = dict_union (AList.update k v l) r"
    by (simp add: dict_union_def kv)
  with Cons.IH [OF ok, of "AList.update k v l"] show ?case
    unfolding agree by (auto simp: kv merge_entry_def [of eq msg l] split: option.splits)
qed

lemma checked_unionI:
  assumes "\<And>l r. merge l r = res_fold (merge_entry eq msg) l r"
  shows "checked_union eq merge"
  by standard (use merge_entry_fold [of _ eq _ msg] assms in \<open>force\<close>)+

interpretation shallow: checked_union py_eq "merge_shallow_dicts label" for label
  by (rule checked_unionI) (rule merge_shallow_dicts_def)

interpretation commands: checked_union "(=)" merge_command_results
  by (rule checked_unionI) (rule merge_command_results_def)

interpretation requests: checked_union "list_all2 request_eq" merge_requests
  by (rule checked_unionI) (rule merge_requests_def)

interpretation pending: checked_union "(=)" merge_pending_commands_for_device
  by (rule checked_unionI) (rule merge_pending_commands_for_device_def)

interpretation meta: checked_union py_eq merge_metadata
  by (rule checked_unionI) (rule merge_metadata_def)

section \<open>Tables over the union of keys\<close>

lemma set_union_keys [simp]: "set (union_keys l r) = fst ` set l \<union> fst ` set r"
  by (auto simp: union_keys_def)

lemma distinct_union_keys: "dict_ok l \<Longrightarrow> dict_ok r \<Longrightarrow> distinct (union_keys l r)"
  by (auto simp: union_keys_def)

lemma tabulate_fold:
  assumes "res_fold (\<lambda>merged k. res_bind (f k) (\<lambda>v. Inr (AList.update k v merged))) acc ks = Inr m"
  shows "(\<forall>k \<in> set ks. \<exists>v. f k = Inr v \<and> map_of m k = Some v) \<and> (\<forall>k. k \<notin> set ks \<longrightarrow> map_of m k = map_of acc k)
    \<and> (dict_ok acc \<longrightarrow> dict_ok m)"
  using assms
proof (induction ks arbitrary: acc)
  case (Cons k ks)
  from Cons.prems obtain v where v: "f k = Inr v"
    and rest: "res_fold (\<lambda>merged k. res_bind (f k) (\<lambda>v. Inr (AList.update k v merged)))
        (AList.update k v acc) ks = Inr m"
    by (cases "f k") auto
  from Cons.IH [OF rest] v show ?case by (cases "k \<in> set ks") (auto simp: distinct_update)
qed simp

lemma tabulate_InrD:
  assumes "tabulate f ks = Inr m"
  shows "k \<in> set ks \<Longrightarrow> \<exists>v. f k = Inr v \<and> map_of m k = Some v"
    and "k \<notin> set ks \<Longrightarrow> map_of m k = None" and "dict_ok m"
  using tabulate_fold [OF assms [unfolded tabulate_def]] by auto

lemma tabulate_keys: "tabulate f ks = Inr m \<Longrightarrow> fst ` set m = set ks"
  using tabulate_InrD [of f ks m] map_of_None_iff [of m] by (metis (no_types, lifting) not_None_eq subsetI subset_antisym)

lemma tabulate_fresh:
  assumes "distinct ks" "set ks \<inter> fst ` set acc = {}" "\<And>k. k \<in> set ks \<Longrightarrow> f k = Inr (g k)"
  shows "res_fold (\<lambda>merged k. res_bind (f k) (\<lambda>v. Inr (AList.update k v merged))) acc ks
    = Inr (acc @ map (\<lambda>k. (k, g k)) ks)"
  using assms by (induction ks arbitrary: acc) (auto simp: update_fresh)

lemma tabulate_Inr:
  "distinct ks \<Longrightarrow> (\<And>k. k \<in> set ks \<Longrightarrow> f k = Inr (g k)) \<Longrightarrow> tabulate f ks = Inr (map (\<lambda>k. (k, g k)) ks)"
  using tabulate_fresh [of ks "[]" f g] by (simp add: tabulate_def)

lemma tabulate_Inl: "tabulate f ks = Inl e \<Longrightarrow> \<exists>k \<in> set ks. f k = Inl e"
proof -
  have "res_fold (\<lambda>merged k. res_bind (f k) (\<lambda>v. Inr (AList.update k v merged))) acc ks = Inl e
    \<Longrightarrow> \<exists>k \<in> set ks. f k = Inl e" for acc
    by (induction ks arbitrary: acc) (auto simp: res_bind_Inl_iff)
  then show "tabulate f ks = Inl e \<Longrightarrow> ?thesis" by (simp add: tabulate_def)
qed

section \<open>Errors and devices\<close>

lemma merge_errors_fold:
  assumes "foldl (\<lambda>(merged, seen) e. if error_key e \<in> seen then (merged, seen)
      else (merged @ [e], insert (error_key e) seen)) (acc, error_key ` set acc) es = (m, seen)"
  shows "(\<exists>new. m = acc @ new \<and> set new \<subseteq> set es) \<and> error_key ` set m = error_key ` set acc \<union> error_key ` set es"
  using assms
proof (induction es arbitrary: acc)
  case (Cons e es)
  show ?case
  proof (cases "error_key e \<in> error_key ` set acc")
    case True
    with Cons.prems Cons.IH [of acc] show ?thesis by auto
  next
    case False
    with Cons.prems Cons.IH [of "acc @ [e]"] show ?thesis by auto
  qed
qed simp

lemma merge_errors_spec:
  "(\<exists>new. merge_errors l r = l @ new \<and> set new \<subseteq> set r)
    \<and> error_key ` set (merge_errors l r) = error_key ` set l \<union> error_key ` set r"
proof -
  obtain m seen where f: "foldl (\<lambda>(merged, seen) e. if error_key e \<in> seen then (merged, seen)
      else (merged @ [e], insert (error_key e) seen)) (l, error_key ` set l) r = (m, seen)"
    by fastforce
  show ?thesis using merge_errors_fold [OF f] f by (simp add: merge_errors_def)
qed

lemma merge_errors_self [simp]: "merge_errors l l = l"
proof -
  have "foldl (\<lambda>(merged, seen) e. if error_key e \<in> seen then (merged, seen)
      else (merged @ [e], insert (error_key e) seen)) (l, S) r = (l, S)" if "error_key ` set r \<subseteq> S" for r S
    using that by (induction r) auto
  then show ?thesis by (simp add: merge_errors_def)
qed


text \<open>What a successful device merge carries over.\<close>

lemma merge_two_devices_InrE:
  assumes "merge_two_devices now l r = Inr d"
  obtains bags parsed running startup crs reqs extra where
    "merge_attribute_bags (attribute_bags l) (attribute_bags r) = Inr bags"
    "merge_shallow_dicts ''parsed'' (dev_parsed l) (dev_parsed r) = Inr parsed"
    "merge_artifact_ref (running_config_ref l) (running_config_ref r) = Inr running"
    "merge_artifact_ref (startup_config_ref l) (startup_config_ref r) = Inr startup"
    "merge_command_results (command_results l) (command_results r) = Inr crs"
    "merge_requests (dev_requests l) (dev_requests r) = Inr reqs"
    "attribute_bags d = bags" "dev_parsed d = parsed" "running_config_ref d = running"
    "startup_config_ref d = startup" "command_results d = crs" "dev_requests d = reqs"
    "dev_capabilities d = dev_capabilities l \<union> dev_capabilities r"
    "dev_status d = max (dev_status l) (dev_status r)"
    "dev_errors d = merge_errors (dev_errors l) (dev_errors r @ extra)"
    "dry_run_results d = dry_run_results l"
  using assms
  unfolding merge_two_devices_def Let_def case_prod_beta res_bind_Inr_iff
  by (auto simp: worst_device_status_max)

lemma merge_bag_errors:
  "dict_ok (snd kv) \<Longrightarrow> merge_bag m kv = Inl e \<Longrightarrow> is_value_error e"
  by (auto simp: merge_bag_def res_bind_Inl_iff split: option.splits dest: shallow.merge_InlD)

lemma merge_attribute_bags_errors:
  assumes "\<forall>b \<in> snd ` set r. dict_ok b" and "merge_attribute_bags l r = Inl e"
  shows "is_value_error e"
  using assms unfolding merge_attribute_bags_def
proof (induction r arbitrary: l)
  case (Cons kv r)
  then show ?case by (auto simp: res_bind_Inl_iff dest: merge_bag_errors)
qed simp

lemma merge_artifact_ref_errors: "merge_artifact_ref l r = Inl e \<Longrightarrow> is_value_error e"
  by (auto simp: merge_artifact_ref_def split: option.splits if_splits)

lemma merge_two_devices_errors:
  assumes "device_ok r" and "merge_two_devices now l r = Inl e"
  shows "is_value_error e"
proof -
  from assms(1) have ok: "\<forall>b \<in> snd ` set (attribute_bags r). dict_ok b" "dict_ok (dev_parsed r)"
    "dict_ok (command_results r)" "dict_ok (dev_requests r)"
    by (auto simp: device_ok_def jdict_ok_def)
  from assms(2) show ?thesis
    unfolding merge_two_devices_def Let_def case_prod_beta res_bind_Inl_iff
    using merge_attribute_bags_errors [OF ok(1)] merge_artifact_ref_errors
      shallow.merge_InlD [OF ok(2)] commands.merge_InlD [OF ok(3)] requests.merge_InlD [OF ok(4)]
    by blast
qed

lemma assert_same_invariants_Inr_iff:
  "assert_same_invariants l r = Inr u \<longleftrightarrow>
     ctx_run_id l = ctx_run_id r \<and> ctx_workflow_id l = ctx_workflow_id r
       \<and> schema_version l = schema_version r"
  by (simp add: assert_same_invariants_def)

lemma assert_same_invariants_errors: "assert_same_invariants l r = Inl e \<Longrightarrow> is_value_error e"
  by (auto simp: assert_same_invariants_def split: if_splits)

lemma context_okD:
  assumes "context_ok c"
  shows "dict_ok (devices c)" "map_of (devices c) k = Some d \<Longrightarrow> device_ok d"
    "dict_ok (pending_commands c)" "dict_ok (dget (pending_commands c) k [])" "dict_ok (metadata c)"
  using assms
  by (auto simp: context_ok_def jdict_ok_def dget_def dest: map_of_SomeD split: option.splits)

lemma merge_step_errors:
  assumes ok: "context_ok r" and err: "merge_step now l r = Inl e"
  shows "is_value_error e"
proof -
  have dev: "is_value_error e" if "tabulate (merged_device now (devices l) (devices r))
      (union_keys (devices l) (devices r)) = Inl e"
  proof -
    from tabulate_Inl [OF that] obtain k where k: "k \<in> fst ` set (devices l) \<union> fst ` set (devices r)"
      "merged_device now (devices l) (devices r) k = Inl e" by auto
    from k(1) have "map_of (devices l) k \<noteq> None \<or> map_of (devices r) k \<noteq> None"
      by (auto simp: map_of_None_iff)
    with k(2) obtain d d' where "merge_two_devices now d d' = Inl e" "map_of (devices r) k = Some d'"
      by (auto simp: merged_device_def split: option.splits)
    then show ?thesis using merge_two_devices_errors context_okD(2) [OF ok] by blast
  qed
  have pend: "is_value_error e"
    if "merge_pending_commands (pending_commands l) (pending_commands r) = Inl e"
    using tabulate_Inl [OF that [unfolded merge_pending_commands_def]]
      pending.merge_InlD [OF context_okD(4) [OF ok]] by blast
  from err show ?thesis
    unfolding merge_step_def merge_two_contexts_def res_bind_Inl_iff
    using assert_same_invariants_errors dev pend meta.merge_InlD [OF context_okD(5) [OF ok]] by blast
qed


section \<open>What a merge of parent contexts preserves\<close>

text \<open>All versions of device \<open>k\<close> the parents deliver.\<close>

definition versions :: "workflow_context list \<Rightarrow> string \<Rightarrow> device_context set" where
  "versions cs k = {d. \<exists>c \<in> set cs. map_of (devices c) k = Some d}"

text \<open>Device \<open>d\<close> carries what its versions \<open>V\<close> carry: all capabilities, the worst status,
  all command results, and every error up to its \<open>(node, step)\<close> key.\<close>

definition device_merges :: "device_context set \<Rightarrow> device_context \<Rightarrow> bool" where
  "device_merges V d \<longleftrightarrow> V \<noteq> {} \<and> finite V
     \<and> dev_capabilities d = \<Union> (dev_capabilities ` V) \<and> dev_status d = Max (dev_status ` V)
     \<and> (\<forall>v \<in> V. \<forall>n rs. map_of (command_results v) n = Some rs \<longrightarrow> map_of (command_results d) n = Some rs)
     \<and> (\<forall>v \<in> V. error_key ` set (dev_errors v) \<subseteq> error_key ` set (dev_errors d))"

definition context_merges :: "workflow_context list \<Rightarrow> workflow_context \<Rightarrow> bool" where
  "context_merges cs m \<longleftrightarrow>
     (\<forall>c \<in> set cs. ctx_run_id m = ctx_run_id c \<and> ctx_workflow_id m = ctx_workflow_id c
        \<and> schema_version m = schema_version c)
     \<and> (\<forall>k. case map_of (devices m) k of None \<Rightarrow> versions cs k = {} | Some d \<Rightarrow> device_merges (versions cs k) d)
     \<and> fst ` set (metadata m) = (\<Union>c \<in> set cs. fst ` set (metadata c))
     \<and> (\<forall>c \<in> set cs. \<forall>k n xs. map_of (dget (pending_commands c) k []) n = Some xs \<longrightarrow>
          map_of (dget (pending_commands m) k []) n = Some xs)"

lemma device_merges_single: "device_merges {d} d"
  by (simp add: device_merges_def)

lemma context_merges_single: "context_merges [c] c"
proof -
  have "versions [c] k = {d. map_of (devices c) k = Some d}" for k by (simp add: versions_def)
  then show ?thesis
    by (auto simp: context_merges_def split: option.splits intro: device_merges_single)
qed

lemma device_merges_step:
  assumes V: "device_merges V l" and ok: "device_ok r" and m: "merge_two_devices now l r = Inr d"
  shows "device_merges (insert r V) d"
proof -
  from ok have crs_ok: "dict_ok (command_results r)" by (simp add: device_ok_def)
  from m obtain crs extra where
    crs: "merge_command_results (command_results l) (command_results r) = Inr crs"
    and d: "command_results d = crs" "dev_capabilities d = dev_capabilities l \<union> dev_capabilities r"
      "dev_status d = max (dev_status l) (dev_status r)"
      "dev_errors d = merge_errors (dev_errors l) (dev_errors r @ extra)"
    by (rule merge_two_devices_InrE)
  have cl: "map_of (command_results d) n = Some rs" if "map_of (command_results l) n = Some rs" for n rs
    using commands.merge_left [OF crs_ok crs that] d(1) by auto
  have cr: "map_of (command_results d) n = Some rs" if "map_of (command_results r) n = Some rs" for n rs
    using commands.merge_right [OF crs_ok crs that] d(1) by simp
  have err: "error_key ` set (dev_errors d) =
      error_key ` set (dev_errors l) \<union> error_key ` set (dev_errors r) \<union> error_key ` set extra"
    unfolding d(4) using merge_errors_spec [of "dev_errors l" "dev_errors r @ extra"] by (simp add: image_Un Un_assoc)
  have "Max (dev_status ` insert r V) = max (dev_status l) (dev_status r)"
    using V by (simp add: device_merges_def max.commute)
  with V cl cr err d(2,3) show ?thesis
    unfolding device_merges_def by (simp add: Un_commute) blast
qed

lemma versions_snoc:
  "versions (cs @ [c]) k = versions cs k \<union> (case map_of (devices c) k of None \<Rightarrow> {} | Some d \<Rightarrow> {d})"
  by (auto simp: versions_def split: option.splits)

lemma merged_device_versions:
  assumes V: "case map_of l k of None \<Rightarrow> versions cs k = {} | Some d \<Rightarrow> device_merges (versions cs k) d"
    and ok: "context_ok r" and m: "merged_device now l (devices r) k = Inr d"
  shows "device_merges (versions (cs @ [r]) k) d"
proof (cases "map_of (devices r) k")
  case None
  with m have "map_of l k = Some d" by (auto simp: merged_device_def split: option.splits)
  with V None show ?thesis by (simp add: versions_snoc)
next
  case (Some d')
  show ?thesis
  proof (cases "map_of l k")
    case None
    with V m Some show ?thesis by (simp add: versions_snoc merged_device_def device_merges_single)
  next
    case l: (Some dl)
    from m l Some have "merge_two_devices now dl d' = Inr d" by (simp add: merged_device_def)
    from device_merges_step [OF _ context_okD(2) [OF ok Some] this] V l Some show ?thesis
      by (simp add: versions_snoc)
  qed
qed


lemma context_merges_step:
  assumes cs: "context_merges cs l" and ok: "context_ok r" and step: "merge_step now l r = Inr m"
  shows "context_merges (cs @ [r]) m"
proof -
  from step obtain devs pend metas where inv: "assert_same_invariants l r = Inr ()"
    and devs: "tabulate (merged_device now (devices l) (devices r))
        (union_keys (devices l) (devices r)) = Inr devs"
    and pend: "merge_pending_commands (pending_commands l) (pending_commands r) = Inr pend"
    and metas: "merge_metadata (metadata l) (metadata r) = Inr metas"
    and m: "m = l\<lparr>devices := devs, pending_commands := pend, metadata := metas\<rparr>"
    unfolding merge_step_def merge_two_contexts_def res_bind_Inr_iff by auto
  have "case map_of devs k of None \<Rightarrow> versions (cs @ [r]) k = {}
      | Some d \<Rightarrow> device_merges (versions (cs @ [r]) k) d" for k
  proof (cases "k \<in> fst ` set (devices l) \<union> fst ` set (devices r)")
    case True
    then have "k \<in> set (union_keys (devices l) (devices r))" by simp
    from tabulate_InrD(1) [OF devs this] obtain d where
      "merged_device now (devices l) (devices r) k = Inr d" "map_of devs k = Some d" by blast
    moreover have "case map_of (devices l) k of None \<Rightarrow> versions cs k = {}
        | Some d \<Rightarrow> device_merges (versions cs k) d" using cs by (simp add: context_merges_def)
    ultimately show ?thesis using merged_device_versions [OF _ ok] by simp
  next
    case False
    then have "map_of (devices l) k = None" "map_of (devices r) k = None" "map_of devs k = None"
      using tabulate_InrD(2) [OF devs, of k] by (auto simp: map_of_None_iff)
    with cs show ?thesis by (auto simp: context_merges_def versions_snoc dest: spec [of _ k])
  qed
  moreover have "map_of (dget pend k []) n = Some xs"
    if e: "map_of (dget (pending_commands l) k []) n = Some xs
      \<or> map_of (dget (pending_commands r) k []) n = Some xs" for k n xs
  proof -
    from e have "k \<in> set (union_keys (pending_commands l) (pending_commands r))"
      by (auto simp: dget_def dest: map_of_Some_key split: option.splits)
    from tabulate_InrD(1) [OF pend [unfolded merge_pending_commands_def] this] obtain p where
      p: "merge_pending_commands_for_device (dget (pending_commands l) k [])
        (dget (pending_commands r) k []) = Inr p" "dget pend k [] = p" by (auto simp: dget_def)
    with e pending.merge_left [OF context_okD(4) [OF ok] p(1)]
      pending.merge_right [OF context_okD(4) [OF ok] p(1)] show ?thesis by auto
  qed
  moreover have "fst ` set metas = fst ` set (metadata l) \<union> fst ` set (metadata r)"
    by (rule meta.merge_keys [OF context_okD(5) [OF ok] metas])
  ultimately show ?thesis using cs inv
    by (simp add: context_merges_def m assert_same_invariants_Inr_iff) blast
qed

lemma merge_workflow_contexts_fold:
  assumes "context_merges cs c" and "\<forall>r \<in> set rs. context_ok r"
  shows "case res_fold (merge_step now) c rs of Inl e \<Rightarrow> is_value_error e
    | Inr m \<Rightarrow> context_merges (cs @ rs) m"
  using assms
proof (induction rs arbitrary: cs c)
  case (Cons r rs)
  show ?case
  proof (cases "merge_step now c r")
    case (Inl e)
    with merge_step_errors [of r now c e] Cons.prems show ?thesis by simp
  next
    case (Inr m)
    with Cons.IH [of "cs @ [r]" m] context_merges_step [of cs c r now m] Cons.prems
    show ?thesis by (simp split: sum.splits)
  qed
qed (simp split: sum.splits)

text \<open>C12. Merging the parents of a converging step either raises a \<open>ValueError\<close> (conflicting
  values or foreign runs) or loses nothing: the result has exactly the parents' devices, each
  with the union of the capabilities, the worst status, every command result and every error
  key of its versions, all pending commands, and the union of the metadata keys.\<close>

theorem merge_workflow_contexts_preserves:
  assumes "\<forall>c \<in> set cs. context_ok c"
  shows "case merge_workflow_contexts now cs of
     Inl e \<Rightarrow> is_value_error e
   | Inr m \<Rightarrow> context_merges cs m"
proof (cases cs)
  case (Cons c rs)
  with merge_workflow_contexts_fold [OF context_merges_single [of c], of rs now] assms
  show ?thesis by (simp split: sum.splits)
qed simp

subsection \<open>Example contexts\<close>

definition branch_a :: workflow_context where
  "branch_a = (empty_context ''run'' ''wf'')\<lparr>devices := [(''r1'', (new_device ''r1'' ''r1'' ''r1'')
     \<lparr>dev_capabilities := {IDENTITY, PARSED}, dev_status := OK\<rparr>)],
     metadata := [(''n1.changed_count'', JInt 2)]\<rparr>"

definition branch_b :: workflow_context where
  "branch_b = (empty_context ''run'' ''wf'')\<lparr>devices := [(''r1'', (new_device ''r1'' ''r1'' ''r1'')
     \<lparr>dev_capabilities := {IDENTITY, ATTRIBUTES}, dev_status := FAILED\<rparr>),
       (''r2'', new_device ''r2'' ''r2'' ''r2'')]\<rparr>"

definition branch_c :: workflow_context where
  "branch_c = (empty_context ''run'' ''wf'')\<lparr>devices := [(''r3'', new_device ''r3'' ''r3'' ''r3'')],
     metadata := [(''n1.changed_count'', JInt 5)]\<rparr>"

lemma branches_ok: "context_ok branch_a" "context_ok branch_b" "context_ok branch_c"
  by code_simp+

theorem merge_workflow_contexts_preserves_witness:
  "\<exists>m. merge_workflow_contexts ''now'' [branch_a, branch_b] = Inr m \<and> context_merges [branch_a, branch_b] m"
proof -
  have "\<not> isl (merge_workflow_contexts ''now'' [branch_a, branch_b])" by code_simp
  then obtain m where m: "merge_workflow_contexts ''now'' [branch_a, branch_b] = Inr m"
    by (cases "merge_workflow_contexts ''now'' [branch_a, branch_b]") simp_all
  have "\<forall>c \<in> set [branch_a, branch_b]. context_ok c" using branches_ok by simp
  from merge_workflow_contexts_preserves [OF this, of "''now''"] m show ?thesis by simp
qed

section \<open>Unchanged branches\<close>

lemma jopt_eq_refl: "case x of None \<Rightarrow> True | Some d \<Rightarrow> jdict_ok d \<Longrightarrow> jopt_eq x x"
  by (cases x) (auto simp: jopt_eq_def jdict_ok_def json_ok_fields_iff simp del: py_eq.simps
      intro!: py_eq_refl)

lemma request_eq_refl: "request_ok r \<Longrightarrow> request_eq r r"
  by (simp add: request_ok_def request_eq_def jopt_eq_refl)

lemma merge_attribute_bags_self:
  assumes "dict_ok b" "\<forall>x \<in> snd ` set b. jdict_ok x"
  shows "merge_attribute_bags b b = Inr b"
proof -
  have "res_fold merge_bag b r = Inr b" if "set r \<subseteq> set b" for r
    using that
  proof (induction r)
    case (Cons kv r)
    obtain k x where kv: "kv = (k, x)" by (cases kv)
    with Cons.prems assms have look: "map_of b k = Some x" by (auto simp: map_of_eq_Some_iff)
    have x: "jdict_ok x" using assms(2) Cons.prems kv by force
    then have "merge_shallow_dicts lab x x = Inr x" for lab
      by (intro shallow.merge_self) (auto simp: jdict_ok_def)
    with look have "merge_bag b kv = Inr b" by (simp add: merge_bag_def kv update_same assms(1))
    with Cons show ?case by simp
  qed simp
  then show ?thesis by (simp add: merge_attribute_bags_def)
qed

lemma merge_two_devices_self:
  assumes "device_ok d"
  shows "merge_two_devices now d d = Inr d"
proof -
  from assms have parts: "merge_attribute_bags (attribute_bags d) (attribute_bags d) = Inr (attribute_bags d)"
    "merge_shallow_dicts ''parsed'' (dev_parsed d) (dev_parsed d) = Inr (dev_parsed d)"
    "merge_command_results (command_results d) (command_results d) = Inr (command_results d)"
    "merge_requests (dev_requests d) (dev_requests d) = Inr (dev_requests d)"
    by (auto simp: device_ok_def jdict_ok_def intro!: merge_attribute_bags_self shallow.merge_self
        commands.merge_self requests.merge_self list.rel_refl_strong request_eq_refl)
  have "merge_artifact_ref a a = Inr a" for a by (cases a) (simp_all add: merge_artifact_ref_def)
  with parts show ?thesis
    by (simp add: merge_two_devices_def merge_scalar_identity_def worst_device_status_def)
qed

lemma union_keys_self: "union_keys d d = map fst d"
  by (simp add: union_keys_def filter_empty_conv)

lemma map_lookup_self: "dict_ok d \<Longrightarrow> map (\<lambda>k. (k, the (map_of d k))) (map fst d) = d"
  by (auto simp: o_def map_of_eq_Some_iff intro!: map_idI)

lemma tabulate_self:
  assumes "dict_ok d" and "\<And>k v. map_of d k = Some v \<Longrightarrow> f k = Inr v"
  shows "tabulate f (union_keys d d) = Inr d"
proof -
  have "f k = Inr (the (map_of d k))" if "k \<in> set (map fst d)" for k
    using that assms(2) [of k] key_map_of_Some [of k d] by auto
  then have "tabulate f (map fst d) = Inr (map (\<lambda>k. (k, the (map_of d k))) (map fst d))"
    by (intro tabulate_Inr assms(1))
  then show ?thesis unfolding union_keys_self map_lookup_self [OF assms(1)] .
qed

lemma merge_step_self:
  assumes "context_ok c"
  shows "merge_step now c c = Inr c"
proof -
  note ok = context_okD [OF assms]
  have "tabulate (merged_device now (devices c) (devices c)) (union_keys (devices c) (devices c)) =
      Inr (devices c)"
    by (rule tabulate_self [OF ok(1)])
      (simp add: merged_device_def merge_two_devices_self ok(2))
  moreover have "merge_pending_commands (pending_commands c) (pending_commands c) = Inr (pending_commands c)"
    unfolding merge_pending_commands_def
  proof (rule tabulate_self [OF ok(3)])
    fix k v assume "map_of (pending_commands c) k = Some v"
    then show "merge_pending_commands_for_device (dget (pending_commands c) k [])
        (dget (pending_commands c) k []) = Inr v"
      using pending.merge_self [OF ok(4), of k] by (simp add: dget_def)
  qed
  moreover have "merge_metadata (metadata c) (metadata c) = Inr (metadata c)"
    using assms by (intro meta.merge_self) (auto simp: context_ok_def jdict_ok_def)
  ultimately show ?thesis
    by (simp add: merge_step_def assert_same_invariants_def merge_two_contexts_def)
qed

text \<open>A diamond whose branches leave the envelope untouched rejoins to the same envelope:
  merging any number of copies of a well-formed context returns that context.\<close>

lemma merge_workflow_contexts_idempotent:
  assumes "context_ok c"
  shows "merge_workflow_contexts now (replicate (Suc n) c) = Inr c"
  by (induction n) (simp_all add: merge_step_self [OF assms])

section \<open>Rejoining fan-out children\<close>

text \<open>A counter that the merged node writes itself: its key starts with the node id and ends in
  one of the summed suffixes.\<close>

definition own_counter :: "string \<Rightarrow> string \<Rightarrow> bool" where
  "own_counter n key \<longleftrightarrow> starts_with key (n @ ''.'') \<and>
     (ends_with key ''_count'' \<or> ends_with key ''.total'' \<or> ends_with key ''_total'')"

lemma fan_in_value_own_counter:
  "own_counter n key \<Longrightarrow> fan_in_value (Some n) key (JInt a) (JInt b) = JInt (a + b)"
  by (simp add: own_counter_def fan_in_value_def)

lemma merge_metadata_fan_out_lookup:
  assumes "dict_ok r"
  shows "map_of (merge_metadata_fan_out own_node l r) k =
    (case (map_of l k, map_of r k) of
       (None, x) \<Rightarrow> x
     | (x, None) \<Rightarrow> x
     | (Some a, Some b) \<Rightarrow> Some (fan_in_value own_node k a b))"
  using assms
proof (induction r arbitrary: k rule: rev_induct)
  case (snoc kv r)
  obtain k' v where kv: "kv = (k', v)" by (cases kv)
  from snoc.prems have ok: "dict_ok r" and fresh: "map_of r k' = None"
    by (auto simp: kv map_of_eq_None_iff)
  have look: "map_of (r @ [kv]) k = (if k = k' then Some v else map_of r k)"
    using fresh by (cases "map_of r k") (auto simp: kv map_add_def)
  have "merge_metadata_fan_out own_node l (r @ [kv]) =
      (let merged = merge_metadata_fan_out own_node l r in
       case map_of merged k' of
         None \<Rightarrow> AList.update k' v merged
       | Some current \<Rightarrow> AList.update k' (fan_in_value own_node k' current v) merged)"
    by (simp add: merge_metadata_fan_out_def kv Let_def)
  with snoc.IH [OF ok, of k] snoc.IH [OF ok, of k'] fresh show ?case
    unfolding look by (auto simp: Let_def split: option.splits)
qed (simp add: merge_metadata_fan_out_def split: option.splits)

definition children_joined :: "string \<Rightarrow> workflow_context list \<Rightarrow> workflow_context \<Rightarrow> bool" where
  "children_joined n cs m \<longleftrightarrow>
     (\<forall>k d. map_of (devices m) k = Some d \<longrightarrow> (\<exists>c \<in> set cs. map_of (devices c) k = Some d))
     \<and> fst ` set (devices m) = (\<Union>c \<in> set cs. fst ` set (devices c))
     \<and> (\<forall>key. own_counter n key \<and> (\<forall>c \<in> set cs. \<exists>i. map_of (metadata c) key = Some (JInt i)) \<longrightarrow>
          map_of (metadata m) key = Some (JInt (\<Sum>c \<leftarrow> cs. count_of (the (map_of (metadata c) key)))))"

lemma fan_in_step_joined:
  assumes cs: "children_joined n cs l" and ok: "context_ok r"
    and step: "fan_in_step (Some n) l r = Inr m"
  shows "children_joined n (cs @ [r]) m"
proof -
  from step have devs: "devices m = dict_union (devices l) (devices r)"
    and metas: "metadata m = merge_metadata_fan_out (Some n) (metadata l) (metadata r)"
    by (auto simp: fan_in_step_def fan_in_two_contexts_def res_bind_Inr_iff)
  have "\<exists>c \<in> set (cs @ [r]). map_of (devices c) k = Some d" if "map_of (devices m) k = Some d" for k d
    using that cs unfolding devs map_of_dict_union [OF context_okD(1) [OF ok]] children_joined_def
    by (auto split: option.splits)
  moreover have "fst ` set (devices m) = (\<Union>c \<in> set (cs @ [r]). fst ` set (devices c))"
    using cs unfolding devs children_joined_def by auto
  moreover have "map_of (metadata m) key =
      Some (JInt (\<Sum>c \<leftarrow> cs @ [r]. count_of (the (map_of (metadata c) key))))"
    if key: "own_counter n key" and all: "\<forall>c \<in> set (cs @ [r]). \<exists>i. map_of (metadata c) key = Some (JInt i)" for key
  proof -
    from all obtain i where i: "map_of (metadata r) key = Some (JInt i)" by auto
    have "map_of (metadata l) key = Some (JInt (\<Sum>c \<leftarrow> cs. count_of (the (map_of (metadata c) key))))"
      using cs key all unfolding children_joined_def by simp
    with i show ?thesis
      unfolding metas merge_metadata_fan_out_lookup [OF context_okD(5) [OF ok]]
      by (simp add: fan_in_value_own_counter [OF key])
  qed
  ultimately show ?thesis unfolding children_joined_def by blast
qed

lemma fan_in_step_errors:
  assumes ok: "context_ok r" and err: "fan_in_step own_node l r = Inl e"
  shows "is_value_error e"
proof -
  have pend: "is_value_error e"
    if "merge_pending_commands (pending_commands l) (pending_commands r) = Inl e"
    using tabulate_Inl [OF that [unfolded merge_pending_commands_def]]
      pending.merge_InlD [OF context_okD(4) [OF ok]] by blast
  from err show ?thesis
    unfolding fan_in_step_def fan_in_two_contexts_def res_bind_Inl_iff
    using assert_same_invariants_errors pend by blast
qed

lemma children_joined_single: "children_joined n [c] c"
  by (auto simp: children_joined_def)

lemma merge_fan_out_fold:
  assumes "children_joined n cs c" and "\<forall>r \<in> set rs. context_ok r"
  shows "case res_fold (fan_in_step (Some n)) c rs of Inl e \<Rightarrow> is_value_error e
    | Inr m \<Rightarrow> children_joined n (cs @ rs) m"
  using assms
proof (induction rs arbitrary: cs c)
  case (Cons r rs)
  show ?case
  proof (cases "fan_in_step (Some n) c r")
    case (Inl e)
    with fan_in_step_errors [of r "Some n" c e] Cons.prems show ?thesis by simp
  next
    case (Inr m)
    with Cons.IH [of "cs @ [r]" m] fan_in_step_joined [of n cs c r m] Cons.prems
    show ?thesis by (simp split: sum.splits)
  qed
qed (simp split: sum.splits)

text \<open>Rejoining fan-out children raises only a \<open>ValueError\<close>; a result has exactly the
  children's devices, each with the state one of the children left it in, and every counter of
  the rejoined node is the sum of the children's counters.\<close>

lemma merge_fan_out_contexts_joins:
  assumes "\<forall>c \<in> set cs. context_ok c"
  shows "case merge_fan_out_contexts (Some n) cs of
     Inl e \<Rightarrow> is_value_error e
   | Inr m \<Rightarrow> children_joined n cs m"
proof (cases cs)
  case (Cons c rs)
  with merge_fan_out_fold [OF children_joined_single [of n c], of rs] assms
  show ?thesis by (simp split: sum.splits)
qed simp

section \<open>What the device merge loses\<close>

text \<open>The dry-run results of the right operand are not part of the merge.\<close>

lemma merge_drops_dry_run_results:
  "\<exists>l r d. device_ok l \<and> device_ok r \<and> merge_two_devices now l r = Inr d
    \<and> dry_run_results r \<noteq> [] \<and> dry_run_results d = []"
proof -
  define l where "l = new_device ''r1'' ''r1'' ''r1''"
  define r where "r = l\<lparr>dry_run_results := [(''n'', [(''diff'', JStr ''x'')])]\<rparr>"
  have "\<exists>d. merge_two_devices now l r = Inr d \<and> dry_run_results d = []"
    by (simp add: l_def r_def new_device_def merge_two_devices_def merge_scalar_identity_def
        merge_attribute_bags_def merge_shallow_dicts_def merge_artifact_ref_def
        merge_command_results_def merge_requests_def)
  moreover have "device_ok l" "device_ok r"
    by (simp_all add: l_def r_def new_device_def device_ok_def jdict_ok_def)
  moreover have "dry_run_results r \<noteq> []" by (simp add: r_def)
  ultimately show ?thesis by blast
qed

text \<open>All identity conflicts of a merge carry the same \<open>(node_id, step_id)\<close> key, so only the
  first one is recorded.\<close>

lemma merge_records_one_identity_conflict:
  "\<exists>l r d. dev_name l \<noteq> dev_name r \<and> dev_hostname l \<noteq> dev_hostname r
    \<and> merge_two_devices now l r = Inr d \<and> length (dev_errors d) = 1"
proof -
  define l where "l = new_device ''r1'' ''a'' ''a''"
  define r where "r = new_device ''r1'' ''b'' ''b''"
  have "\<exists>d. merge_two_devices now l r = Inr d \<and> length (dev_errors d) = 1"
    by (simp add: l_def r_def new_device_def merge_two_devices_def merge_scalar_identity_def
        merge_attribute_bags_def merge_shallow_dicts_def merge_artifact_ref_def
        merge_command_results_def merge_requests_def merge_errors_def error_key_def)
  moreover have "dev_name l \<noteq> dev_name r" "dev_hostname l \<noteq> dev_hostname r"
    by (simp_all add: l_def r_def new_device_def)
  ultimately show ?thesis by blast
qed

end
