(* ===== verification/Guards.thy ===== *)
theory Guards
  imports Workflow_Context Graph_Resolution
begin

text \<open>
  The contracts around one step: \<open>services/workflow_context/guards.py\<close> (capability guards
  before and after a step), \<open>registry.py\<close> (capability specification of a plugin),
  \<open>run_inputs.py\<close> (static attributes stamped on every device),
  \<open>services/execution/step_result_status.py\<close> (status persisted for a step) and
  \<open>step_runner/signals.py\<close> (classification of a raised exception).

  The set \<open>touched\<close> of devices is visited in the order of the success outcome; the order only
  selects the device an error names. Error messages keep their fixed text and the step id.
\<close>

section \<open>Strings\<close>

text \<open>\<open>str(v).strip().lower() == word\<close> for the lower-case words of the source: the string form
  of a value that is not a string never equals one of them.\<close>

definition normalised_is :: "json \<Rightarrow> string \<Rightarrow> bool" where
  "normalised_is v word = (case v of JStr s \<Rightarrow> py_lower (py_strip s) = word | _ \<Rightarrow> False)"

section \<open>Capability specifications\<close>

record step_capability_spec =
  spec_step_id :: string
  spec_requires :: "capability set"
  spec_produces :: "capability set"
  spec_consumes :: "capability set"
  spec_requires_parsed :: "string set"

definition capability_spec_from_plugin :: "plugin_definition \<Rightarrow> step_capability_spec res" where
  "capability_spec_from_plugin p =
     res_bind (parse_capabilities (plugin_requires p)) (\<lambda>req.
     res_bind (parse_capabilities (plugin_produces p)) (\<lambda>prod.
     res_bind (parse_capabilities (plugin_consumes p)) (\<lambda>cons.
     Inr \<lparr>spec_step_id = plugin_id p, spec_requires = req, spec_produces = prod,
          spec_consumes = cons, spec_requires_parsed = set (plugin_requires_parsed p)\<rparr>)))"

section \<open>Guards\<close>

definition success_of :: "step_outcome list \<Rightarrow> step_outcome option" where
  "success_of outcomes = List.find (\<lambda>o'. outcome_name o' = ''success'') outcomes"

definition failure_of :: "step_outcome list \<Rightarrow> step_outcome option" where
  "failure_of outcomes = List.find (\<lambda>o'. outcome_name o' = ''failure'') outcomes"

definition newly_failed :: "workflow_context \<Rightarrow> workflow_context \<Rightarrow> string list" where
  "newly_failed before after =
     map fst (filter (\<lambda>(i, d). dev_status d = FAILED
        \<and> (case map_of (devices before) i of None \<Rightarrow> False | Some b \<Rightarrow> dev_status b \<noteq> FAILED))
       (devices after))"

definition assert_no_newly_failed_on_success ::
  "string \<Rightarrow> workflow_context \<Rightarrow> step_outcome list \<Rightarrow> unit res" where
  "assert_no_newly_failed_on_success step_id input outcomes =
     (case success_of outcomes of
        None \<Rightarrow> Inr ()
      | Some s \<Rightarrow>
          if newly_failed input (outcome_context s) \<noteq> []
          then Inl (RuntimeError (''Step '' @ step_id @ '' returned newly failed device(s) on success''))
          else Inr ())"

definition pre_step_guard :: "step_capability_spec \<Rightarrow> workflow_context \<Rightarrow> unit res" where
  "pre_step_guard spec c =
     (if devices c = [] then Inr ()
      else if \<not> spec_requires spec \<subseteq> provided_capabilities c
      then Inl (ValueError (''Step '' @ spec_step_id spec @ '': missing required capabilities''))
      else if \<not> spec_requires_parsed spec \<subseteq> provided_parsed_keys c
      then Inl (ValueError (''Step '' @ spec_step_id spec @ '': missing required parsed keys''))
      else Inr ())"

definition LEGACY_ATTRIBUTE_KEYS :: "string list" where
  "LEGACY_ATTRIBUTE_KEYS = [''mode'', ''destination_path'', ''fixed_value'', ''source_path'',
     ''pattern'', ''destination_template'', ''regex_flags'']"

definition update_attribute_has_guaranteed_write :: "jdict \<Rightarrow> bool" where
  "update_attribute_has_guaranteed_write config =
     (let entries =
        (case map_of config ''attributes'' of
           Some (JList xs) \<Rightarrow> xs
         | _ \<Rightarrow> if list_ex (\<lambda>k. k \<in> fst ` set config) LEGACY_ATTRIBUTE_KEYS then [JObj config] else [])
      in list_ex (\<lambda>e. case e of
            JObj d \<Rightarrow> normalised_is (dget d ''mode'' (JStr ''fixed'')) ''fixed''
          | _ \<Rightarrow> False) entries)"

definition PER_DEVICE_ATTRIBUTE_STEPS :: "string set" where
  "PER_DEVICE_ATTRIBUTE_STEPS = {''get-ise-tacacs-key'', ''add-to-ise''}"

text \<open>\<open>str(config.get(k) or dflt).strip().lower() == word\<close>\<close>

definition config_or_is :: "jdict \<Rightarrow> string \<Rightarrow> string \<Rightarrow> string \<Rightarrow> bool" where
  "config_or_is config k dflt word =
     (let v = dget config k JNull in normalised_is (if truthy v then v else JStr dflt) word)"

definition effective_produces :: "step_capability_spec \<Rightarrow> string \<Rightarrow> jdict \<Rightarrow> capability set" where
  "effective_produces spec step_type config =
     (if step_type = ''get-device-configs'' then
        (if config_or_is config ''config_format'' ''both'' ''running'' then {RUNNING_CONFIG}
         else if config_or_is config ''config_format'' ''both'' ''startup'' then {STARTUP_CONFIG}
         else {RUNNING_CONFIG, STARTUP_CONFIG})
      else if step_type = ''render-jinja-template'' then {PARSED}
      else if step_type = ''update-attribute'' then
        (if update_attribute_has_guaranteed_write config then {ATTRIBUTES} else {})
      else if step_type = ''encrypt-attribute'' \<or> step_type = ''decrypt-attribute'' then {}
      else if step_type \<in> PER_DEVICE_ATTRIBUTE_STEPS then {}
      else if step_type = ''run-command'' \<or> step_type = ''run-catalyst-center-command'' then {}
      else spec_produces spec)"

definition check_device :: "step_capability_spec \<Rightarrow> capability set \<Rightarrow> unit \<Rightarrow> string \<times> device_context \<Rightarrow>
    unit res" where
  "check_device spec produces u kv =
     (if \<not> produces \<subseteq> dev_capabilities (snd kv)
      then Inl (RuntimeError (''Step '' @ spec_step_id spec @ '' expected produces but device ''
             @ fst kv @ '' is missing them on the success path''))
      else if spec_consumes spec \<inter> dev_capabilities (snd kv) \<noteq> {}
      then Inl (RuntimeError (''Step '' @ spec_step_id spec @ '' declared consumes but device ''
             @ fst kv @ '' still has them on the success path''))
      else Inr ())"

definition post_step_guard :: "step_capability_spec \<Rightarrow> workflow_context \<Rightarrow> step_outcome list \<Rightarrow>
    capability set option \<Rightarrow> unit res" where
  "post_step_guard spec input outcomes expected =
     res_bind (assert_no_newly_failed_on_success (spec_step_id spec) input outcomes) (\<lambda>_.
       let produces = (case expected of Some e \<Rightarrow> e | None \<Rightarrow> spec_produces spec) in
       case success_of outcomes of
         None \<Rightarrow> Inr ()
       | Some s \<Rightarrow>
           res_fold (check_device spec produces) ()
             (filter (\<lambda>kv. fst kv \<in> fst ` set (devices input)) (devices (outcome_context s))))"

section \<open>Static attributes\<close>

definition RUN_INPUT_BAG_NAME :: string where
  "RUN_INPUT_BAG_NAME = ''run_input''"

definition seed_device :: "jdict \<Rightarrow> device_context \<Rightarrow> device_context" where
  "seed_device run_inputs d =
     (if RUN_INPUT_BAG_NAME \<in> fst ` set (attribute_bags d) then d
      else d\<lparr>attribute_bags := AList.update RUN_INPUT_BAG_NAME run_inputs (attribute_bags d)\<rparr>)"

definition seed_run_input_bag :: "workflow_context \<Rightarrow> jdict \<Rightarrow> workflow_context" where
  "seed_run_input_bag c run_inputs =
     (if run_inputs = [] then c
      else if list_all (\<lambda>(_, d). RUN_INPUT_BAG_NAME \<in> fst ` set (attribute_bags d)) (devices c) then c
      else c\<lparr>devices := map (\<lambda>(i, d). (i, seed_device run_inputs d)) (devices c)\<rparr>)"

section \<open>Step status and exception classes\<close>

definition workflow_level_failure :: "step_outcome option \<Rightarrow> bool" where
  "workflow_level_failure outcome =
     (case outcome of
        None \<Rightarrow> False
      | Some f \<Rightarrow>
          list_ex (\<lambda>(k, v). length ''.git_operation'' \<le> length k
              \<and> drop (length k - length ''.git_operation'') k = ''.git_operation''
              \<and> (case v of JObj d \<Rightarrow> map_of d ''success'' = Some (JBool False) | _ \<Rightarrow> False))
            (metadata (outcome_context f)))"

definition device_count :: "step_outcome option \<Rightarrow> nat" where
  "device_count outcome = (case outcome of None \<Rightarrow> 0 | Some f \<Rightarrow> length (devices (outcome_context f)))"

definition derive_step_result_status :: "step_outcome list \<Rightarrow> string" where
  "derive_step_result_status outcomes =
     (let s = device_count (success_of outcomes); f = device_count (failure_of outcomes) in
      if 0 < f \<and> 0 < s then ''partial''
      else if 0 < f \<and> s = 0 then ''failed''
      else if workflow_level_failure (failure_of outcomes) \<and> s = 0 then ''failed''
      else ''success'')"

fun exn_message :: "py_exn \<Rightarrow> string" where
  "exn_message (ValueError m) = m"
| "exn_message (GraphCycleError ids) = ''Workflow graph contains a cycle''"
| "exn_message (RuntimeError m) = m"
| "exn_message (RunAlreadyStarted m) = m"
| "exn_message (StepResultExistsError m) = m"
| "exn_message (KeyError m) = m"
| "exn_message IndexError = ''list index out of range''"
| "exn_message (AccessDeniedError m) = m"
| "exn_message (ConflictError m) = m"
| "exn_message (NotFoundError m) = m"
| "exn_message (ValidationFailedError m) = m"
| "exn_message (RunInputValidationError m) = m"
| "exn_message (OtherError m) = m"

text \<open>\<open>type(exc).__name__\<close>; \<open>OtherError\<close> stands for any other class and carries its name.\<close>

fun exn_class :: "py_exn \<Rightarrow> string" where
  "exn_class (ValueError _) = ''ValueError''"
| "exn_class (GraphCycleError _) = ''GraphCycleError''"
| "exn_class (RuntimeError _) = ''RuntimeError''"
| "exn_class (RunAlreadyStarted _) = ''RunAlreadyStarted''"
| "exn_class (StepResultExistsError _) = ''StepResultExistsError''"
| "exn_class (KeyError _) = ''KeyError''"
| "exn_class IndexError = ''IndexError''"
| "exn_class (AccessDeniedError _) = ''AccessDeniedError''"
| "exn_class (ConflictError _) = ''ConflictError''"
| "exn_class (NotFoundError _) = ''NotFoundError''"
| "exn_class (ValidationFailedError _) = ''ValidationFailedError''"
| "exn_class (RunInputValidationError _) = ''RunInputValidationError''"
| "exn_class (OtherError c) = c"

definition or_default :: "string \<Rightarrow> string \<Rightarrow> string" where
  "or_default s dflt = (if s = '''' then dflt else s)"

definition classify_step_exception :: "py_exn \<Rightarrow> string \<times> string" where
  "classify_step_exception e =
     (if is_value_error e
      then (''configuration'', or_default (exn_message e) ''This step's configuration is invalid.'')
      else if is_runtime_error e
      then (''execution'', or_default (exn_message e) ''This step failed to complete.'')
      else (''internal'', ''An unexpected internal error occurred while running this step.''))"


section \<open>The step contract\<close>

lemma check_devices_fold:
  "case res_fold (check_device spec produces) () kvs of
     Inl e \<Rightarrow> is_runtime_error e \<and> \<not> (\<forall>kv \<in> set kvs. produces \<subseteq> dev_capabilities (snd kv)
        \<and> spec_consumes spec \<inter> dev_capabilities (snd kv) = {})
   | Inr _ \<Rightarrow> (\<forall>kv \<in> set kvs. produces \<subseteq> dev_capabilities (snd kv)
        \<and> spec_consumes spec \<inter> dev_capabilities (snd kv) = {})"
proof (induction kvs)
  case (Cons kv kvs)
  then show ?case by (auto simp: check_device_def split: sum.splits)
qed simp

lemma newly_failed_Nil_iff:
  "newly_failed before after = [] \<longleftrightarrow>
     (\<forall>(i, d) \<in> set (devices after). \<forall>b. map_of (devices before) i = Some b \<longrightarrow>
        dev_status d = FAILED \<longrightarrow> dev_status b = FAILED)"
  by (fastforce simp: newly_failed_def filter_empty_conv split: option.splits)

text \<open>The devices of a success outcome that the step received keep the step's promises.\<close>

definition promises_kept :: "step_capability_spec \<Rightarrow> capability set \<Rightarrow> workflow_context \<Rightarrow>
    workflow_context \<Rightarrow> bool" where
  "promises_kept spec produces input after \<longleftrightarrow>
     (\<forall>(i, d) \<in> set (devices after). \<forall>b. map_of (devices input) i = Some b \<longrightarrow>
        (dev_status d = FAILED \<longrightarrow> dev_status b = FAILED)
        \<and> produces \<subseteq> dev_capabilities d \<and> spec_consumes spec \<inter> dev_capabilities d = {})"

lemma promises_kept_iff:
  "promises_kept spec produces input after \<longleftrightarrow> newly_failed input after = []
     \<and> (\<forall>kv \<in> set (filter (\<lambda>kv. fst kv \<in> fst ` set (devices input)) (devices after)).
          produces \<subseteq> dev_capabilities (snd kv) \<and> spec_consumes spec \<inter> dev_capabilities (snd kv) = {})"
proof -
  have "i \<in> fst ` set (devices input) \<longleftrightarrow> (\<exists>b. map_of (devices input) i = Some b)" for i
    using key_map_of_Some map_of_Some_key by metis
  then show ?thesis unfolding promises_kept_def newly_failed_Nil_iff case_prod_beta set_filter by blast
qed

subsection \<open>Example step\<close>

definition example_input :: workflow_context where
  "example_input = (empty_context ''run'' ''wf'')\<lparr>devices :=
     [(''r1'', (new_device ''r1'' ''r1'' ''r1'')\<lparr>dev_capabilities := {IDENTITY}\<rparr>)]\<rparr>"

definition example_spec :: step_capability_spec where
  "example_spec = \<lparr>spec_step_id = ''s'', spec_requires = {IDENTITY}, spec_produces = {PARSED},
     spec_consumes = {}, spec_requires_parsed = {}\<rparr>"

definition example_outcome :: step_outcome where
  "example_outcome = \<lparr>outcome_name = ''success'', outcome_context = example_input,
     outcome_summary = None, outcome_failure = None\<rparr>"

text \<open>C15. The guards decide the step contract. Before a step: nothing is raised exactly when the
  context has no devices or every device has the required capabilities and parser keys, else a
  \<open>ValueError\<close>. After a step: nothing is raised exactly when every device that came in and
  leaves on the success path has the promised capabilities, none of the consumed ones, and was
  not turned into a failed one, else a \<open>RuntimeError\<close>.\<close>

theorem step_guards_decide:
  "(case pre_step_guard spec c of
      Inr _ \<Rightarrow> \<forall>d \<in> snd ` set (devices c). spec_requires spec \<subseteq> dev_capabilities d
                 \<and> spec_requires_parsed spec \<subseteq> fst ` set (dev_parsed d)
    | Inl e \<Rightarrow> is_value_error e \<and> (\<exists>d \<in> snd ` set (devices c). \<not> spec_requires spec \<subseteq> dev_capabilities d
                 \<or> \<not> spec_requires_parsed spec \<subseteq> fst ` set (dev_parsed d)))
   \<and> (case post_step_guard spec c outcomes (Some produces) of
      Inr _ \<Rightarrow> (\<forall>s. success_of outcomes = Some s \<longrightarrow> promises_kept spec produces c (outcome_context s))
    | Inl e \<Rightarrow> is_runtime_error e
        \<and> (\<exists>s. success_of outcomes = Some s \<and> \<not> promises_kept spec produces c (outcome_context s)))"
proof
  show "case pre_step_guard spec c of
      Inr _ \<Rightarrow> \<forall>d \<in> snd ` set (devices c). spec_requires spec \<subseteq> dev_capabilities d
                 \<and> spec_requires_parsed spec \<subseteq> fst ` set (dev_parsed d)
    | Inl e \<Rightarrow> is_value_error e \<and> (\<exists>d \<in> snd ` set (devices c). \<not> spec_requires spec \<subseteq> dev_capabilities d
                 \<or> \<not> spec_requires_parsed spec \<subseteq> fst ` set (dev_parsed d))"
    by (auto simp: pre_step_guard_def provided_capabilities_def provided_parsed_keys_def
        le_INF_iff subset_iff split: if_splits)
next
  show "case post_step_guard spec c outcomes (Some produces) of
      Inr _ \<Rightarrow> (\<forall>s. success_of outcomes = Some s \<longrightarrow> promises_kept spec produces c (outcome_context s))
    | Inl e \<Rightarrow> is_runtime_error e
        \<and> (\<exists>s. success_of outcomes = Some s \<and> \<not> promises_kept spec produces c (outcome_context s))"
  proof (cases "success_of outcomes")
    case (Some s)
    let ?kvs = "filter (\<lambda>kv. fst kv \<in> fst ` set (devices c)) (devices (outcome_context s))"
    show ?thesis using Some check_devices_fold [where spec = spec and produces = produces and kvs = ?kvs]
      by (auto simp: post_step_guard_def assert_no_newly_failed_on_success_def promises_kept_iff
          split: sum.splits)
  qed (simp add: post_step_guard_def assert_no_newly_failed_on_success_def)
qed

lemma seed_device_bag:
  "map_of (attribute_bags (seed_device ri d)) b =
     (if b = RUN_INPUT_BAG_NAME \<and> map_of (attribute_bags d) b = None then Some ri
      else map_of (attribute_bags d) b)"
  by (auto simp: seed_device_def map_of_None_iff)

lemma seed_run_input_bag_devices:
  "ri \<noteq> [] \<Longrightarrow> devices (seed_run_input_bag c ri) = map (\<lambda>(i, d). (i, seed_device ri d)) (devices c)"
  by (auto simp: seed_run_input_bag_def list_all_iff seed_device_def intro!: map_idI [symmetric])


theorem step_guards_decide_witness:
  "pre_step_guard example_spec example_input = Inr ()
    \<and> (\<exists>s. success_of [example_outcome] = Some s
         \<and> \<not> promises_kept example_spec {PARSED} example_input (outcome_context s))"
proof -
  have "pre_step_guard example_spec example_input = Inr ()" by code_simp
  moreover have "isl (post_step_guard example_spec example_input [example_outcome] (Some {PARSED}))"
    by code_simp
  ultimately show ?thesis
    using step_guards_decide [where spec = example_spec and c = example_input
        and outcomes = "[example_outcome]" and produces = "{PARSED}"]
    by (auto simp: isl_def)
qed

text \<open>Seeding the run inputs gives every device the \<open>run_input\<close> bag, keeps every bag a
  device already has, changes nothing else, and a second seeding changes nothing.\<close>

lemma seed_run_input_bag_correct:
  assumes "ri \<noteq> []"
  shows "\<exists>f. seed_run_input_bag c ri = c\<lparr>devices := map (\<lambda>(i, d). (i, f d)) (devices c)\<rparr>
    \<and> (\<forall>d b. map_of (attribute_bags (f d)) b =
          (if b = RUN_INPUT_BAG_NAME \<and> map_of (attribute_bags d) b = None then Some ri
           else map_of (attribute_bags d) b))
    \<and> (\<forall>d. (f d)\<lparr>attribute_bags := attribute_bags d\<rparr> = d)
    \<and> seed_run_input_bag (seed_run_input_bag c ri) ri = seed_run_input_bag c ri"
proof (intro exI conjI)
  have rest: "seed_run_input_bag c ri = c\<lparr>devices := devices (seed_run_input_bag c ri)\<rparr>" for c
    by (simp add: seed_run_input_bag_def)
  show "seed_run_input_bag c ri = c\<lparr>devices := map (\<lambda>(i, d). (i, seed_device ri d)) (devices c)\<rparr>"
    using rest seed_run_input_bag_devices [OF assms] by metis
  then have "list_all (\<lambda>(_, d). RUN_INPUT_BAG_NAME \<in> fst ` set (attribute_bags d))
      (devices (seed_run_input_bag c ri))"
    by (auto simp: list_all_iff seed_device_def)
  then show "seed_run_input_bag (seed_run_input_bag c ri) ri = seed_run_input_bag c ri"
    by (subst seed_run_input_bag_def) simp
qed (auto simp: seed_device_bag, simp add: seed_device_def)

end
