(* ===== verification/Run_Store.thy ===== *)
theory Run_Store
  imports Workflow_Context
begin

text \<open>
  \<open>repositories/run_repository.py\<close> over the tables of \<open>core/models/runs.py\<close>: runs, step
  results and device groups. A table is the list of its rows in insertion order; an id is the
  next value of the table's sequence and is never handed out twice. Every repository method is one
  committed transaction, so it is one function from database state to database state.

  A \<open>fields\<close> mapping (column name to value) is a list of \<open>run_field\<close> assignments. Time stamps
  are integers supplied by the caller.
\<close>

section \<open>Tables\<close>

record run_row =
  run_id :: nat
  run_uuid :: string
  run_workflow_id :: nat
  triggered_by_id :: "nat option"
  run_status :: string
  trigger_type :: string
  current_node_id :: "string option"
  debug_message :: "string option"
  approval_state :: "jdict option"
  run_device_ids :: "string list"
  run_inputs :: jdict
  hatchet_run_id :: "string option"
  change_request_id :: "nat option"
  parent_run_id :: "nat option"
  ancestor_workflow_ids :: "nat list option"
  run_ai_result_node_id :: "string option"
  run_error_message :: "string option"
  run_error_category :: "string option"
  run_error_id :: "string option"
  run_started_at :: "int option"
  run_finished_at :: "int option"
  run_created_at :: int

record step_row =
  sr_id :: nat
  sr_run_id :: nat
  sr_node_id :: string
  sr_type :: string
  sr_name :: string
  sr_status :: string
  sr_started_at :: "int option"
  sr_finished_at :: "int option"
  sr_output :: "json option"
  sr_error_message :: "string option"
  sr_error_category :: "string option"
  sr_error_id :: "string option"
  sr_failure :: "failure_info option"

record group_row =
  dg_run_id :: nat
  dg_child_index :: nat
  dg_device_names :: "string list"
  dg_status :: string
  dg_node_states :: "(string, string) dict"
  dg_error_message :: "string option"
  dg_started_at :: "int option"
  dg_finished_at :: "int option"

record db =
  runs :: "run_row list"
  steps :: "step_row list"
  groups :: "group_row list"
  next_run :: nat
  next_step :: nat

definition TERMINAL_RUN_STATUSES :: "string set" where
  "TERMINAL_RUN_STATUSES = {''success'', ''failed'', ''cancelled''}"

definition ACTIVE_RUN_STATUSES :: "string set" where
  "ACTIVE_RUN_STATUSES = {''pending'', ''running'', ''paused''}"

definition TERMINAL_STEP_STATUSES :: "string set" where
  "TERMINAL_STEP_STATUSES = {''success'', ''failed'', ''skipped''}"

definition STEP_ROW_MESSAGE_MAX :: nat where
  "STEP_ROW_MESSAGE_MAX = 4000"

section \<open>Runs\<close>

definition create_run :: "db \<Rightarrow> string \<Rightarrow> nat \<Rightarrow> nat option \<Rightarrow> string \<Rightarrow> string list \<Rightarrow> jdict \<Rightarrow>
    nat option \<Rightarrow> nat list option \<Rightarrow> int \<Rightarrow> db \<times> run_row" where
  "create_run s uuid workflow_id triggered_by trigger device_ids inputs parent ancestors now =
     (let r = \<lparr>run_id = next_run s, run_uuid = uuid, run_workflow_id = workflow_id,
            triggered_by_id = triggered_by, run_status = ''pending'', trigger_type = trigger,
            current_node_id = None, debug_message = None, approval_state = None,
            run_device_ids = device_ids, run_inputs = inputs, hatchet_run_id = None,
            change_request_id = None, parent_run_id = parent, ancestor_workflow_ids = ancestors, run_ai_result_node_id = None,
            run_error_message = None, run_error_category = None, run_error_id = None,
            run_started_at = None, run_finished_at = None, run_created_at = now\<rparr>
      in (s\<lparr>runs := runs s @ [r], next_run := next_run s + 1\<rparr>, r))"

definition get_run :: "db \<Rightarrow> nat \<Rightarrow> run_row option" where
  "get_run s i = List.find (\<lambda>r. run_id r = i) (runs s)"

definition list_children :: "db \<Rightarrow> nat \<Rightarrow> run_row list" where
  "list_children s i = filter (\<lambda>r. parent_run_id r = Some i) (runs s)"

datatype run_field =
    HatchetRunId "string option" | ErrorMessage "string option" | ErrorCategory "string option"
  | ErrorId "string option" | StartedAt "int option" | FinishedAt "int option"
  | CurrentNodeId "string option" | DebugMessage "string option" | ApprovalState "jdict option"

fun set_field :: "run_field \<Rightarrow> run_row \<Rightarrow> run_row" where
  "set_field (HatchetRunId v) r = r\<lparr>hatchet_run_id := v\<rparr>"
| "set_field (ErrorMessage v) r = r\<lparr>run_error_message := v\<rparr>"
| "set_field (ErrorCategory v) r = r\<lparr>run_error_category := v\<rparr>"
| "set_field (ErrorId v) r = r\<lparr>run_error_id := v\<rparr>"
| "set_field (StartedAt v) r = r\<lparr>run_started_at := v\<rparr>"
| "set_field (FinishedAt v) r = r\<lparr>run_finished_at := v\<rparr>"
| "set_field (CurrentNodeId v) r = r\<lparr>current_node_id := v\<rparr>"
| "set_field (DebugMessage v) r = r\<lparr>debug_message := v\<rparr>"
| "set_field (ApprovalState v) r = r\<lparr>approval_state := v\<rparr>"

text \<open>The \<open>WHERE\<close> guard of \<open>transition_run\<close>: the explicit source statuses, or "not terminal".\<close>

definition transition_guard :: "string set option \<Rightarrow> run_row \<Rightarrow> bool" where
  "transition_guard from_statuses r =
     (case from_statuses of
        Some fs \<Rightarrow> run_status r \<in> fs
      | None \<Rightarrow> run_status r \<notin> TERMINAL_RUN_STATUSES)"

definition transition_values :: "string \<Rightarrow> run_field list \<Rightarrow> run_row \<Rightarrow> run_row" where
  "transition_values to_status flds r =
     (let r' = (foldl (\<lambda>r f. set_field f r) r flds)\<lparr>run_status := to_status\<rparr>
      in if to_status \<in> TERMINAL_RUN_STATUSES
         then r'\<lparr>current_node_id := None, approval_state := None\<rparr> else r')"

definition transition_run :: "db \<Rightarrow> nat \<Rightarrow> string \<Rightarrow> string set option \<Rightarrow> run_field list \<Rightarrow> db \<times> bool" where
  "transition_run s i to_status from_statuses flds =
     (let hit = (\<lambda>r. run_id r = i \<and> transition_guard from_statuses r)
      in (s\<lparr>runs := map (\<lambda>r. if hit r then transition_values to_status flds r else r) (runs s)\<rparr>,
          length (filter hit (runs s)) = 1))"

definition record_hatchet_run_id :: "db \<Rightarrow> nat \<Rightarrow> string \<Rightarrow> db" where
  "record_hatchet_run_id s i h =
     s\<lparr>runs := map (\<lambda>r. if run_id r = i then r\<lparr>hatchet_run_id := Some h\<rparr> else r) (runs s)\<rparr>"

text \<open>\<open>update_run_status\<close>: the non-\<open>None\<close> arguments are the fields; an approval state is
  cleared only on request.\<close>

definition update_run_status :: "db \<Rightarrow> nat \<Rightarrow> string \<Rightarrow> run_field list \<Rightarrow> bool \<Rightarrow> db" where
  "update_run_status s i status flds clear_approval_state =
     fst (transition_run s i status None
            (flds @ (if clear_approval_state \<and> \<not> list_ex (\<lambda>f. case f of ApprovalState _ \<Rightarrow> True | _ \<Rightarrow> False) flds
                       then [ApprovalState None] else [])))"

definition finalise_step :: "nat \<Rightarrow> string \<Rightarrow> int \<Rightarrow> step_row \<Rightarrow> step_row" where
  "finalise_step i message now x =
     (if sr_run_id x = i \<and> sr_status x = ''running''
      then x\<lparr>sr_status := ''failed'', sr_error_message := Some (take STEP_ROW_MESSAGE_MAX message),
             sr_error_category := Some ''internal'', sr_finished_at := Some now\<rparr>
      else if sr_run_id x = i \<and> sr_status x = ''pending''
      then x\<lparr>sr_status := ''skipped'', sr_finished_at := Some now\<rparr>
      else x)"

definition finalise_open_step_results :: "db \<Rightarrow> nat \<Rightarrow> string \<Rightarrow> int \<Rightarrow> db" where
  "finalise_open_step_results s i message now = s\<lparr>steps := map (finalise_step i message now) (steps s)\<rparr>"

definition has_active_runs :: "db \<Rightarrow> nat \<Rightarrow> bool" where
  "has_active_runs s w = list_ex (\<lambda>r. run_workflow_id r = w \<and> run_status r \<in> ACTIVE_RUN_STATUSES) (runs s)"

definition list_active_run_ids :: "db \<Rightarrow> nat set" where
  "list_active_run_ids s = set (map run_id (filter (\<lambda>r. run_status r \<in> ACTIVE_RUN_STATUSES) (runs s)))"

definition list_active_runs_older_than :: "db \<Rightarrow> int \<Rightarrow> run_row list" where
  "list_active_runs_older_than s cutoff =
     filter (\<lambda>r. run_status r \<in> ACTIVE_RUN_STATUSES \<and> run_created_at r < cutoff) (runs s)"

section \<open>Step results\<close>

text \<open>The unique index \<open>uq_step_results_run_node\<close> and the foreign key to the run both surface as
  an \<open>IntegrityError\<close>.\<close>

definition create_step_result :: "db \<Rightarrow> nat \<Rightarrow> string \<Rightarrow> string \<Rightarrow> string \<Rightarrow> (db \<times> step_row) res" where
  "create_step_result s i node_id step_type step_name =
     (if list_ex (\<lambda>x. sr_run_id x = i \<and> sr_node_id x = node_id) (steps s) \<or> get_run s i = None
      then Inl (StepResultExistsError (''run already has a step result for node '' @ node_id))
      else let x = \<lparr>sr_id = next_step s, sr_run_id = i, sr_node_id = node_id, sr_type = step_type,
                    sr_name = step_name, sr_status = ''pending'', sr_started_at = None,
                    sr_finished_at = None, sr_output = None, sr_error_message = None,
                    sr_error_category = None, sr_error_id = None, sr_failure = None\<rparr>
           in Inr (s\<lparr>steps := steps s @ [x], next_step := next_step s + 1\<rparr>, x))"

record step_values =
  v_output :: "json option"
  v_error_message :: "string option"
  v_error_category :: "string option"
  v_error_id :: "string option"
  v_failure :: "failure_info option"
  v_started_at :: "int option"
  v_finished_at :: "int option"

definition no_values :: step_values where
  "no_values = \<lparr>v_output = None, v_error_message = None, v_error_category = None,
     v_error_id = None, v_failure = None, v_started_at = None, v_finished_at = None\<rparr>"

text \<open>\<open>{k: v for k, v in candidates.items() if v is not None}\<close> and the new status.\<close>

definition write_step :: "string \<Rightarrow> step_values \<Rightarrow> step_row \<Rightarrow> step_row" where
  "write_step status v x =
     x\<lparr>sr_status := status,
       sr_output := (case v_output v of None \<Rightarrow> sr_output x | y \<Rightarrow> y),
       sr_error_message := (case v_error_message v of None \<Rightarrow> sr_error_message x | y \<Rightarrow> y),
       sr_error_category := (case v_error_category v of None \<Rightarrow> sr_error_category x | y \<Rightarrow> y),
       sr_error_id := (case v_error_id v of None \<Rightarrow> sr_error_id x | y \<Rightarrow> y),
       sr_failure := (case v_failure v of None \<Rightarrow> sr_failure x | y \<Rightarrow> y),
       sr_started_at := (case v_started_at v of None \<Rightarrow> sr_started_at x | y \<Rightarrow> y),
       sr_finished_at := (case v_finished_at v of None \<Rightarrow> sr_finished_at x | y \<Rightarrow> y)\<rparr>"

definition run_cancelled :: "db \<Rightarrow> nat \<Rightarrow> bool" where
  "run_cancelled s i = list_ex (\<lambda>r. run_id r = i \<and> run_status r = ''cancelled'') (runs s)"

definition step_frozen :: "db \<Rightarrow> step_row \<Rightarrow> bool" where
  "step_frozen s x \<longleftrightarrow> sr_status x \<in> TERMINAL_STEP_STATUSES \<and> run_cancelled s (sr_run_id x)"

definition update_step_result :: "db \<Rightarrow> nat \<Rightarrow> string \<Rightarrow> step_values \<Rightarrow> db" where
  "update_step_result s x_id status v =
     s\<lparr>steps := map (\<lambda>x. if sr_id x = x_id \<and> \<not> step_frozen s x then write_step status v x else x)
                 (steps s)\<rparr>"

definition get_step_results_for_run :: "db \<Rightarrow> nat \<Rightarrow> step_row list" where
  "get_step_results_for_run s i = sort_key sr_id (filter (\<lambda>x. sr_run_id x = i) (steps s))"

definition get_step :: "db \<Rightarrow> nat \<Rightarrow> step_row option" where
  "get_step s x_id = List.find (\<lambda>x. sr_id x = x_id) (steps s)"

section \<open>Device groups\<close>

definition list_device_groups :: "db \<Rightarrow> nat \<Rightarrow> group_row list" where
  "list_device_groups s i = sort_key dg_child_index (filter (\<lambda>g. dg_run_id g = i) (groups s))"

definition new_group :: "nat \<Rightarrow> nat \<times> string list \<Rightarrow> group_row" where
  "new_group i g = \<lparr>dg_run_id = i, dg_child_index = fst g, dg_device_names = snd g,
     dg_status = ''pending'', dg_node_states = [], dg_error_message = None, dg_started_at = None,
     dg_finished_at = None\<rparr>"

text \<open>One transaction: a repeated child index violates the unique constraint and nothing is
  written.\<close>

definition create_device_groups :: "db \<Rightarrow> nat \<Rightarrow> (nat \<times> string list) list \<Rightarrow> db res" where
  "create_device_groups s i gs =
     (let existing = set (map dg_child_index (list_device_groups s i));
          new = filter (\<lambda>g. fst g \<notin> existing) gs
      in if distinct (map fst new) then Inr (s\<lparr>groups := groups s @ map (new_group i) new\<rparr>)
         else Inl (OtherError ''IntegrityError''))"

definition update_group :: "db \<Rightarrow> nat \<Rightarrow> nat \<Rightarrow> (group_row \<Rightarrow> group_row) \<Rightarrow> db" where
  "update_group s i c f =
     s\<lparr>groups := map (\<lambda>g. if dg_run_id g = i \<and> dg_child_index g = c then f g else g) (groups s)\<rparr>"

definition mark_device_group_started :: "db \<Rightarrow> nat \<Rightarrow> nat \<Rightarrow> int \<Rightarrow> db" where
  "mark_device_group_started s i c now =
     update_group s i c (\<lambda>g. g\<lparr>dg_status := ''running'', dg_started_at := Some now\<rparr>)"

definition set_device_group_node_state :: "db \<Rightarrow> nat \<Rightarrow> nat \<Rightarrow> string \<Rightarrow> string \<Rightarrow> db" where
  "set_device_group_node_state s i c node_id st =
     update_group s i c (\<lambda>g. g\<lparr>dg_node_states := AList.update node_id st (dg_node_states g)\<rparr>)"

definition finish_device_group :: "db \<Rightarrow> nat \<Rightarrow> nat \<Rightarrow> string \<Rightarrow> string option \<Rightarrow> int \<Rightarrow> db" where
  "finish_device_group s i c status error now =
     update_group s i c (\<lambda>g. g\<lparr>dg_status := status,
        dg_error_message := (case error of None \<Rightarrow> dg_error_message g | Some m \<Rightarrow> Some m),
        dg_finished_at := Some now\<rparr>)"

section \<open>Deletion\<close>

text \<open>Deleting runs cascades to their step results and groups and clears the parent links.\<close>

definition delete_runs :: "db \<Rightarrow> nat set \<Rightarrow> db" where
  "delete_runs s ids =
     s\<lparr>runs := map (\<lambda>r. if parent_run_id r \<in> Some ` ids then r\<lparr>parent_run_id := None\<rparr> else r)
                 (filter (\<lambda>r. run_id r \<notin> ids) (runs s)),
       steps := filter (\<lambda>x. sr_run_id x \<notin> ids) (steps s),
       groups := filter (\<lambda>g. dg_run_id g \<notin> ids) (groups s)\<rparr>"

definition delete_run :: "db \<Rightarrow> nat \<Rightarrow> db" where
  "delete_run s i = delete_runs s {i}"

definition purgeable :: "int \<Rightarrow> run_row \<Rightarrow> bool" where
  "purgeable cutoff r \<longleftrightarrow> run_status r \<in> TERMINAL_RUN_STATUSES \<and> run_created_at r < cutoff"

definition count_finished_runs_older_than :: "db \<Rightarrow> int \<Rightarrow> nat" where
  "count_finished_runs_older_than s cutoff = length (filter (purgeable cutoff) (runs s))"

text \<open>\<open>ORDER BY id LIMIT batch_size\<close>\<close>

definition purge_batch :: "db \<Rightarrow> int \<Rightarrow> nat \<Rightarrow> nat list" where
  "purge_batch s cutoff batch_size = take batch_size (sort (map run_id (filter (purgeable cutoff) (runs s))))"

lemma filter_map_parent:
  "filter (purgeable cutoff) (map (\<lambda>r. if parent_run_id r \<in> P then r\<lparr>parent_run_id := None\<rparr> else r) rs)
    = map (\<lambda>r. if parent_run_id r \<in> P then r\<lparr>parent_run_id := None\<rparr> else r) (filter (purgeable cutoff) rs)"
  by (induction rs) (auto simp: purgeable_def)

lemma purge_batch_shrinks:
  assumes "purge_batch s cutoff n \<noteq> []"
  shows "length (filter (purgeable cutoff) (runs (delete_runs s (set (purge_batch s cutoff n)))))
    < length (filter (purgeable cutoff) (runs s))"
proof -
  let ?P = "set (purge_batch s cutoff n)" and ?rs = "filter (purgeable cutoff) (runs s)"
  from assms obtain i where i: "i \<in> ?P" by (meson last_in_set)
  then have "i \<in> run_id ` set ?rs" by (auto simp: purge_batch_def dest!: in_set_takeD)
  then obtain r where "r \<in> set ?rs" "run_id r \<in> ?P" using i by blast
  then have "length (filter (\<lambda>r. run_id r \<notin> ?P) ?rs) < length ?rs"
    by (intro length_filter_less [of r]) blast+
  then show ?thesis
    by (simp add: delete_runs_def filter_map_parent conj_commute)
qed

function purge_finished_runs_older_than :: "db \<Rightarrow> int \<Rightarrow> nat \<Rightarrow> nat \<Rightarrow> db \<times> nat" where
  "purge_finished_runs_older_than s cutoff batch_size deleted =
     (let ids = purge_batch s cutoff batch_size in
      if ids = [] then (s, deleted)
      else purge_finished_runs_older_than (delete_runs s (set ids)) cutoff batch_size
             (deleted + length (filter (\<lambda>r. run_id r \<in> set ids) (runs s))))"
  by pat_completeness auto
termination
  by (relation "measure (\<lambda>(s, cutoff, n, deleted). length (filter (purgeable cutoff) (runs s)))")
    (auto intro: purge_batch_shrinks)

declare purge_finished_runs_older_than.simps [simp del]


section \<open>The integrity of the tables\<close>

definition db_ok :: "db \<Rightarrow> bool" where
  "db_ok s \<longleftrightarrow> distinct (map run_id (runs s)) \<and> (\<forall>r \<in> set (runs s). run_id r < next_run s)
     \<and> distinct (map sr_id (steps s)) \<and> (\<forall>x \<in> set (steps s). sr_id x < next_step s)
     \<and> distinct (map (\<lambda>x. (sr_run_id x, sr_node_id x)) (steps s))
     \<and> (\<forall>x \<in> set (steps s). sr_run_id x \<in> run_id ` set (runs s))"

lemma set_field_id [simp]: "run_id (set_field f r) = run_id r"
  by (cases f) simp_all

lemma set_fields_id [simp]: "run_id (foldl (\<lambda>r f. set_field f r) r fs) = run_id r"
  by (induction fs arbitrary: r) simp_all

lemma transition_values_id [simp]: "run_id (transition_values st fs r) = run_id r"
  by (simp add: transition_values_def Let_def)

lemma transition_values_status [simp]: "run_status (transition_values st fs r) = st"
  by (simp add: transition_values_def Let_def)

lemma write_step_keys [simp]:
  "sr_id (write_step st v x) = sr_id x" "sr_run_id (write_step st v x) = sr_run_id x"
  "sr_node_id (write_step st v x) = sr_node_id x" "sr_status (write_step st v x) = st"
  by (simp_all add: write_step_def)

lemma finalise_step_keys [simp]:
  "sr_id (finalise_step i m n x) = sr_id x" "sr_run_id (finalise_step i m n x) = sr_run_id x"
  "sr_node_id (finalise_step i m n x) = sr_node_id x"
  by (simp_all add: finalise_step_def)

text \<open>Updates in place keep the key columns of every table.\<close>

lemma runs_transition [simp]:
  "map run_id (runs (fst (transition_run s i st from fs))) = map run_id (runs s)"
  "steps (fst (transition_run s i st from fs)) = steps s"
  "next_run (fst (transition_run s i st from fs)) = next_run s"
  "next_step (fst (transition_run s i st from fs)) = next_step s"
  by (auto simp: transition_run_def Let_def)

lemma map_fun_same: "(\<And>x. x \<in> set xs \<Longrightarrow> f (g x) = f x) \<Longrightarrow> map f (map g xs) = map f xs"
  by simp

lemma db_okI:
  assumes "db_ok s" and "map run_id (runs t) = map run_id (runs s)"
    and "map (\<lambda>x. (sr_id x, sr_run_id x, sr_node_id x)) (steps t) =
         map (\<lambda>x. (sr_id x, sr_run_id x, sr_node_id x)) (steps s)"
    and "next_run t = next_run s" and "next_step t = next_step s"
  shows "db_ok t"
proof -
  have ids: "run_id ` set (runs t) = run_id ` set (runs s)"
    using arg_cong [OF assms(2), of set] by simp
  have keys: "(\<lambda>x. (sr_id x, sr_run_id x, sr_node_id x)) ` set (steps t) =
      (\<lambda>x. (sr_id x, sr_run_id x, sr_node_id x)) ` set (steps s)"
    using arg_cong [OF assms(3), of set] by simp
  have "map sr_id (steps t) = map sr_id (steps s)"
    using arg_cong [OF assms(3), of "map fst"] by (simp add: o_def)
  moreover have "map (\<lambda>x. (sr_run_id x, sr_node_id x)) (steps t) = map (\<lambda>x. (sr_run_id x, sr_node_id x)) (steps s)"
    using arg_cong [OF assms(3), of "map snd"] by (simp add: o_def)
  moreover have "\<forall>i \<in> run_id ` set (runs s). i < next_run s"
    using assms(1) by (simp add: db_ok_def)
  then have "\<forall>r \<in> set (runs t). run_id r < next_run t" unfolding assms(4) ids [symmetric] by simp
  moreover have "\<forall>x \<in> set (steps t). sr_id x < next_step t \<and> sr_run_id x \<in> run_id ` set (runs t)"
  proof
    fix x assume "x \<in> set (steps t)"
    then have "(sr_id x, sr_run_id x, sr_node_id x) \<in>
        (\<lambda>x. (sr_id x, sr_run_id x, sr_node_id x)) ` set (steps s)" unfolding keys [symmetric] by simp
    then obtain y where "y \<in> set (steps s)" "sr_id x = sr_id y" "sr_run_id x = sr_run_id y" by auto
    then show "sr_id x < next_step t \<and> sr_run_id x \<in> run_id ` set (runs t)"
      using assms(1,5) ids unfolding db_ok_def by auto
  qed
  ultimately show ?thesis using assms(1,2) unfolding db_ok_def by simp
qed

lemma db_ok_transition: "db_ok s \<Longrightarrow> db_ok (fst (transition_run s i st from fs))"
  by (rule db_okI) (simp_all only: runs_transition)

lemma db_ok_update_run_status: "db_ok s \<Longrightarrow> db_ok (update_run_status s i st fs c)"
  by (simp add: update_run_status_def db_ok_transition)

lemma db_ok_record_hatchet: "db_ok s \<Longrightarrow> db_ok (record_hatchet_run_id s i h)"
  by (rule db_okI) (auto simp: record_hatchet_run_id_def)

lemma db_ok_finalise: "db_ok s \<Longrightarrow> db_ok (finalise_open_step_results s i m now)"
  by (rule db_okI) (auto simp: finalise_open_step_results_def)

lemma db_ok_update_step: "db_ok s \<Longrightarrow> db_ok (update_step_result s x st v)"
  by (rule db_okI) (auto simp: update_step_result_def)

lemma db_ok_groups: "db_ok s \<Longrightarrow> db_ok (s\<lparr>groups := g\<rparr>)"
  by (rule db_okI) auto

lemma get_run_mem: "get_run s i = None \<longleftrightarrow> i \<notin> run_id ` set (runs s)"
  by (auto simp: get_run_def find_None_iff)

lemma db_ok_create_step:
  assumes "db_ok s" and "create_step_result s i n t m = Inr (s', x)"
  shows "db_ok s'"
proof -
  from assms(2) have "\<forall>y \<in> set (steps s). \<not> (sr_run_id y = i \<and> sr_node_id y = n)"
    "i \<in> run_id ` set (runs s)" "s' = s\<lparr>steps := steps s @ [x], next_step := next_step s + 1\<rparr>"
    "sr_id x = next_step s" "sr_run_id x = i" "sr_node_id x = n"
    by (auto simp: create_step_result_def get_run_mem list_ex_iff Let_def split: if_splits)
  with assms(1) show ?thesis unfolding db_ok_def by (fastforce simp: less_Suc_eq)
qed

lemma db_ok_create_run:
  assumes "db_ok s" and "create_run s u w tb tt ds ri p a now = (s', r)"
  shows "db_ok s'"
  using assms by (fastforce simp: db_ok_def create_run_def Let_def less_Suc_eq)

lemma delete_runs_ids: "map run_id (runs (delete_runs s ids)) = filter (\<lambda>i. i \<notin> ids) (map run_id (runs s))"
  unfolding delete_runs_def by (simp add: filter_map o_def cong: if_cong map_cong)

lemma db_ok_delete:
  assumes "db_ok s"
  shows "db_ok (delete_runs s ids)"
proof -
  have keys: "run_id ` set (runs (delete_runs s ids)) = run_id ` set (runs s) - ids"
    using arg_cong [OF delete_runs_ids [of s ids], of set] by auto
  have rest: "steps (delete_runs s ids) = filter (\<lambda>x. sr_run_id x \<notin> ids) (steps s)"
    "next_run (delete_runs s ids) = next_run s" "next_step (delete_runs s ids) = next_step s"
    by (simp_all add: delete_runs_def)
  have "\<forall>i \<in> run_id ` set (runs (delete_runs s ids)). i < next_run s"
    using assms unfolding keys db_ok_def by auto
  then have "\<forall>r \<in> set (runs (delete_runs s ids)). run_id r < next_run s" by simp
  with assms show ?thesis
    unfolding db_ok_def rest keys delete_runs_ids by (auto intro: distinct_map_filter)
qed


section \<open>Sticky values\<close>

text \<open>The contract of a store whose final values never change: along any sequence of steps an
  entry with a final value keeps it until the entry is deleted, and a deleted key stays deleted.\<close>

locale sticky_store =
  fixes step :: "'s \<Rightarrow> 's \<Rightarrow> bool"
    and entry :: "'s \<Rightarrow> nat \<Rightarrow> 'v option"
    and fresh :: "'s \<Rightarrow> nat"
    and final :: "'s \<Rightarrow> 'v \<Rightarrow> bool"
    and ok :: "'s \<Rightarrow> bool"
  assumes ok_step: "ok s \<Longrightarrow> step s t \<Longrightarrow> ok t"
    and final_kept: "ok s \<Longrightarrow> step s t \<Longrightarrow> entry s k = Some v \<Longrightarrow> final s v \<Longrightarrow>
      entry t k = None \<or> (entry t k = Some v \<and> final t v)"
    and gone: "ok s \<Longrightarrow> step s t \<Longrightarrow> k < fresh s \<Longrightarrow> entry s k = None \<Longrightarrow> entry t k = None"
    and fresh_mono: "ok s \<Longrightarrow> step s t \<Longrightarrow> fresh s \<le> fresh t"
    and known: "ok s \<Longrightarrow> entry s k = Some v \<Longrightarrow> k < fresh s"
begin

lemma ok_reach: "step\<^sup>*\<^sup>* s t \<Longrightarrow> ok s \<Longrightarrow> ok t"
  by (induction rule: rtranclp_induct) (auto intro: ok_step)

lemma fresh_reach: "step\<^sup>*\<^sup>* s t \<Longrightarrow> ok s \<Longrightarrow> fresh s \<le> fresh t"
proof (induction rule: rtranclp_induct)
  case (step t u)
  then show ?case using fresh_mono [of t u] ok_reach [of s t] by simp
qed simp

lemma gone_forever:
  "step\<^sup>*\<^sup>* s t \<Longrightarrow> ok s \<Longrightarrow> k < fresh s \<Longrightarrow> entry s k = None \<Longrightarrow> entry t k = None"
proof (induction rule: rtranclp_induct)
  case (step t u)
  then have "ok t" "k < fresh t" using ok_reach fresh_reach by (auto intro: less_le_trans)
  with step show ?case using gone by blast
qed simp

lemma final_forever:
  "step\<^sup>*\<^sup>* s t \<Longrightarrow> ok s \<Longrightarrow> entry s k = Some v \<Longrightarrow> final s v \<Longrightarrow>
     entry t k = None \<or> (entry t k = Some v \<and> final t v)"
proof (induction rule: rtranclp_induct)
  case (step t u)
  have "ok t" using ok_reach step.hyps(1) step.prems(1) .
  have "k < fresh t"
    using fresh_reach [OF step.hyps(1) step.prems(1)] known [OF step.prems(1,2)] by simp
  with step \<open>ok t\<close> show ?case using gone final_kept by blast
qed simp

end

section \<open>The run store as a state machine\<close>

text \<open>The source statuses a caller may name: naming a terminal one is allowed only to write a
  note on a run that keeps that status (\<open>RunService._cancel_active_run\<close>).\<close>

definition from_ok :: "string set option \<Rightarrow> string \<Rightarrow> bool" where
  "from_ok from to_status =
     (case from of None \<Rightarrow> True | Some fs \<Rightarrow> fs \<inter> TERMINAL_RUN_STATUSES \<subseteq> {to_status})"

inductive repo_step :: "db \<Rightarrow> db \<Rightarrow> bool" where
  create_run: "create_run s u w tb tt ds ri p a now = (s', r) \<Longrightarrow> repo_step s s'"
| transition: "from_ok src st \<Longrightarrow> repo_step s (fst (transition_run s i st src fs))"
| update_run: "repo_step s (update_run_status s i st fs c)"
| record_id: "repo_step s (record_hatchet_run_id s i h)"
| finalise: "repo_step s (finalise_open_step_results s i m now)"
| create_step: "create_step_result s i n t m = Inr (s', x) \<Longrightarrow> repo_step s s'"
| update_step: "repo_step s (update_step_result s x st v)"
| create_groups: "create_device_groups s i gs = Inr s' \<Longrightarrow> repo_step s s'"
| update_group: "repo_step s (update_group s i c f)"
| delete: "repo_step s (delete_runs s ids)"

inductive_cases repo_stepE: "repo_step s t"

lemma update_run_status_transition:
  "\<exists>fs'. update_run_status s i st fs c = fst (transition_run s i st None fs')"
  unfolding update_run_status_def by blast

lemma get_run_transition:
  "get_run (fst (transition_run s i st from fs)) k =
     map_option (\<lambda>r. if run_id r = i \<and> transition_guard from r then transition_values st fs r else r)
       (get_run s k)"
  unfolding transition_run_def get_run_def Let_def by (simp add: find_key_map [where key = run_id])

definition status_of :: "db \<Rightarrow> nat \<Rightarrow> string option" where
  "status_of s i = map_option run_status (get_run s i)"

lemma get_run_create:
  "db_ok s \<Longrightarrow> create_run s u w tb tt ds ri p a now = (s', r) \<Longrightarrow>
     get_run s' k = (if k = next_run s then Some r else get_run s k)"
proof -
  assume ok: "db_ok s" and new: "create_run s u w tb tt ds ri p a now = (s', r)"
  have "get_run s (next_run s) = None" using ok by (auto simp: get_run_mem db_ok_def)
  moreover from new have "runs s' = runs s @ [r]" "run_id r = next_run s"
    by (auto simp: create_run_def Let_def)
  ultimately show ?thesis by (auto simp: get_run_def find_append split: option.splits)
qed

lemma get_run_delete:
  "get_run (delete_runs s ids) k = (if k \<in> ids then None else
     map_option (\<lambda>r. if parent_run_id r \<in> Some ` ids then r\<lparr>parent_run_id := None\<rparr> else r) (get_run s k))"
proof -
  have "get_run (delete_runs s ids) k =
      map_option (\<lambda>r. if parent_run_id r \<in> Some ` ids then r\<lparr>parent_run_id := None\<rparr> else r)
        (List.find (\<lambda>r. run_id r \<notin> ids \<and> run_id r = k) (runs s))"
    unfolding get_run_def delete_runs_def by (simp add: find_key_map find_filter)
  moreover have "List.find (\<lambda>r. run_id r \<notin> ids \<and> run_id r = k) rs =
      (if k \<in> ids then None else List.find (\<lambda>r. run_id r = k) rs)" for rs :: "run_row list"
    by (induction rs) auto
  ultimately show ?thesis by (simp add: get_run_def)
qed


text \<open>Operations that do not touch the run table.\<close>

lemma runs_untouched [simp]:
  "runs (finalise_open_step_results s i m now) = runs s"
  "runs (update_step_result s x st v) = runs s"
  "runs (update_group s i c f) = runs s"
  "next_run (finalise_open_step_results s i m now) = next_run s"
  "next_run (update_step_result s x st v) = next_run s"
  "next_run (update_group s i c f) = next_run s"
  by (simp_all add: finalise_open_step_results_def update_step_result_def update_group_def)

lemma create_step_result_InrD:
  assumes "create_step_result s i n t m = Inr (s', x)"
  shows "runs s' = runs s" "next_run s' = next_run s" "steps s' = steps s @ [x]"
    "sr_id x = next_step s" "next_step s' = Suc (next_step s)" "groups s' = groups s"
    "sr_run_id x = i" "sr_node_id x = n" "sr_status x = ''pending''"
    "\<forall>y \<in> set (steps s). sr_run_id y = i \<longrightarrow> sr_node_id y \<noteq> n" "i \<in> run_id ` set (runs s)"
  using assms by (auto simp: create_step_result_def Let_def list_ex_iff get_run_mem split: if_splits)

lemma create_device_groups_InrD:
  assumes "create_device_groups s i gs = Inr s'"
  shows "runs s' = runs s" "next_run s' = next_run s" "steps s' = steps s" "next_step s' = next_step s"
  using assms by (auto simp: create_device_groups_def Let_def split: if_splits)

lemma repo_step_ok: "db_ok s \<Longrightarrow> repo_step s t \<Longrightarrow> db_ok t"
  by (erule repo_stepE)
    (auto intro: db_ok_create_run db_ok_transition db_ok_update_run_status db_ok_record_hatchet
      db_ok_finalise db_ok_create_step db_ok_update_step db_ok_delete db_ok_groups
      simp: update_group_def create_device_groups_def Let_def split: if_splits)

lemma status_of_same: "runs t = runs s \<Longrightarrow> status_of t k = status_of s k"
  by (simp add: status_of_def get_run_def)

lemma status_of_transition:
  "status_of (fst (transition_run s i st from fs)) k =
     (case get_run s k of
        None \<Rightarrow> None
      | Some r \<Rightarrow> Some (if k = i \<and> transition_guard from r then st else run_status r))"
proof (cases "get_run s k")
  case (Some r)
  then have "run_id r = k" by (auto simp: get_run_def find_Some_iff)
  with Some show ?thesis by (simp add: status_of_def get_run_transition)
qed (simp add: status_of_def get_run_transition)

lemma status_of_record: "status_of (record_hatchet_run_id s i h) k = status_of s k"
proof -
  have "get_run (record_hatchet_run_id s i h) k =
      map_option (\<lambda>r. if run_id r = i then r\<lparr>hatchet_run_id := Some h\<rparr> else r) (get_run s k)"
    unfolding record_hatchet_run_id_def get_run_def by (simp add: find_key_map [where key = run_id])
  then show ?thesis by (cases "get_run s k") (simp_all add: status_of_def)
qed

lemma status_of_delete: "status_of (delete_runs s ids) k = (if k \<in> ids then None else status_of s k)"
  by (cases "get_run s k") (simp_all add: status_of_def get_run_delete)

lemma status_of_create:
  "db_ok s \<Longrightarrow> create_run s u w tb tt ds ri p a now = (s', r) \<Longrightarrow>
     status_of s' k = (if k = next_run s then Some ''pending'' else status_of s k)"
  by (auto simp: status_of_def get_run_create) (auto simp: create_run_def Let_def)

lemma transition_status_change:
  assumes "from_ok src st"
  shows "status_of (fst (transition_run s i st src fs)) k = status_of s k
    \<or> (\<exists>old new. status_of s k = Some old \<and> status_of (fst (transition_run s i st src fs)) k = Some new \<and>
         (old \<in> TERMINAL_RUN_STATUSES \<longrightarrow> new = old))"
proof (cases "get_run s k")
  case None
  then show ?thesis unfolding status_of_transition by (simp add: status_of_def)
next
  case (Some r)
  then have "status_of s k = Some (run_status r)" by (simp add: status_of_def)
  with Some assms show ?thesis unfolding status_of_transition
    by (auto simp: from_ok_def transition_guard_def split: option.splits)
qed

text \<open>How one repository operation can change the status of run \<open>k\<close>.\<close>

lemma repo_step_status:
  assumes ok: "db_ok s" and step: "repo_step s t"
  shows "status_of t k = status_of s k \<or> status_of t k = None
    \<or> (status_of s k = None \<and> k = next_run s \<and> status_of t k = Some ''pending'')
    \<or> (\<exists>old new. status_of s k = Some old \<and> status_of t k = Some new \<and>
         (old \<in> TERMINAL_RUN_STATUSES \<longrightarrow> new = old))"
  using step
proof (cases rule: repo_step.cases)
  case (create_run u w tb tt ds ri p a now r)
  have "status_of s (next_run s) = None" using ok by (auto simp: status_of_def get_run_mem db_ok_def)
  with status_of_create [OF ok create_run] show ?thesis by auto
next
  case (transition src st i fs)
  then show ?thesis using transition_status_change [of src st s i fs k] by auto
next
  case (update_run i st fs c)
  from update_run_status_transition [of s i st fs c] obtain fs' where
    fs': "update_run_status s i st fs c = fst (transition_run s i st None fs')" by blast
  have "from_ok None st" by (simp add: from_ok_def)
  note change = transition_status_change [OF this, of s i fs' k, folded fs', folded update_run]
  from change show ?thesis by (elim disjE) (intro disjI1, assumption, intro disjI2, assumption)
next
  case (create_step i n t m x)
  then show ?thesis using create_step_result_InrD(1) status_of_same by blast
next
  case (create_groups i gs)
  then show ?thesis using create_device_groups_InrD(1) status_of_same by blast
next
  case (finalise i m now)
  then have "runs t = runs s" by simp
  then show ?thesis using status_of_same by blast
next
  case (update_step x st v)
  then have "runs t = runs s" by simp
  then show ?thesis using status_of_same by blast
next
  case (update_group i c f)
  then have "runs t = runs s" by simp
  then show ?thesis using status_of_same by blast
qed (simp_all add: status_of_record status_of_delete)

lemma repo_step_next: "db_ok s \<Longrightarrow> repo_step s t \<Longrightarrow> next_run s \<le> next_run t \<and> next_step s \<le> next_step t"
  by (erule repo_stepE)
    (auto simp: create_run_def Let_def update_run_status_def record_hatchet_run_id_def
      finalise_open_step_results_def update_step_result_def update_group_def delete_runs_def
      create_device_groups_InrD create_step_result_InrD)

lemma status_of_known: "db_ok s \<Longrightarrow> status_of s k = Some st \<Longrightarrow> k < next_run s"
  by (auto simp: status_of_def get_run_def db_ok_def dest!: find_key_mem)

interpretation run_status: sticky_store repo_step status_of next_run
    "\<lambda>_ st. st \<in> TERMINAL_RUN_STATUSES" db_ok
proof
  show "db_ok t" if "db_ok s" "repo_step s t" for s t using repo_step_ok that .
  show "status_of t k = None \<or> (status_of t k = Some v \<and> v \<in> TERMINAL_RUN_STATUSES)"
    if "db_ok s" "repo_step s t" "status_of s k = Some v" "v \<in> TERMINAL_RUN_STATUSES" for s t k v
    using repo_step_status [OF that(1,2), of k] that(3,4) by auto
  show "status_of t k = None" if "db_ok s" "repo_step s t" "k < next_run s" "status_of s k = None" for s t k
    using repo_step_status [OF that(1,2), of k] that(3,4) by auto
  show "next_run s \<le> next_run t" if "db_ok s" "repo_step s t" for s t using repo_step_next [OF that] ..
  show "k < next_run s" if "db_ok s" "status_of s k = Some v" for s k v using status_of_known that .
qed

text \<open>C17. A finished run stays finished: whatever sequence of repository operations follows, a run
  that is \<open>success\<close>, \<open>failed\<close> or \<open>cancelled\<close> keeps exactly that status until it is deleted,
  so a worker that ends after a cancel cannot turn it into a success.\<close>

theorem terminal_run_status_sticky:
  assumes "repo_step\<^sup>*\<^sup>* s t" and "db_ok s" and "status_of s i = Some st"
    and "st \<in> TERMINAL_RUN_STATUSES"
  shows "db_ok t \<and> (status_of t i = None \<or> status_of t i = Some st)"
  using run_status.final_forever [OF assms] run_status.ok_reach [OF assms(1,2)] by blast


section \<open>Step rows of a cancelled run\<close>

lemma run_cancelled_iff: "db_ok s \<Longrightarrow> run_cancelled s i \<longleftrightarrow> status_of s i = Some ''cancelled''"
proof -
  assume "db_ok s"
  then have dist: "distinct (map run_id (runs s))" by (simp add: db_ok_def)
  have "run_cancelled s i \<longleftrightarrow> (\<exists>r \<in> set (runs s). run_id r = i \<and> run_status r = ''cancelled'')"
    by (simp add: run_cancelled_def list_ex_iff)
  also have "\<dots> \<longleftrightarrow> (\<exists>r. get_run s i = Some r \<and> run_status r = ''cancelled'')"
  proof
    assume "\<exists>r \<in> set (runs s). run_id r = i \<and> run_status r = ''cancelled''"
    then obtain r where r: "r \<in> set (runs s)" "run_id r = i" "run_status r = ''cancelled''" by blast
    then obtain q where q: "get_run s i = Some q" using get_run_mem [of s i] by fastforce
    then have "q \<in> set (runs s)" "run_id q = i" by (auto simp: get_run_def find_Some_iff)
    with r have "q = r" by (intro distinct_map_eq [OF dist]) simp_all
    with q r show "\<exists>r. get_run s i = Some r \<and> run_status r = ''cancelled''" by blast
  qed (auto simp: get_run_def find_Some_iff)
  also have "\<dots> \<longleftrightarrow> status_of s i = Some ''cancelled''" by (auto simp: status_of_def)
  finally show ?thesis .
qed

lemma get_step_map:
  "(\<And>x. sr_id (f x) = sr_id x) \<Longrightarrow> get_step (s\<lparr>steps := map f (steps s)\<rparr>) k = map_option f (get_step s k)"
  unfolding get_step_def by (simp add: find_key_map [where key = sr_id])

lemma get_step_same: "steps t = steps s \<Longrightarrow> get_step t k = get_step s k"
  by (simp add: get_step_def)

lemma get_step_mem: "get_step s k = Some x \<Longrightarrow> x \<in> set (steps s) \<and> sr_id x = k"
  unfolding get_step_def by (rule find_key_mem)

lemma get_step_create:
  assumes "db_ok s" and "create_step_result s i n t m = Inr (s', x)"
  shows "get_step s' k = (if k = next_step s then Some x else get_step s k)"
proof -
  have "get_step s (next_step s) = None"
    using assms(1) by (auto simp: get_step_def find_None_iff db_ok_def)
  then show ?thesis using create_step_result_InrD(3,4) [OF assms(2)]
    by (auto simp: get_step_def find_append split: option.splits)
qed

lemma get_step_delete:
  assumes "db_ok s"
  shows "get_step (delete_runs s ids) k =
    (case get_step s k of None \<Rightarrow> None | Some x \<Rightarrow> if sr_run_id x \<in> ids then None else Some x)"
proof (cases "get_step s k")
  case None
  then have "get_step (delete_runs s ids) k = None"
    by (auto simp: get_step_def delete_runs_def find_None_iff)
  with None show ?thesis by simp
next
  case (Some x)
  note x = get_step_mem [OF Some]
  have uniq: "y = x" if "y \<in> set (steps s)" "sr_id y = k" for y
  proof (rule distinct_map_eq [of sr_id "steps s"])
    show "distinct (map sr_id (steps s))" using assms by (simp add: db_ok_def)
  qed (use x that in simp_all)
  show ?thesis
  proof (cases "get_step (delete_runs s ids) k")
    case None
    then have "\<forall>y \<in> set (steps s). sr_run_id y \<notin> ids \<longrightarrow> sr_id y \<noteq> k"
      by (simp add: get_step_def delete_runs_def find_None_iff) blast
    with x have "sr_run_id x \<in> ids" by blast
    with None Some show ?thesis by simp
  next
    case y: (Some y)
    have "y \<in> set (steps s)" "sr_id y = k" "sr_run_id y \<notin> ids"
      using get_step_mem [OF y] by (simp_all add: delete_runs_def)
    with uniq [of y] Some y show ?thesis by simp
  qed
qed

text \<open>What one repository operation does to a row that a cancel froze.\<close>

lemma repo_step_frozen:
  assumes ok: "db_ok s" and step: "repo_step s t" and x: "get_step s k = Some x" "step_frozen s x"
  shows "get_step t k = None \<or> get_step t k = Some x"
  using step
proof (cases rule: repo_step.cases)
  case (finalise i m now)
  have "finalise_step i m now x = x"
    using x(2) by (auto simp: finalise_step_def step_frozen_def TERMINAL_STEP_STATUSES_def)
  with x(1) show ?thesis unfolding finalise finalise_open_step_results_def
    by (simp add: get_step_map)
next
  case (create_step i n t' m y)
  then show ?thesis using get_step_create [OF ok create_step] x(1) get_step_mem [OF x(1)] ok
    by (auto simp: db_ok_def)
next
  case (update_step y st v)
  then show ?thesis using x unfolding update_step update_step_result_def by (simp add: get_step_map)
next
  case (create_groups i gs)
  then show ?thesis using x(1) get_step_same [OF create_device_groups_InrD(3)] by metis
next
  case (delete ids)
  then show ?thesis using x(1) by (simp add: get_step_delete [OF ok])
qed (use x(1) in \<open>auto simp: create_run_def Let_def update_run_status_def record_hatchet_run_id_def
      update_group_def get_step_def\<close>)

lemma repo_step_gone:
  assumes ok: "db_ok s" and step: "repo_step s t" and x: "get_step s k = None" "k < next_step s"
  shows "get_step t k = None"
  using step
proof (cases rule: repo_step.cases)
  case (finalise i m now)
  with x(1) show ?thesis unfolding finalise finalise_open_step_results_def
    by (simp add: get_step_map)
next
  case (create_step i n t' m y)
  then show ?thesis using get_step_create [OF ok create_step] x by simp
next
  case (update_step y st v)
  then show ?thesis using x unfolding update_step update_step_result_def by (simp add: get_step_map)
next
  case (create_groups i gs)
  then show ?thesis using x(1) get_step_same [OF create_device_groups_InrD(3)] by metis
next
  case (delete ids)
  then show ?thesis using x(1) by (simp add: get_step_delete [OF ok])
qed (use x(1) in \<open>auto simp: create_run_def Let_def update_run_status_def record_hatchet_run_id_def
      update_group_def get_step_def\<close>)

interpretation frozen_steps: sticky_store repo_step get_step next_step step_frozen db_ok
proof
  show "db_ok t" if "db_ok s" "repo_step s t" for s t using repo_step_ok that .
  show "get_step t k = None \<or> (get_step t k = Some v \<and> step_frozen t v)"
    if s: "db_ok s" "repo_step s t" "get_step s k = Some v" "step_frozen s v" for s t k v
  proof (cases "get_step t k")
    case (Some x)
    with repo_step_frozen [OF s] have xv: "get_step t k = Some v" by auto
    have ok: "db_ok t" using repo_step_ok s(1,2) .
    from get_step_mem [OF xv] ok have run: "status_of t (sr_run_id v) \<noteq> None"
      by (auto simp: db_ok_def status_of_def get_run_mem)
    have "status_of s (sr_run_id v) = Some ''cancelled''"
      using s(4) run_cancelled_iff [OF s(1)] by (simp add: step_frozen_def)
    then have "status_of t (sr_run_id v) = None \<or> status_of t (sr_run_id v) = Some ''cancelled''"
      using run_status.final_kept [OF s(1,2)] by (auto simp: TERMINAL_RUN_STATUSES_def)
    with run have "status_of t (sr_run_id v) = Some ''cancelled''" by auto
    then have "step_frozen t v" using s(4) by (simp add: step_frozen_def run_cancelled_iff [OF ok])
    with xv show ?thesis by simp
  qed simp
  show "get_step t k = None" if "db_ok s" "repo_step s t" "k < next_step s" "get_step s k = None" for s t k
    by (rule repo_step_gone [OF that(1,2,4,3)])
  show "next_step s \<le> next_step t" if "db_ok s" "repo_step s t" for s t using repo_step_next [OF that] ..
  show "k < next_step s" if "db_ok s" "get_step s k = Some v" for s k v
    using that get_step_mem [OF that(2)] by (auto simp: db_ok_def)
qed

text \<open>C18. A cancel closes the history: once a run is cancelled, a step row that is \<open>success\<close>,
  \<open>failed\<close> or \<open>skipped\<close> is never changed again in any column, whatever a step that was still
  executing tries to write, until the run is deleted.\<close>

theorem cancelled_run_step_rows_frozen:
  assumes "repo_step\<^sup>*\<^sup>* s t" and "db_ok s" and "get_step s k = Some x"
    and "status_of s (sr_run_id x) = Some ''cancelled''" and "sr_status x \<in> TERMINAL_STEP_STATUSES"
  shows "get_step t k = None \<or> get_step t k = Some x"
proof -
  have "step_frozen s x" using assms(2,4,5) by (simp add: step_frozen_def run_cancelled_iff)
  from frozen_steps.final_forever [OF assms(1-3) this] show ?thesis by blast
qed


subsection \<open>Example database\<close>

definition empty_db :: db where
  "empty_db = \<lparr>runs = [], steps = [], groups = [], next_run = 1, next_step = 1\<rparr>"

definition started_db :: db where
  "started_db = (let (s, r) = create_run empty_db ''u1'' 1 (Some 7) ''manual'' [] [] None None 0;
                     s1 = fst (transition_run s 1 ''running'' (Some {''pending''}) [StartedAt (Some 1)])
                 in case create_step_result s1 1 ''n1'' ''step'' ''Step'' of Inr (s2, x) \<Rightarrow> s2 | Inl _ \<Rightarrow> s1)"

definition cancelled_db :: db where
  "cancelled_db = finalise_open_step_results
     (fst (transition_run started_db 1 ''cancelled'' None [FinishedAt (Some 2)])) 1 ''Cancelled'' 2"

lemma cancelled_db_ok: "db_ok cancelled_db" by code_simp

theorem terminal_run_status_sticky_witness:
  "status_of (update_run_status cancelled_db 1 ''success'' [] False) 1 = Some ''cancelled''"
proof -
  have "repo_step\<^sup>*\<^sup>* cancelled_db (update_run_status cancelled_db 1 ''success'' [] False)"
    by (intro r_into_rtranclp repo_step.update_run)
  moreover have "status_of cancelled_db 1 = Some ''cancelled''" by code_simp
  moreover have "''cancelled'' \<in> TERMINAL_RUN_STATUSES" by code_simp
  ultimately have "status_of (update_run_status cancelled_db 1 ''success'' [] False) 1 = None
      \<or> status_of (update_run_status cancelled_db 1 ''success'' [] False) 1 = Some ''cancelled''"
    using terminal_run_status_sticky [OF _ cancelled_db_ok] by blast
  moreover have "status_of (update_run_status cancelled_db 1 ''success'' [] False) 1 \<noteq> None" by code_simp
  ultimately show ?thesis by blast
qed

theorem cancelled_run_step_rows_frozen_witness:
  "\<exists>x. get_step cancelled_db 1 = Some x
    \<and> (get_step (update_step_result cancelled_db 1 ''success'' no_values) 1 = None
       \<or> get_step (update_step_result cancelled_db 1 ''success'' no_values) 1 = Some x)"
proof -
  have "get_step cancelled_db 1 \<noteq> None" by code_simp
  then obtain x where x: "get_step cancelled_db 1 = Some x" by blast
  have "sr_run_id (the (get_step cancelled_db 1)) = 1"
    "sr_status (the (get_step cancelled_db 1)) \<in> TERMINAL_STEP_STATUSES"
    "status_of cancelled_db 1 = Some ''cancelled''" by code_simp+
  moreover have "repo_step\<^sup>*\<^sup>* cancelled_db (update_step_result cancelled_db 1 ''success'' no_values)"
    by (intro r_into_rtranclp repo_step.update_step)
  ultimately show ?thesis using cancelled_run_step_rows_frozen [OF _ cancelled_db_ok x] x by auto
qed

section \<open>Retention\<close>

lemma purge_batch_ids:
  assumes "db_ok s" and "r \<in> set (runs s)" and "run_id r \<in> set (purge_batch s cutoff n)"
  shows "purgeable cutoff r"
proof -
  from assms(3) obtain q where q: "q \<in> set (runs s)" "purgeable cutoff q" "run_id q = run_id r"
    by (auto simp: purge_batch_def dest!: in_set_takeD)
  have "q = r"
    by (rule distinct_map_eq [of run_id "runs s"]) (use assms(1,2) q in \<open>simp_all add: db_ok_def\<close>)
  with q show ?thesis by simp
qed

lemma filter_split_length:
  "(\<And>x. x \<in> set xs \<Longrightarrow> Q x \<Longrightarrow> P x) \<Longrightarrow>
     length (filter P xs) = length (filter Q xs) + length (filter (\<lambda>x. P x \<and> \<not> Q x) xs)"
  by (induction xs) auto

lemma purge_step:
  assumes "db_ok s" and "ids = purge_batch s cutoff n"
  shows "count_finished_runs_older_than s cutoff =
      length (filter (\<lambda>r. run_id r \<in> set ids) (runs s))
      + count_finished_runs_older_than (delete_runs s (set ids)) cutoff"
    and "map run_id (filter (\<lambda>r. \<not> purgeable cutoff r) (runs (delete_runs s (set ids)))) =
      map run_id (filter (\<lambda>r. \<not> purgeable cutoff r) (runs s))"
proof -
  let ?u = "\<lambda>r. if parent_run_id r \<in> Some ` set ids then r\<lparr>parent_run_id := None\<rparr> else r"
  have runs': "runs (delete_runs s (set ids)) = map ?u (filter (\<lambda>r. run_id r \<notin> set ids) (runs s))"
    by (simp add: delete_runs_def)
  have u: "purgeable cutoff (?u r) = purgeable cutoff r" "run_id (?u r) = run_id r" for r
    by (simp_all add: purgeable_def)
  have hit: "purgeable cutoff r" if "r \<in> set (runs s)" "run_id r \<in> set ids" for r
    using purge_batch_ids [OF assms(1) that(1)] that(2) assms(2) by blast
  have "count_finished_runs_older_than (delete_runs s (set ids)) cutoff =
      length (filter (\<lambda>r. purgeable cutoff r \<and> run_id r \<notin> set ids) (runs s))"
    unfolding count_finished_runs_older_than_def runs' filter_map o_def u length_map filter_filter
    by (simp only: conj_commute)
  then show "count_finished_runs_older_than s cutoff =
      length (filter (\<lambda>r. run_id r \<in> set ids) (runs s))
      + count_finished_runs_older_than (delete_runs s (set ids)) cutoff"
    using filter_split_length [of "runs s" "\<lambda>r. run_id r \<in> set ids" "purgeable cutoff"] hit
    by (simp add: count_finished_runs_older_than_def)
  have "filter (\<lambda>r. run_id r \<notin> set ids \<and> \<not> purgeable cutoff r) (runs s) =
      filter (\<lambda>r. \<not> purgeable cutoff r) (runs s)"
    by (rule filter_cong) (use hit in blast)+
  then show "map run_id (filter (\<lambda>r. \<not> purgeable cutoff r) (runs (delete_runs s (set ids)))) =
      map run_id (filter (\<lambda>r. \<not> purgeable cutoff r) (runs s))"
    unfolding runs' filter_map o_def u map_map filter_filter by simp
qed

text \<open>C19. The retention purge ends and does exactly its job: it removes every finished run older
  than the cutoff and no other run, and returns how many there were.\<close>

theorem purge_removes_exactly:
  assumes "db_ok s" and "0 < batch_size"
    and "purge_finished_runs_older_than s cutoff batch_size deleted = (t, n)"
  shows "db_ok t \<and> map run_id (runs t) = map run_id (filter (\<lambda>r. \<not> purgeable cutoff r) (runs s))
    \<and> n = deleted + count_finished_runs_older_than s cutoff"
  using assms
proof (induction s cutoff batch_size deleted rule: purge_finished_runs_older_than.induct)
  case (1 s cutoff b d)
  let ?ids = "purge_batch s cutoff b"
  show ?case
  proof (cases "?ids = []")
    case True
    then have "sort (map run_id (filter (purgeable cutoff) (runs s))) = []"
      using 1(3) by (simp add: purge_batch_def)
    then have "length (sort (map run_id (filter (purgeable cutoff) (runs s)))) = 0" by simp
    then have none: "filter (purgeable cutoff) (runs s) = []" by (simp only: length_sort length_map length_0_conv)
    then have "filter (\<lambda>r. \<not> purgeable cutoff r) (runs s) = runs s"
      by (auto simp: filter_empty_conv intro: filter_True)
    with none True 1(2,4) show ?thesis
      by (simp add: purge_finished_runs_older_than.simps [of s] count_finished_runs_older_than_def)
  next
    case False
    let ?s = "delete_runs s (set ?ids)" and ?k = "length (filter (\<lambda>r. run_id r \<in> set ?ids) (runs s))"
    have "purge_finished_runs_older_than ?s cutoff b (d + ?k) = (t, n)"
      using 1(4) False by (simp add: purge_finished_runs_older_than.simps [of s] Let_def)
    from 1(1) [OF refl False db_ok_delete [OF 1(2)] 1(3) this]
      purge_step [OF 1(2) refl, of cutoff b] show ?thesis by simp
  qed
qed

theorem purge_removes_exactly_witness:
  "map run_id (runs (fst (purge_finished_runs_older_than cancelled_db 5 500 0))) = []
    \<and> snd (purge_finished_runs_older_than cancelled_db 5 500 0) = 1"
proof -
  obtain t n where run: "purge_finished_runs_older_than cancelled_db 5 500 0 = (t, n)" by fastforce
  have "map run_id (filter (\<lambda>r. \<not> purgeable 5 r) (runs cancelled_db)) = []"
    "count_finished_runs_older_than cancelled_db 5 = 1" by code_simp+
  with purge_removes_exactly [OF cancelled_db_ok _ run] run show ?thesis by simp
qed

end
