(* ===== verification/Step_Runner.thy ===== *)
theory Step_Runner
  imports Context_Merge Guards Run_Store
begin

text \<open>
  \<open>services/execution/step_runner/runner.py\<close>: the walk over the resolved graph. A wave of
  independent steps runs, every step gets the merged outcomes of its parents, its executor runs
  between the capability guards, its outcomes and its status are recorded, and the walk decides
  whether to go on, to skip the rest, or to hand over to the fan-out orchestration.

  The executors of the step registry are a parameter: \<open>env_executor\<close> gives for a step type the
  function that maps configuration, input context, run, node id and database to the database and
  the outcomes or the exception it raises. The database an executor returns is the one the walk
  continues with, so it also carries what other processes committed while the step ran (an
  operator's cancel, another run). Executors are functions, so they cannot mutate the input
  context and the \<open>MANUS_STRICT_CONTEXT\<close> check never fires. Further parameters are the
  serialisation of outcomes for the step row, the classification an exception object carries,
  secret scrubbing, and the clock.

  Inside a wave the model runs the steps one after the other in wave order.
\<close>

section \<open>Parameters and state\<close>

type_synonym executor =
  "jdict \<Rightarrow> workflow_context \<Rightarrow> run_row \<Rightarrow> string \<Rightarrow> db \<Rightarrow> db \<times> step_outcome list res"

record runner_env =
  env_registry :: "string \<Rightarrow> plugin_definition option"
  env_executor :: "string \<Rightarrow> executor option"
  env_serialize :: "step_outcome list \<Rightarrow> json"
  env_carried_failure :: "py_exn \<Rightarrow> failure_info option"
  env_scrub :: "string \<Rightarrow> string"
  env_error_uuid :: "string \<Rightarrow> string"
  env_now :: int
  env_now_iso :: string

record workflow_row =
  wf_id :: nat
  canvas_nodes :: "canvas_node list"
  canvas_edges :: "canvas_edge list"

type_synonym outcome_table = "(string, (string, workflow_context) dict) dict"

record walk =
  w_db :: db
  w_outcomes :: outcome_table
  w_blocked :: "string set"

record fan_out_signal =
  inventory_node_id :: string
  fan_out_config :: jdict
  inventory_outcome :: workflow_context
  signal_outcomes :: outcome_table
  join_node_id :: "string option"

datatype walk_result = Finished bool | FanOut fan_out_signal

definition step_type_of :: "canvas_node \<Rightarrow> string" where
  "step_type_of n = (case node_kind n of None \<Rightarrow> ''unknown'' | Some k \<Rightarrow> k)"

definition step_name_of :: "canvas_node \<Rightarrow> string" where
  "step_name_of n = (case data_title (node_data n) of None \<Rightarrow> step_type_of n | Some t \<Rightarrow> t)"

section \<open>One step\<close>

definition failure_for_step_exception ::
  "runner_env \<Rightarrow> py_exn \<Rightarrow> string \<Rightarrow> failure_info option" where
  "failure_for_step_exception env e category =
     (case env_carried_failure env e of
        Some fi \<Rightarrow> Some fi
      | None \<Rightarrow>
          if category = ''internal''
          then Some \<lparr>fi_phase = ''internal'', fi_kind = ''internal_error'', fi_retryable = False,
                 fi_attempts = None, fi_max_attempts = None, fi_elapsed_ms = None,
                 fi_http_status = None, fi_line = None, fi_exception_type = Some (exn_class e),
                 fi_hint = None\<rparr>
          else None)"

definition first_outcome_failure :: "step_outcome list \<Rightarrow> failure_info option" where
  "first_outcome_failure outcomes =
     (case List.find (\<lambda>x. outcome_failure x \<noteq> None) outcomes of
        None \<Rightarrow> None | Some x \<Rightarrow> outcome_failure x)"

text \<open>\<open>_persist_step_result\<close>: the update, then \<open>refresh\<close>, which raises when the row is gone.\<close>

definition persist_step_result :: "db \<Rightarrow> nat \<Rightarrow> string \<Rightarrow> step_values \<Rightarrow> db res" where
  "persist_step_result s x status v =
     (let s' = update_step_result s x status v in
      case get_step s' x of None \<Rightarrow> Inl (OtherError ''InvalidRequestError'') | Some _ \<Rightarrow> Inr s')"

definition cancel_requested :: "db \<Rightarrow> nat \<Rightarrow> bool res" where
  "cancel_requested s i =
     (case get_run s i of
        None \<Rightarrow> Inl (OtherError ''InvalidRequestError'')
      | Some r \<Rightarrow> Inr (run_status r = ''cancelled''))"

definition parent_contexts :: "string \<Rightarrow> canvas_edge list \<Rightarrow> outcome_table \<Rightarrow> workflow_context list" where
  "parent_contexts n_id es outcomes =
     List.map_filter (\<lambda>e. if edge_target e \<noteq> Some n_id then None
        else map_of (dget outcomes (esrc e) []) (outcome_handle e)) es"

definition assemble_input_context :: "runner_env \<Rightarrow> run_row \<Rightarrow> workflow_row \<Rightarrow> string \<Rightarrow>
    canvas_edge list \<Rightarrow> outcome_table \<Rightarrow> workflow_context res" where
  "assemble_input_context env run flow n_id es outcomes =
     (let parents = parent_contexts n_id es outcomes in
      if parents = [] then Inr (empty_context (run_uuid run) (nat_str (wf_id flow)))
      else merge_workflow_contexts (env_now_iso env) parents)"

definition execute_step :: "runner_env \<Rightarrow> string \<Rightarrow> jdict \<Rightarrow> workflow_context \<Rightarrow> run_row \<Rightarrow> string \<Rightarrow> db \<Rightarrow>
    db \<times> step_outcome list res" where
  "execute_step env step_type config c run n_id s =
     (case env_executor env step_type of
        None \<Rightarrow> (s, Inl (ValueError (''Unknown step type: '' @ py_repr step_type)))
      | Some ex \<Rightarrow>
     (case env_registry env step_type of
        None \<Rightarrow> (s, Inl (ValueError (''Unknown plugin in registry: '' @ py_repr step_type)))
      | Some plugin \<Rightarrow>
     (case res_bind (capability_spec_from_plugin plugin)
             (\<lambda>spec. res_bind (pre_step_guard spec c) (\<lambda>_. Inr spec)) of
        Inl e \<Rightarrow> (s, Inl e)
      | Inr spec \<Rightarrow>
          (let (s', r) = ex config c run n_id s in
           (s', res_bind r (\<lambda>outcomes.
              if outcomes = []
              then Inl (RuntimeError (''Step '' @ py_repr step_type @ '' returned no outcomes''))
              else res_bind (post_step_guard spec c outcomes
                       (Some (effective_produces spec step_type config)))
                     (\<lambda>_. Inr outcomes)))))))"

definition seed_run_inputs :: "run_row \<Rightarrow> step_outcome list \<Rightarrow> step_outcome list" where
  "seed_run_inputs run outcomes =
     (if run_inputs run = [] then outcomes
      else map (\<lambda>x. x\<lparr>outcome_context := seed_run_input_bag (outcome_context x) (run_inputs run)\<rparr>)
             outcomes)"

definition store_step_outcomes :: "outcome_table \<Rightarrow> string \<Rightarrow> step_outcome list \<Rightarrow> outcome_table" where
  "store_step_outcomes outcomes n_id xs =
     AList.update n_id (dict_of (map (\<lambda>x. (outcome_name x, outcome_context x)) xs)) outcomes"

text \<open>The \<open>except\<close> branch of \<open>_execute_and_persist_node\<close>.\<close>

definition persist_failure :: "runner_env \<Rightarrow> string \<Rightarrow> nat \<Rightarrow> walk \<Rightarrow> py_exn \<Rightarrow> walk \<times> bool res" where
  "persist_failure env n_id x w e =
     (let (category, message) = classify_step_exception e in
      case persist_step_result (w_db w) x ''failed''
             (no_values\<lparr>v_error_message := Some (take 4000 (env_scrub env message)),
                v_error_category := Some category, v_error_id := Some (env_error_uuid env n_id),
                v_failure := failure_for_step_exception env e category,
                v_finished_at := Some (env_now env)\<rparr>) of
        Inl e' \<Rightarrow> (w, Inl e')
      | Inr s \<Rightarrow> (w\<lparr>w_db := s\<rparr>, Inr False))"

definition execute_and_persist_node :: "runner_env \<Rightarrow> run_row \<Rightarrow> workflow_row \<Rightarrow> canvas_edge list \<Rightarrow>
    canvas_node \<Rightarrow> nat \<Rightarrow> walk \<Rightarrow> walk \<times> bool res" where
  "execute_and_persist_node env run flow es n x w =
     (case persist_step_result (w_db w) x ''running'' (no_values\<lparr>v_started_at := Some (env_now env)\<rparr>) of
        Inl e \<Rightarrow> (w, Inl e)
      | Inr s1 \<Rightarrow>
          (let w1 = w\<lparr>w_db := s1\<rparr> in
           case assemble_input_context env run flow (nid n) es (w_outcomes w1) of
             Inl e \<Rightarrow> persist_failure env (nid n) x w1 e
           | Inr c \<Rightarrow>
               (let (s2, r) = execute_step env (step_type_of n) (data_plugin_config (node_data n))
                               c run (nid n) (w_db w1);
                    w2 = w1\<lparr>w_db := s2\<rparr>
                in case r of
                     Inl e \<Rightarrow> persist_failure env (nid n) x w2 e
                   | Inr raw \<Rightarrow>
                       (let outcomes = seed_run_inputs run raw;
                            w3 = w2\<lparr>w_outcomes := store_step_outcomes (w_outcomes w2) (nid n) outcomes\<rparr>
                        in case persist_step_result (w_db w3) x (derive_step_result_status outcomes)
                               (no_values\<lparr>v_output := Some (env_serialize env outcomes),
                                  v_failure := first_outcome_failure outcomes,
                                  v_finished_at := Some (env_now env)\<rparr>) of
                             Inl e \<Rightarrow> persist_failure env (nid n) x w3 e
                           | Inr s3 \<Rightarrow> (w3\<lparr>w_db := s3\<rparr>, Inr True)))))"

definition step_requires_devices :: "runner_env \<Rightarrow> string \<Rightarrow> bool res" where
  "step_requires_devices env step_type =
     (case env_registry env step_type of
        None \<Rightarrow> Inr False
      | Some plugin \<Rightarrow> res_bind (capability_spec_from_plugin plugin)
                         (\<lambda>spec. Inr (IDENTITY \<in> spec_requires spec)))"

definition has_devices :: "workflow_context option \<Rightarrow> bool" where
  "has_devices c = (case c of None \<Rightarrow> False | Some x \<Rightarrow> devices x \<noteq> [])"

text \<open>The two flags of \<open>_blocked_by_upstream_failure\<close> for one parent edge:
  (saw devices, saw failure evidence).\<close>

definition edge_evidence :: "outcome_table \<Rightarrow> string set \<Rightarrow> canvas_edge \<Rightarrow> bool \<times> bool" where
  "edge_evidence outcomes blocked e =
     (if esrc e \<in> blocked then (False, True)
      else let parent = dget outcomes (esrc e) [] in
           (has_devices (map_of parent (outcome_handle e)), has_devices (map_of parent ''failure'')))"

definition blocked_by_upstream_failure ::
  "string \<Rightarrow> canvas_edge list \<Rightarrow> outcome_table \<Rightarrow> string set \<Rightarrow> bool" where
  "blocked_by_upstream_failure n_id es outcomes blocked =
     (let evidence = map (edge_evidence outcomes blocked) (filter (\<lambda>e. edge_target e = Some n_id) es)
      in list_ex snd evidence \<and> \<not> list_ex fst evidence)"

definition run_node_in_sequence :: "runner_env \<Rightarrow> run_row \<Rightarrow> workflow_row \<Rightarrow> canvas_edge list \<Rightarrow>
    canvas_node \<Rightarrow> nat \<Rightarrow> walk \<Rightarrow> walk \<times> (bool \<times> bool) res" where
  "run_node_in_sequence env run flow es n x w =
     (case step_requires_devices env (step_type_of n) of
        Inl e \<Rightarrow> (w, Inl e)
      | Inr needs \<Rightarrow>
          if needs \<and> blocked_by_upstream_failure (nid n) es (w_outcomes w) (w_blocked w)
          then (case persist_step_result (w_db w) x ''skipped'' no_values of
                  Inl e \<Rightarrow> (w, Inl e)
                | Inr s \<Rightarrow> (w\<lparr>w_db := s, w_blocked := insert (nid n) (w_blocked w)\<rparr>, Inr (False, True)))
          else (let (w', r) = execute_and_persist_node env run flow es n x w in
                (w', res_bind r (\<lambda>ok.
                   if \<not> ok then Inr (True, True)
                   else Inr (False, map_option sr_status (get_step (w_db w') x) = Some ''failed'')))))"

section \<open>A wave\<close>

fun gather_nodes :: "runner_env \<Rightarrow> run_row \<Rightarrow> workflow_row \<Rightarrow> canvas_edge list \<Rightarrow>
    (canvas_node \<times> nat) list \<Rightarrow> walk \<Rightarrow> walk \<times> (bool \<times> bool) res list" where
  "gather_nodes env run flow es [] w = (w, [])"
| "gather_nodes env run flow es ((n, x) # ns) w =
     (let (w1, r) = run_node_in_sequence env run flow es n x w;
          (w2, rs) = gather_nodes env run flow es ns w1
      in (w2, r # rs))"

text \<open>The loop over the gathered results: the first exception is raised again, otherwise
  (some step raised, some step reported failure).\<close>

definition wave_verdict :: "(bool \<times> bool) res list \<Rightarrow> (bool \<times> bool) res" where
  "wave_verdict rs =
     (case List.find isl rs of
        Some (Inl e) \<Rightarrow> Inl e
      | _ \<Rightarrow> Inr (list_ex (\<lambda>r. case r of Inr (raised, _) \<Rightarrow> raised | _ \<Rightarrow> True) rs,
                list_ex (\<lambda>r. case r of Inr (raised, bad) \<Rightarrow> \<not> raised \<and> bad | _ \<Rightarrow> False) rs))"

definition run_wave :: "runner_env \<Rightarrow> run_row \<Rightarrow> workflow_row \<Rightarrow> canvas_edge list \<Rightarrow>
    (string, nat) dict \<Rightarrow> canvas_node list \<Rightarrow> walk \<Rightarrow> walk \<times> (bool \<times> bool) res" where
  "run_wave env run flow es rows wave w =
     (case lookup_all rows (map nid wave) of
        None \<Rightarrow> (w, Inl (KeyError ''step_results''))
      | Some xs \<Rightarrow>
          (let (w', rs) = gather_nodes env run flow es (zip wave xs) w in (w', wave_verdict rs)))"

fun skip_wave :: "(string, nat) dict \<Rightarrow> canvas_node list \<Rightarrow> db \<Rightarrow> db \<times> unit res" where
  "skip_wave rows [] s = (s, Inr ())"
| "skip_wave rows (n # ns) s =
     (case map_of rows (nid n) of
        None \<Rightarrow> (s, Inl (KeyError (nid n)))
      | Some x \<Rightarrow>
         (case persist_step_result s x ''skipped'' no_values of
            Inl e \<Rightarrow> (s, Inl e)
          | Inr s' \<Rightarrow> skip_wave rows ns s'))"

section \<open>The walk\<close>

definition fan_out_requested :: "workflow_context \<Rightarrow> jdict option res" where
  "fan_out_requested c =
     (case map_of (metadata c) ''_fan_out'' of
        None \<Rightarrow> Inr None
      | Some (JObj d) \<Rightarrow> Inr (if truthy (dget d ''enabled'' JNull) then Some d else None)
      | Some _ \<Rightarrow> Inl (OtherError ''AttributeError''))"

fun find_fan_out :: "canvas_node list \<Rightarrow> canvas_edge list \<Rightarrow> outcome_table \<Rightarrow> canvas_node list \<Rightarrow>
    fan_out_signal option res" where
  "find_fan_out nodes es outcomes [] = Inr None"
| "find_fan_out nodes es outcomes (n # ns) =
     (case map_of (dget outcomes (nid n) []) ''success'' of
        None \<Rightarrow> find_fan_out nodes es outcomes ns
      | Some c \<Rightarrow>
          res_bind (fan_out_requested c) (\<lambda>req. case req of
              None \<Rightarrow> find_fan_out nodes es outcomes ns
            | Some d \<Rightarrow> Inr (Some \<lparr>inventory_node_id = nid n, fan_out_config = d,
                inventory_outcome = c, signal_outcomes = outcomes,
                join_node_id = find_join_node_id (nid n) nodes es\<rparr>)))"

text \<open>The loop over the generations. \<open>detect\<close> is the fan-out check after a wave: the one above in
  \<open>execute_all\<close>, none in \<open>resume_after_join\<close>.\<close>

fun walk_waves :: "runner_env \<Rightarrow> run_row \<Rightarrow> workflow_row \<Rightarrow> canvas_edge list \<Rightarrow> (string, nat) dict \<Rightarrow>
    (outcome_table \<Rightarrow> canvas_node list \<Rightarrow> fan_out_signal option res) \<Rightarrow>
    canvas_node list list \<Rightarrow> bool \<Rightarrow> bool \<Rightarrow> walk \<Rightarrow> walk \<times> walk_result res" where
  "walk_waves env run flow es rows detect [] failed reported w =
     (w, Inr (Finished (\<not> (failed \<or> reported))))"
| "walk_waves env run flow es rows detect (wave # waves) failed reported w =
     (case (if failed then Inr True else cancel_requested (w_db w) (run_id run)) of
        Inl e \<Rightarrow> (w, Inl e)
      | Inr True \<Rightarrow>
          (let (s, r) = skip_wave rows wave (w_db w); w' = w\<lparr>w_db := s\<rparr> in
           case r of
             Inl e \<Rightarrow> (w', Inl e)
           | Inr _ \<Rightarrow> walk_waves env run flow es rows detect waves True reported w')
      | Inr False \<Rightarrow>
          (let (w', r) = run_wave env run flow es rows wave w in
           case r of
             Inl e \<Rightarrow> (w', Inl e)
           | Inr (True, _) \<Rightarrow> walk_waves env run flow es rows detect waves True reported w'
           | Inr (False, bad) \<Rightarrow>
              (case detect (w_outcomes w') wave of
                 Inl e \<Rightarrow> (w', Inl e)
               | Inr (Some sig) \<Rightarrow> (w', Inr (FanOut sig))
               | Inr None \<Rightarrow> walk_waves env run flow es rows detect waves False (reported \<or> bad) w')))"

fun create_pending_step_results :: "nat \<Rightarrow> canvas_node list \<Rightarrow> db \<Rightarrow> (string, nat) dict \<Rightarrow>
    db \<times> (string, nat) dict res" where
  "create_pending_step_results i [] s rows = (s, Inr rows)"
| "create_pending_step_results i (n # ns) s rows =
     (case create_step_result s i (nid n) (step_type_of n) (step_name_of n) of
        Inl e \<Rightarrow> (s, Inl e)
      | Inr (s', x) \<Rightarrow> create_pending_step_results i ns s' (AList.update (nid n) (sr_id x) rows))"

definition build_execution_plan :: "runner_env \<Rightarrow> canvas_node list \<Rightarrow> canvas_edge list \<Rightarrow> canvas_node list res" where
  "build_execution_plan env nodes es = topological_sort (env_registry env) nodes es"

definition start_walk :: "db \<Rightarrow> outcome_table \<Rightarrow> walk" where
  "start_walk s outcomes = \<lparr>w_db = s, w_outcomes = outcomes, w_blocked = {}\<rparr>"

definition execute_all :: "runner_env \<Rightarrow> run_row \<Rightarrow> workflow_row \<Rightarrow> db \<Rightarrow> db \<times> walk_result res" where
  "execute_all env run flow s =
     (case load_execution_graph (canvas_nodes flow) (canvas_edges flow) of
        Inl e \<Rightarrow> (s, Inl e)
      | Inr (nodes, es) \<Rightarrow>
     (if get_step_results_for_run s (run_id run) \<noteq> []
      then (s, Inl (RunAlreadyStarted ''run already has step results''))
      else
     (case build_execution_plan env nodes es of
        Inl e \<Rightarrow> (s, Inl e)
      | Inr ordered \<Rightarrow>
          (let (s1, r) = create_pending_step_results (run_id run) ordered s [] in
           case r of
             Inl (StepResultExistsError m) \<Rightarrow> (s1, Inl (RunAlreadyStarted ''run is already being executed''))
           | Inl e \<Rightarrow> (s1, Inl e)
           | Inr rows \<Rightarrow>
              (case topological_generations ordered es of
                 Inl e \<Rightarrow> (s1, Inl e)
               | Inr gens \<Rightarrow>
                  (let (w, res) = walk_waves env run flow es rows (find_fan_out nodes es) gens False False
                                    (start_walk s1 [])
                   in (w_db w, res)))))))"

text \<open>The row of every post-join node: the existing one, or a new pending one.\<close>

fun resolve_rows :: "nat \<Rightarrow> (string, nat) dict \<Rightarrow> canvas_node list \<Rightarrow> db \<Rightarrow> (string, nat) dict \<Rightarrow>
    db \<times> (string, nat) dict res" where
  "resolve_rows i known [] s rows = (s, Inr rows)"
| "resolve_rows i known (n # ns) s rows =
     (case map_of known (nid n) of
        Some x \<Rightarrow> resolve_rows i known ns s (AList.update (nid n) x rows)
      | None \<Rightarrow>
         (case create_step_result s i (nid n) (step_type_of n) (step_name_of n) of
            Inl e \<Rightarrow> (s, Inl (RunAlreadyStarted ''run is already being resumed''))
          | Inr (s', x) \<Rightarrow> resolve_rows i known ns s' (AList.update (nid n) (sr_id x) rows)))"

definition resume_after_join :: "runner_env \<Rightarrow> run_row \<Rightarrow> workflow_row \<Rightarrow> outcome_table \<Rightarrow> string \<Rightarrow> db \<Rightarrow>
    db \<times> walk_result res" where
  "resume_after_join env run flow merged_outcomes join s =
     (case load_execution_graph (canvas_nodes flow) (canvas_edges flow) of
        Inl e \<Rightarrow> (s, Inl e)
      | Inr (nodes, es) \<Rightarrow>
     (case build_execution_plan env nodes es of
        Inl e \<Rightarrow> (s, Inl e)
      | Inr ordered \<Rightarrow>
          (let post_join_ids = insert join (downstream_node_ids join nodes es);
               post_join = filter (\<lambda>n. nid n \<in> post_join_ids) ordered;
               known = dict_of (map (\<lambda>x. (sr_node_id x, sr_id x)) (get_step_results_for_run s (run_id run)));
               (s1, r) = resolve_rows (run_id run) known post_join s []
           in case r of
                Inl e \<Rightarrow> (s1, Inl e)
              | Inr rows \<Rightarrow>
                 (case topological_generations post_join es of
                    Inl e \<Rightarrow> (s1, Inl e)
                  | Inr gens \<Rightarrow>
                     (let (w, res) = walk_waves env run flow es rows (\<lambda>_ _. Inr None) gens False False
                                       (start_walk s1 merged_outcomes)
                      in (w_db w, res))))))"

end
