(* ===== verification/Step_Runner_Rows.thy ===== *)
theory Step_Runner_Rows
  imports Step_Runner
begin

text \<open>
  What the walk leaves in the step table. Every row of a finished walk is closed (\<open>success\<close>,
  \<open>partial\<close>, \<open>failed\<close> or \<open>skipped\<close>), a run whose steps were already started is not walked
  again, and the boolean the walk returns agrees with the rows.
\<close>

section \<open>Evolution of a run's rows\<close>

definition CLOSED :: "string set" where
  "CLOSED = {''success'', ''partial'', ''failed'', ''skipped''}"

definition row_closed :: "db \<Rightarrow> nat \<Rightarrow> bool" where
  "row_closed s x \<longleftrightarrow> (\<exists>y. get_step s x = Some y \<and> sr_status y \<in> CLOSED)"

text \<open>\<open>evolves i X s t\<close>: run \<open>i\<close> and its rows survive, rows outside \<open>X\<close> are not reopened.\<close>

definition evolves :: "nat \<Rightarrow> nat set \<Rightarrow> db \<Rightarrow> db \<Rightarrow> bool" where
  "evolves i X s t \<longleftrightarrow> (db_ok s \<longrightarrow> db_ok t) \<and> (get_run s i \<noteq> None \<longrightarrow> get_run t i \<noteq> None)
     \<and> (\<forall>k y. get_step s k = Some y \<and> sr_run_id y = i \<longrightarrow>
          (\<exists>z. get_step t k = Some z \<and> sr_run_id z = i \<and> sr_node_id z = sr_node_id y
             \<and> (k \<notin> X \<and> sr_status y \<in> CLOSED \<longrightarrow> sr_status z \<in> CLOSED)))"

lemma evolvesD:
  "evolves i X s t \<Longrightarrow> get_step s k = Some y \<Longrightarrow> sr_run_id y = i \<Longrightarrow>
     \<exists>z. get_step t k = Some z \<and> sr_run_id z = i \<and> sr_node_id z = sr_node_id y
       \<and> (k \<notin> X \<and> sr_status y \<in> CLOSED \<longrightarrow> sr_status z \<in> CLOSED)"
  unfolding evolves_def by blast

lemma evolves_refl: "evolves i X s s"
  by (simp add: evolves_def)

lemma evolves_trans: "evolves i X s t \<Longrightarrow> evolves i X t u \<Longrightarrow> evolves i X s u"
  unfolding evolves_def by (metis (no_types, lifting))

lemma evolves_mono: "evolves i X s t \<Longrightarrow> X \<subseteq> Y \<Longrightarrow> evolves i Y s t"
  unfolding evolves_def by blast

definition row_of :: "db \<Rightarrow> nat \<Rightarrow> nat \<Rightarrow> string \<Rightarrow> bool" where
  "row_of s i x n \<longleftrightarrow> (\<exists>y. get_step s x = Some y \<and> sr_run_id y = i \<and> sr_node_id y = n)"

lemma row_of_evolves: "row_of s i x n \<Longrightarrow> evolves i X s t \<Longrightarrow> row_of t i x n"
  unfolding row_of_def evolves_def by metis

lemma closed_evolves: "row_of s i x n \<Longrightarrow> row_closed s x \<Longrightarrow> evolves i X s t \<Longrightarrow> x \<notin> X \<Longrightarrow> row_closed t x"
  unfolding row_of_def evolves_def row_closed_def by (metis option.inject)

lemma evolves_narrow:
  assumes "evolves i {x} s t" and "row_closed t x"
  shows "evolves i {} s t"
  unfolding evolves_def
proof (intro conjI allI impI)
  fix k y assume y: "get_step s k = Some y \<and> sr_run_id y = i"
  from evolvesD [OF assms(1)] y obtain z where z: "get_step t k = Some z" "sr_run_id z = i"
    "sr_node_id z = sr_node_id y" "k \<notin> {x} \<and> sr_status y \<in> CLOSED \<longrightarrow> sr_status z \<in> CLOSED" by blast
  moreover have "sr_status z \<in> CLOSED" if "k = x" using assms(2) z(1) that by (simp add: row_closed_def)
  ultimately show "\<exists>z. get_step t k = Some z \<and> sr_run_id z = i \<and> sr_node_id z = sr_node_id y
      \<and> (k \<notin> {} \<and> sr_status y \<in> CLOSED \<longrightarrow> sr_status z \<in> CLOSED)" by blast
qed (use assms(1) in \<open>simp_all add: evolves_def\<close>)

section \<open>Writing a row\<close>

lemma get_step_update:
  "get_step (update_step_result s x st v) k =
     map_option (\<lambda>y. if sr_id y = x \<and> \<not> step_frozen s y then write_step st v y else y) (get_step s k)"
  unfolding update_step_result_def by (rule get_step_map) simp

lemma persist_InrD:
  assumes "persist_step_result s x st v = Inr t"
  shows "t = update_step_result s x st v" "runs t = runs s"
    "\<exists>y. get_step s x = Some y \<and> get_step t x = Some (if step_frozen s y then y else write_step st v y)"
    "k \<noteq> x \<Longrightarrow> get_step t k = get_step s k"
proof -
  show t: "t = update_step_result s x st v"
    using assms by (auto simp: persist_step_result_def Let_def split: option.splits)
  then show "runs t = runs s" by simp
  from assms have "get_step t x \<noteq> None"
    by (auto simp: persist_step_result_def Let_def split: option.splits)
  then obtain y where y: "get_step s x = Some y" unfolding t get_step_update by auto
  with get_step_mem [OF y] show "\<exists>y. get_step s x = Some y
      \<and> get_step t x = Some (if step_frozen s y then y else write_step st v y)"
    unfolding t get_step_update by simp
  show "get_step t k = get_step s k" if "k \<noteq> x"
  proof (cases "get_step s k")
    case (Some z)
    with get_step_mem [OF Some] that show ?thesis unfolding t get_step_update by simp
  qed (simp add: t get_step_update)
qed

lemma persist_total: "get_step s x \<noteq> None \<Longrightarrow> \<exists>t. persist_step_result s x st v = Inr t"
  by (auto simp: persist_step_result_def Let_def get_step_update split: option.splits)

lemma persist_evolves:
  assumes "persist_step_result s x st v = Inr t"
  shows "evolves i {x} s t"
proof -
  note p = persist_InrD [OF assms]
  have "db_ok s \<Longrightarrow> db_ok t" unfolding p(1) by (rule db_ok_update_step)
  moreover have "get_run t i = get_run s i" using p(2) by (simp add: get_run_def)
  moreover have "\<exists>z. get_step t k = Some z \<and> sr_run_id z = i \<and> sr_node_id z = sr_node_id y
      \<and> (k \<notin> {x} \<and> sr_status y \<in> CLOSED \<longrightarrow> sr_status z \<in> CLOSED)"
    if "get_step s k = Some y" "sr_run_id y = i" for k y
    using p(3) p(4) [of k] that by (cases "k = x") auto
  ultimately show ?thesis unfolding evolves_def by simp
qed

lemma step_frozen_closed: "step_frozen s y \<Longrightarrow> sr_status y \<in> CLOSED"
  by (auto simp: step_frozen_def TERMINAL_STEP_STATUSES_def CLOSED_def)

lemma persist_closes:
  assumes "persist_step_result s x st v = Inr t" and "st \<in> CLOSED"
  shows "row_closed t x" and "evolves i {} s t"
proof -
  note p = persist_InrD [OF assms(1)]
  show "row_closed t x" using p(3) assms(2) step_frozen_closed by (fastforce simp: row_closed_def)
  then show "evolves i {} s t" using evolves_narrow persist_evolves [OF assms(1)] by blast
qed


section \<open>One step\<close>

text \<open>What executors may do to the database while they run: run \<open>i\<close> and its rows survive and no
  closed row is reopened. Cancelling the run (\<open>transition_run\<close> and
  \<open>finalise_open_step_results\<close>) is such a change.\<close>

definition executors_keep :: "runner_env \<Rightarrow> nat \<Rightarrow> bool" where
  "executors_keep env i \<longleftrightarrow> (\<forall>t ex. env_executor env t = Some ex \<longrightarrow>
     (\<forall>cfg c r n s. evolves i {} s (fst (ex cfg c r n s))))"

lemma execute_step_evolves:
  assumes "executors_keep env i" and "execute_step env t cfg c r n s = (s', res)"
  shows "evolves i {} s s'"
  using assms
  by (auto simp: execute_step_def executors_keep_def evolves_refl split: option.splits sum.splits prod.splits)
    (metis fst_conv)

lemma derive_closed: "derive_step_result_status outcomes \<in> CLOSED"
  by (simp add: derive_step_result_status_def CLOSED_def Let_def)

text \<open>The \<open>except\<close> branch closes the row.\<close>

lemma persist_failure_closes:
  assumes "persist_failure env n x w e = (w', r)"
  shows "evolves i {} (w_db w) (w_db w') \<and> (\<forall>ok. r = Inr ok \<longrightarrow> row_closed (w_db w') x \<and> \<not> ok)"
proof -
  have "''failed'' \<in> CLOSED" by (simp add: CLOSED_def)
  with assms show ?thesis
    by (auto simp: persist_failure_def case_prod_beta evolves_refl split: sum.splits
        intro: persist_closes)
qed

lemma execute_and_persist_closes:
  assumes keep: "executors_keep env i" and run: "execute_and_persist_node env r flow es n x w = (w', res)"
  shows "evolves i {x} (w_db w) (w_db w') \<and> (\<forall>ok. res = Inr ok \<longrightarrow> row_closed (w_db w') x)"
proof (cases "persist_step_result (w_db w) x ''running'' (no_values\<lparr>v_started_at := Some (env_now env)\<rparr>)")
  case (Inl e)
  with run show ?thesis by (auto simp: execute_and_persist_node_def evolves_refl)
next
  case start: (Inr s1)
  let ?w1 = "w\<lparr>w_db := s1\<rparr>"
  have e1: "evolves i {x} (w_db w) s1" by (rule persist_evolves [OF start])
  have fail: ?thesis if "persist_failure env (nid n) x w2 e = (w', res)" "evolves i {x} (w_db w) (w_db w2)" for w2 e
    using persist_failure_closes [OF that(1), of i] evolves_mono [of i "{}" _ _ "{x}"]
      evolves_trans [OF that(2)] by blast
  show ?thesis
  proof (cases "assemble_input_context env r flow (nid n) es (w_outcomes w)")
    case (Inl e)
    with run start have "persist_failure env (nid n) x ?w1 e = (w', res)"
      by (simp add: execute_and_persist_node_def)
    then show ?thesis by (rule fail) (simp add: e1)
  next
    case c: (Inr c)
    obtain s2 out where step: "execute_step env (step_type_of n) (data_plugin_config (node_data n))
        c r (nid n) s1 = (s2, out)" by fastforce
    have e2: "evolves i {x} (w_db w) s2"
      using evolves_trans [OF e1] evolves_mono [OF execute_step_evolves [OF keep step]] by blast
    show ?thesis
    proof (cases out)
      case (Inl e)
      with run start c step have "persist_failure env (nid n) x (?w1\<lparr>w_db := s2\<rparr>) e = (w', res)"
        by (simp add: execute_and_persist_node_def)
      then show ?thesis by (rule fail) (simp add: e2)
    next
      case raw: (Inr raw)
      define outs where "outs = seed_run_inputs r raw"
      define w3 where "w3 = w\<lparr>w_db := s2, w_outcomes := store_step_outcomes (w_outcomes w) (nid n) outs\<rparr>"
      define vals where "vals = no_values\<lparr>v_output := Some (env_serialize env outs),
          v_failure := first_outcome_failure outs, v_finished_at := Some (env_now env)\<rparr>"
      show ?thesis
      proof (cases "persist_step_result s2 x (derive_step_result_status outs) vals")
        case (Inl e)
        with run start c step raw have "persist_failure env (nid n) x w3 e = (w', res)"
          by (simp add: execute_and_persist_node_def w3_def outs_def vals_def Let_def)
        then show ?thesis by (rule fail) (simp add: e2 w3_def)
      next
        case fin: (Inr s3)
        with run start c step raw have "w' = w3\<lparr>w_db := s3\<rparr>"
          by (simp add: execute_and_persist_node_def w3_def outs_def vals_def Let_def)
        then have "w_db w' = s3" by simp
        with persist_closes [OF fin derive_closed] evolves_trans [OF e2] evolves_mono show ?thesis by blast
      qed
    qed
  qed
qed

lemma run_node_closes:
  assumes keep: "executors_keep env i" and run: "run_node_in_sequence env r flow es n x w = (w', res)"
  shows "evolves i {x} (w_db w) (w_db w') \<and> (\<forall>v. res = Inr v \<longrightarrow> row_closed (w_db w') x)"
proof (cases "step_requires_devices env (step_type_of n)")
  case (Inl e)
  with run show ?thesis by (auto simp: run_node_in_sequence_def evolves_refl)
next
  case (Inr needs)
  have skipped: "''skipped'' \<in> CLOSED" by (simp add: CLOSED_def)
  show ?thesis
  proof (cases "needs \<and> blocked_by_upstream_failure (nid n) es (w_outcomes w) (w_blocked w)")
    case True
    with run Inr show ?thesis
      using persist_closes [OF _ skipped] evolves_mono [of i "{}" _ _ "{x}"]
      by (auto simp: run_node_in_sequence_def evolves_refl split: sum.splits)
  next
    case False
    obtain w1 r1 where ex: "execute_and_persist_node env r flow es n x w = (w1, r1)" by fastforce
    from run Inr False ex have "w' = w1" "\<And>v. res = Inr v \<Longrightarrow> \<exists>ok. r1 = Inr ok"
      by (auto simp: run_node_in_sequence_def res_bind_Inr_iff)
    with execute_and_persist_closes [OF keep ex] show ?thesis by blast
  qed
qed


section \<open>Waves\<close>

text \<open>A wave with its rows: the rows belong to run \<open>i\<close> and are pairwise different.\<close>

lemma gather_closes:
  assumes keep: "executors_keep env i" and dist: "distinct (map snd nxs)"
    and rows: "\<forall>(n, x) \<in> set nxs. row_of (w_db w) i x (nid n)"
    and run: "gather_nodes env r flow es nxs w = (w', rs)"
  shows "evolves i (snd ` set nxs) (w_db w) (w_db w') \<and> length rs = length nxs
    \<and> (\<forall>k < length nxs. \<not> isl (rs ! k) \<longrightarrow> row_closed (w_db w') (snd (nxs ! k)))"
  using dist rows run
proof (induction nxs arbitrary: w rs)
  case Nil
  then show ?case by (simp add: evolves_refl)
next
  case (Cons nx nxs)
  obtain n x where nx: "nx = (n, x)" by (cases nx)
  obtain w1 r1 where one: "run_node_in_sequence env r flow es n x w = (w1, r1)" by fastforce
  from Cons.prems(3) nx one obtain rs2 where rest: "gather_nodes env r flow es nxs w1 = (w', rs2)"
    and eqs: "rs = r1 # rs2" by (auto split: prod.splits)
  note first = run_node_closes [OF keep one]
  have "\<forall>(n, x) \<in> set nxs. row_of (w_db w1) i x (nid n)"
    using Cons.prems(2) row_of_evolves first by fastforce
  from Cons.IH [OF _ this rest] Cons.prems(1) have IH: "evolves i (snd ` set nxs) (w_db w1) (w_db w')"
    "length rs2 = length nxs"
    "\<forall>k < length nxs. \<not> isl (rs2 ! k) \<longrightarrow> row_closed (w_db w') (snd (nxs ! k))" by auto
  have "evolves i (snd ` set (nx # nxs)) (w_db w) (w_db w')"
  proof (rule evolves_trans)
    show "evolves i (snd ` set (nx # nxs)) (w_db w) (w_db w1)"
      using first by (auto simp: nx intro: evolves_mono)
    show "evolves i (snd ` set (nx # nxs)) (w_db w1) (w_db w')"
      by (rule evolves_mono [OF IH(1)]) auto
  qed
  moreover have "row_closed (w_db w') x" if "\<not> isl r1"
  proof -
    from that obtain v where "r1 = Inr v" by (cases r1) auto
    with first have "row_closed (w_db w1) x" by blast
    moreover have "row_of (w_db w1) i x (nid n)" using Cons.prems(2) nx first row_of_evolves by fastforce
    moreover have "x \<notin> snd ` set nxs" using Cons.prems(1) nx by auto
    ultimately show ?thesis using closed_evolves IH(1) by blast
  qed
  ultimately show ?case unfolding eqs using IH(2,3) nx by (auto simp: nth_Cons' less_Suc_eq_0_disj)
qed

lemma wave_verdict_InrD:
  assumes "wave_verdict rs = Inr v"
  shows "\<forall>r \<in> set rs. \<not> isl r"
proof (cases "List.find isl rs")
  case None
  then show ?thesis by (auto simp: find_None_iff)
next
  case (Some r)
  then have "isl r" by (auto simp: find_Some_iff)
  with Some assms show ?thesis by (auto simp: wave_verdict_def isl_def)
qed

text \<open>The row table of a walk: every node has its row, no two nodes share one.\<close>

definition rows_ok :: "db \<Rightarrow> nat \<Rightarrow> (string, nat) dict \<Rightarrow> bool" where
  "rows_ok s i rows \<longleftrightarrow> dict_ok rows \<and> distinct (map snd rows) \<and> (\<forall>(n, x) \<in> set rows. row_of s i x n)"

lemma rows_ok_evolves: "rows_ok s i rows \<Longrightarrow> evolves i X s t \<Longrightarrow> rows_ok t i rows"
  unfolding rows_ok_def using row_of_evolves by fastforce

lemma rows_inj:
  assumes "rows_ok s i rows" "map_of rows a = Some x" "map_of rows b = Some x"
  shows "a = b"
proof -
  from assms have "(a, x) \<in> set rows" "(b, x) \<in> set rows" by (auto dest: map_of_SomeD)
  then have "(a, x) = (b, x)"
    using assms(1) distinct_map_eq [of snd rows] unfolding rows_ok_def by fastforce
  then show ?thesis by simp
qed

lemma lookup_all_SomeD: "lookup_all d ks = Some xs \<Longrightarrow> map (map_of d) ks = map Some xs"
  by (induction ks arbitrary: xs) (auto split: option.splits)

text \<open>The rows of a list of nodes.\<close>

abbreviation node_rows :: "(string, nat) dict \<Rightarrow> canvas_node list \<Rightarrow> nat set" where
  "node_rows rows ns \<equiv> {x. \<exists>n \<in> set ns. map_of rows (nid n) = Some x}"

lemma wave_row_ids:
  assumes rows: "rows_ok s i rows" and dist: "distinct (map nid wave)"
    and some: "lookup_all rows (map nid wave) = Some xs"
  shows "length xs = length wave" and "set xs = node_rows rows wave" and "distinct xs"
    and "\<forall>(n, x) \<in> set (zip wave xs). row_of s i x (nid n)"
    and "map snd (zip wave xs) = xs" and "snd ` set (zip wave xs) = set xs"
proof -
  have look: "map (\<lambda>n. map_of rows (nid n)) wave = map Some xs"
    using lookup_all_SomeD [OF some] by (simp add: o_def)
  then show len: "length xs = length wave" by (metis length_map)
  have at: "map_of rows (nid (wave ! k)) = Some (xs ! k)" if "k < length wave" for k
    using arg_cong [OF look, of "\<lambda>l. l ! k"] that len by simp
  have "Some ` set xs = (\<lambda>n. map_of rows (nid n)) ` set wave" using arg_cong [OF look, of set] by simp
  then show "set xs = node_rows rows wave" by force
  show "distinct xs"
  proof (rule distinct_conv_nth [THEN iffD2], intro allI impI)
    fix a b assume ab: "a < length xs" "b < length xs" "a \<noteq> b"
    show "xs ! a \<noteq> xs ! b"
    proof
      assume "xs ! a = xs ! b"
      with at [of a] at [of b] rows_inj [OF rows] ab len have "nid (wave ! a) = nid (wave ! b)" by simp
      with dist ab len show False by (simp add: distinct_conv_nth)
    qed
  qed
  show "\<forall>(n, x) \<in> set (zip wave xs). row_of s i x (nid n)"
    using rows at len unfolding rows_ok_def by (auto simp: set_zip dest!: map_of_SomeD)
  show ms: "map snd (zip wave xs) = xs" using len by simp
  then show "snd ` set (zip wave xs) = set xs" by (metis list.set_map)
qed

lemma run_wave_closes:
  assumes keep: "executors_keep env i" and rows: "rows_ok (w_db w) i rows"
    and dist: "distinct (map nid wave)"
    and run: "run_wave env r flow es rows wave w = (w', res)"
  shows "evolves i (node_rows rows wave) (w_db w) (w_db w')
    \<and> (\<forall>v. res = Inr v \<longrightarrow> (\<forall>x \<in> node_rows rows wave. row_closed (w_db w') x))"
proof (cases "lookup_all rows (map nid wave)")
  case None
  with run show ?thesis by (auto simp: run_wave_def evolves_refl)
next
  case (Some xs)
  note x = wave_row_ids [OF rows dist Some]
  obtain rs where g: "gather_nodes env r flow es (zip wave xs) w = (w', rs)" and res: "res = wave_verdict rs"
    using run Some by (auto simp: run_wave_def split: prod.splits)
  have c: "evolves i (set xs) (w_db w) (w_db w')" "length rs = length wave"
    "\<forall>k < length wave. \<not> isl (rs ! k) \<longrightarrow> row_closed (w_db w') (xs ! k)"
    using gather_closes [OF keep _ x(4) g] x(1,3,5,6) by auto
  have "\<forall>y \<in> set xs. row_closed (w_db w') y" if "res = Inr v" for v
  proof
    fix y assume "y \<in> set xs"
    then obtain k where k: "k < length wave" "y = xs ! k" using x(1) by (auto simp: in_set_conv_nth)
    then have "rs ! k \<in> set rs" using c(2) by simp
    then have "\<not> isl (rs ! k)" using wave_verdict_InrD [of rs v] res that by simp
    with c(3) k show "row_closed (w_db w') y" by blast
  qed
  with c(1) show ?thesis unfolding x(2) by blast
qed

lemma skip_wave_closes:
  assumes "skip_wave rows ns s = (t, res)" and "rows_ok s i rows"
  shows "evolves i {} s t \<and> runs t = runs s
    \<and> (\<forall>u. res = Inr u \<longrightarrow> (\<forall>x \<in> node_rows rows ns. row_closed t x))"
  using assms
proof (induction ns arbitrary: s)
  case Nil
  then show ?case by (simp add: evolves_refl)
next
  case (Cons n ns)
  have skipped: "''skipped'' \<in> CLOSED" by (simp add: CLOSED_def)
  show ?case
  proof (cases "map_of rows (nid n)")
    case None
    with Cons.prems show ?thesis by (auto simp: evolves_refl)
  next
    case (Some x)
    show ?thesis
    proof (cases "persist_step_result s x ''skipped'' no_values")
      case (Inl e)
      with Cons.prems Some show ?thesis by (auto simp: evolves_refl)
    next
      case (Inr s1)
      with Cons.prems Some have rest: "skip_wave rows ns s1 = (t, res)" by simp
      have e1: "evolves i {} s s1" and c1: "row_closed s1 x"
        using persist_closes [OF Inr skipped] by blast+
      have r1: "runs s1 = runs s" using persist_InrD(2) [OF Inr] .
      from Cons.IH [OF rest rows_ok_evolves [OF Cons.prems(2) e1]] have IH: "evolves i {} s1 t"
        "runs t = runs s1" "\<And>u. res = Inr u \<Longrightarrow> \<forall>y \<in> node_rows rows ns. row_closed t y" by blast+
      have "(nid n, x) \<in> set rows" using Some by (rule map_of_SomeD)
      then have "row_of s1 i x (nid n)"
        using rows_ok_evolves [OF Cons.prems(2) e1] by (auto simp: rows_ok_def)
      then have "row_closed t x" using closed_evolves c1 IH(1) by blast
      with IH r1 Some evolves_trans [OF e1 IH(1)] show ?thesis by auto
    qed
  qed
qed

section \<open>The walk\<close>

lemma walk_waves_closes:
  assumes "executors_keep env i"
    and "walk_waves env r flow es rows detect gens failed reported w = (w', res)"
    and "rows_ok (w_db w) i rows" and "distinct (map nid (concat gens))"
  shows "evolves i (node_rows rows (concat gens)) (w_db w) (w_db w')
    \<and> (\<forall>b. res = Inr (Finished b) \<longrightarrow> (\<forall>x \<in> node_rows rows (concat gens). row_closed (w_db w') x))"
  using assms(2-4)
proof (induction gens arbitrary: failed reported w)
  case Nil
  then show ?case by (auto simp: evolves_refl)
next
  case (Cons wave gens)
  let ?Y = "node_rows rows (concat (wave # gens))"
  have Y: "?Y = node_rows rows wave \<union> node_rows rows (concat gens)" by auto
  then have sub: "node_rows rows wave \<subseteq> ?Y" "node_rows rows (concat gens) \<subseteq> ?Y" by auto
  have disj: "x \<notin> node_rows rows (concat gens)" if "x \<in> node_rows rows wave" for x
  proof
    assume "x \<in> node_rows rows (concat gens)"
    with that obtain n m where "n \<in> set wave" "m \<in> set (concat gens)" "nid n = nid m"
      using rows_inj [OF Cons.prems(2)] by blast
    with Cons.prems(3) show False by auto
  qed
  have after: ?case
    if rest: "walk_waves env r flow es rows detect gens f rp w1 = (w', res)"
      and e1: "evolves i (node_rows rows wave) (w_db w) (w_db w1)"
      and c1: "\<forall>x \<in> node_rows rows wave. row_closed (w_db w1) x" for f rp w1
  proof -
    have "distinct (map nid (concat gens))" using Cons.prems(3) by auto
    from Cons.IH [OF rest rows_ok_evolves [OF Cons.prems(2) e1] this]
    have IH: "evolves i (node_rows rows (concat gens)) (w_db w1) (w_db w')"
      "\<And>b. res = Inr (Finished b) \<Longrightarrow> \<forall>x \<in> node_rows rows (concat gens). row_closed (w_db w') x" by blast+
    have "row_closed (w_db w') x" if "x \<in> node_rows rows wave" for x
    proof -
      from that obtain n where "(nid n, x) \<in> set rows" by (blast dest: map_of_SomeD)
      then have "row_of (w_db w1) i x (nid n)"
        using rows_ok_evolves [OF Cons.prems(2) e1] by (auto simp: rows_ok_def)
      then show ?thesis using closed_evolves c1 that IH(1) disj [OF that] by blast
    qed
    with IH(2) have "\<forall>b. res = Inr (Finished b) \<longrightarrow> (\<forall>x \<in> ?Y. row_closed (w_db w') x)"
      unfolding Y by blast
    moreover have "evolves i ?Y (w_db w) (w_db w')"
      by (rule evolves_trans [OF evolves_mono [OF e1 sub(1)] evolves_mono [OF IH(1) sub(2)]])
    ultimately show ?thesis by blast
  qed
  have stop: ?case if "evolves i (node_rows rows wave) (w_db w) (w_db w')" "\<forall>b. res \<noteq> Inr (Finished b)"
    using that evolves_mono [OF that(1) sub(1)] by blast
  have skipped: ?case
    if "(let (s, r') = skip_wave rows wave (w_db w); w1 = w\<lparr>w_db := s\<rparr> in
         case r' of Inl e \<Rightarrow> (w1, Inl e)
         | Inr _ \<Rightarrow> walk_waves env r flow es rows detect gens True reported w1) = (w', res)"
  proof -
    obtain s r' where sk: "skip_wave rows wave (w_db w) = (s, r')" by fastforce
    note skc = skip_wave_closes [OF sk Cons.prems(2)]
    have e: "evolves i (node_rows rows wave) (w_db w) s" using skc evolves_mono by blast
    show ?thesis
    proof (cases r')
      case (Inl e')
      with that sk have "w' = w\<lparr>w_db := s\<rparr>" "res = Inl e'" by auto
      with e show ?thesis by (intro stop) auto
    next
      case (Inr u)
      with that sk skc e show ?thesis by (intro after [of True reported "w\<lparr>w_db := s\<rparr>"]) auto
    qed
  qed
  obtain w1 r1 where rw: "run_wave env r flow es rows wave w = (w1, r1)" by fastforce
  have "distinct (map nid wave)" using Cons.prems(3) by auto
  note rwc = run_wave_closes [OF assms(1) Cons.prems(2) this rw]
  consider (err) e where "(if failed then Inr True else cancel_requested (w_db w) (run_id r)) = Inl e"
    | (skip) "(if failed then Inr True else cancel_requested (w_db w) (run_id r)) = Inr True"
    | (go) "(if failed then Inr True else cancel_requested (w_db w) (run_id r)) = Inr False"
    by (metis (full_types) obj_sumE)
  then show ?case
  proof cases
    case err
    with Cons.prems(1) have "w' = w" "res = Inl e" by auto
    then show ?thesis by (intro stop) (auto simp: evolves_refl)
  next
    case skip
    with Cons.prems(1) have "(let (s, r') = skip_wave rows wave (w_db w); w1 = w\<lparr>w_db := s\<rparr> in
         case r' of Inl e \<Rightarrow> (w1, Inl e)
         | Inr _ \<Rightarrow> walk_waves env r flow es rows detect gens True reported w1) = (w', res)" by simp
    then show ?thesis by (rule skipped)
  next
    case go
    show ?thesis
    proof (cases r1)
      case (Inl e)
      with Cons.prems(1) go rw have "w' = w1" "res = Inl e" by auto
      with rwc show ?thesis by (intro stop) auto
    next
      case (Inr v)
      obtain raised bad where v: "v = (raised, bad)" by (cases v)
      show ?thesis
      proof (cases raised)
        case True
        with Cons.prems(1) go rw Inr v rwc show ?thesis by (intro after [of True reported w1]) auto
      next
        case False
        show ?thesis
        proof (cases "detect (w_outcomes w1) wave")
          case (Inl e)
          with Cons.prems(1) go rw Inr v False rwc show ?thesis by (intro stop) auto
        next
          case d: (Inr sig)
          show ?thesis
          proof (cases sig)
            case None
            with Cons.prems(1) go rw Inr v False d
            have "walk_waves env r flow es rows detect gens False (reported \<or> bad) w1 = (w', res)" by simp
            with rwc Inr show ?thesis by (intro after [of False "reported \<or> bad" w1]) auto
          next
            case (Some sg)
            with Cons.prems(1) go rw Inr v False d have "w' = w1" "res = Inr (FanOut sg)" by simp_all
            with rwc show ?thesis by (intro stop) auto
          qed
        qed
      qed
    qed
  qed
qed


section \<open>Setting up the rows\<close>

lemma create_step_evolves:
  assumes "create_step_result s i n t m = Inr (s', x)" and "db_ok s"
  shows "evolves i {} s s'" and "row_of s' i (sr_id x) n" and "sr_id x \<ge> next_step s"
proof -
  note c = create_step_result_InrD [OF assms(1)] and g = get_step_create [OF assms(2,1)]
  have old: "k \<noteq> next_step s" if "get_step s k = Some y" for k y
    using get_step_mem [OF that] assms(2) by (auto simp: db_ok_def)
  have "get_run s' i = get_run s i" using c(1) by (simp add: get_run_def)
  moreover have "get_step s' k = Some y" if "get_step s k = Some y" for k y
    using g [of k] old [OF that] that by simp
  ultimately show "evolves i {} s s'"
    unfolding evolves_def using db_ok_create_step [OF assms(2,1)] by auto
  show "row_of s' i (sr_id x) n" using g [of "next_step s"] c(4,7,8) by (simp add: row_of_def)
  show "sr_id x \<ge> next_step s" using c(4) by simp
qed

lemma rows_ok_add:
  assumes "rows_ok s i rows" and "evolves i {} s t" and "row_of t i x n"
    and "n \<notin> fst ` set rows" and "x \<notin> snd ` set rows"
  shows "rows_ok t i (AList.update n x rows)"
  using rows_ok_evolves [OF assms(1,2)] assms(3-5) by (auto simp: update_fresh rows_ok_def)

lemma rows_known: "rows_ok s i rows \<Longrightarrow> db_ok s \<Longrightarrow> x \<in> snd ` set rows \<Longrightarrow> x < next_step s"
  by (fastforce simp: rows_ok_def row_of_def db_ok_def dest: get_step_mem)

lemma create_pending_rows:
  assumes "create_pending_step_results i ns s rows = (t, Inr rows')"
    and "rows_ok s i rows" and "db_ok s" and "distinct (map nid ns)"
    and "nid ` set ns \<inter> fst ` set rows = {}"
  shows "rows_ok t i rows' \<and> db_ok t \<and> fst ` set rows' = fst ` set rows \<union> nid ` set ns \<and> evolves i {} s t
    \<and> runs t = runs s"
  using assms
proof (induction ns arbitrary: s rows)
  case (Cons n ns)
  from Cons.prems(1) obtain s1 x where c: "create_step_result s i (nid n) (step_type_of n) (step_name_of n) = Inr (s1, x)"
    and rest: "create_pending_step_results i ns s1 (AList.update (nid n) (sr_id x) rows) = (t, Inr rows')"
    by (auto split: sum.splits prod.splits)
  note e = create_step_evolves [OF c Cons.prems(3)]
  have fresh: "sr_id x \<notin> snd ` set rows" using rows_known [OF Cons.prems(2,3)] e(3) by force
  have "rows_ok s1 i (AList.update (nid n) (sr_id x) rows)"
    using Cons.prems(5) by (intro rows_ok_add [OF Cons.prems(2) e(1,2)] fresh) auto
  from Cons.IH [OF rest this db_ok_create_step [OF Cons.prems(3) c]] Cons.prems(4,5)
    evolves_trans [OF e(1)] create_step_result_InrD(1) [OF c] show ?case by auto
qed (auto simp: evolves_refl)

lemma generations_concat:
  assumes "wave_plan r os gens dep"
  shows "set (concat gens) = set os" and "distinct (map nid os) \<Longrightarrow> distinct (map nid (concat gens))"
proof -
  from assms have gens: "gens = map (\<lambda>d. filter (\<lambda>n. dep (nid n) = d) os) [0..<length gens]"
    and small: "\<forall>n \<in> set os. dep (nid n) < length gens" by (simp_all add: wave_plan_def)
  show "set (concat gens) = set os" by (subst gens) (use small in auto)
  have "distinct (map nid (concat (map (\<lambda>d. filter (\<lambda>n. dep (nid n) = d) os) ds)))"
    if "distinct (map nid os)" "distinct ds" for ds
    using that(2)
  proof (induction ds)
    case (Cons d ds)
    have "nid ` set (filter (\<lambda>n. dep (nid n) = d) os) \<inter>
        nid ` set (concat (map (\<lambda>d. filter (\<lambda>n. dep (nid n) = d) os) ds)) = {}"
      using Cons.prems by fastforce
    with Cons distinct_map_filter [OF that(1), of "\<lambda>n. dep (nid n) = d"] show ?case by auto
  qed simp
  then show "distinct (map nid os) \<Longrightarrow> distinct (map nid (concat gens))" using gens
    by (metis distinct_upt)
qed


section \<open>Properties of a run\<close>

text \<open>The plan of a run, as \<open>execute_all\<close> computes it.\<close>

definition run_plan :: "runner_env \<Rightarrow> workflow_row \<Rightarrow> (canvas_edge list \<times> canvas_node list) res" where
  "run_plan env flow =
     res_bind (load_execution_graph (canvas_nodes flow) (canvas_edges flow)) (\<lambda>(nodes, es).
     res_bind (build_execution_plan env nodes es) (\<lambda>ordered. Inr (es, ordered)))"

lemma plan_sorted:
  assumes "build_execution_plan env nodes es = Inr os"
  shows "distinct (map nid os)" and "\<forall>n \<in> set os. node_id n \<noteq> None" and "topo_sorted (graph_rel os es) (map nid os)"
proof -
  obtain xs xe where x: "filter_executable_graph (env_registry env) nodes es = (xs, xe)" by fastforce
  with assms have os: "topological_order xs xe = Inr os"
    by (simp add: build_execution_plan_def topological_sort_def)
  note ord = topological_order_InrD [OF os]
  show "distinct (map nid os)" "\<forall>n \<in> set os. node_id n \<noteq> None" using ord(2,5) by simp_all
  have ids: "set (node_ids os) = set (node_ids xs)"
    using ord(3,5) by (simp add: node_ids_nid)
  have xe: "xe = filter (\<lambda>e. esrc e \<in> set (node_ids xs) \<and> etgt e \<in> set (node_ids xs)) es"
    using x by (auto simp: filter_executable_graph_def Let_def)
  have "graph_rel os es = graph_rel xs xe" by (auto simp: graph_rel_def ids xe)
  then show "topo_sorted (graph_rel os es) (map nid os)" using ord(4) by simp
qed

lemma plan_generations:
  assumes "build_execution_plan env nodes es = Inr os"
  shows "distinct (map nid os) \<and> (\<exists>gens. topological_generations os es = Inr gens
    \<and> set (concat gens) = set os \<and> distinct (map nid (concat gens)) \<and> [] \<notin> set gens)"
proof -
  note ord = plan_sorted [OF assms]
  from topological_generations_plan [OF ord(2,1,3)] obtain gens dep where
    g: "topological_generations os es = Inr gens" "wave_plan (graph_rel os es) os gens dep" by blast
  then have "[] \<notin> set gens" by (simp add: wave_plan_def)
  with g generations_concat [OF g(2)] ord(1) show ?thesis by blast
qed

lemma execute_all_FinishedE:
  assumes "execute_all env r flow s = (t, Inr res)" and "db_ok s"
  obtains nodes es os s1 rows gens w where
    "load_execution_graph (canvas_nodes flow) (canvas_edges flow) = Inr (nodes, es)"
    "get_step_results_for_run s (run_id r) = []"
    "build_execution_plan env nodes es = Inr os" "distinct (map nid os)"
    "create_pending_step_results (run_id r) os s [] = (s1, Inr rows)" "rows_ok s1 (run_id r) rows"
    "fst ` set rows = nid ` set os" "evolves (run_id r) {} s s1" "runs s1 = runs s"
    "set (concat gens) = set os" "distinct (map nid (concat gens))" "[] \<notin> set gens"
    "walk_waves env r flow es rows (find_fan_out nodes es) gens False False (start_walk s1 []) = (w, Inr res)"
    "t = w_db w"
proof -
  from assms(1) obtain nodes es where
    load: "load_execution_graph (canvas_nodes flow) (canvas_edges flow) = Inr (nodes, es)"
    by (auto simp: execute_all_def split: sum.splits prod.splits if_splits)
  with assms(1) have none: "get_step_results_for_run s (run_id r) = []"
    by (auto simp: execute_all_def split: if_splits)
  with assms(1) load obtain os where plan: "build_execution_plan env nodes es = Inr os"
    by (auto simp: execute_all_def split: sum.splits)
  obtain s1 rr where cp: "create_pending_step_results (run_id r) os s [] = (s1, rr)" by fastforce
  with assms(1) load none plan obtain rows where rows: "rr = Inr rows"
    by (cases rr) (auto simp: execute_all_def split: py_exn.splits)
  from plan_generations [OF plan] obtain gens where dist: "distinct (map nid os)"
    and gens: "topological_generations os es = Inr gens" "set (concat gens) = set os"
      "distinct (map nid (concat gens))" "[] \<notin> set gens" by blast
  obtain w res' where walk: "walk_waves env r flow es rows (find_fan_out nodes es) gens False False
      (start_walk s1 []) = (w, res')" by fastforce
  with assms(1) load none plan cp rows gens have "t = w_db w" "res' = Inr res"
    by (simp_all add: execute_all_def)
  moreover have "rows_ok s (run_id r) []" by (simp add: rows_ok_def)
  from create_pending_rows [OF cp [unfolded rows] this assms(2) dist]
  have "rows_ok s1 (run_id r) rows" "fst ` set rows = nid ` set os" "evolves (run_id r) {} s s1"
    "runs s1 = runs s" by auto
  ultimately show thesis using that load none plan dist cp rows gens walk by blast
qed

text \<open>C20. A finished walk leaves no step open: when \<open>execute_all\<close> returns a verdict, every step of
  the plan has a row of this run that is \<open>success\<close>, \<open>partial\<close>, \<open>failed\<close> or \<open>skipped\<close>,
  whatever the executors did and even when the operator cancelled the run meanwhile.\<close>

theorem execute_all_closes_rows:
  assumes "execute_all env r flow s = (t, Inr (Finished b))" and "db_ok s"
    and "executors_keep env (run_id r)" and "run_plan env flow = Inr (es, os)" and "n \<in> set os"
  shows "\<exists>x y. get_step t x = Some y \<and> sr_run_id y = run_id r \<and> sr_node_id y = nid n \<and> sr_status y \<in> CLOSED"
proof -
  obtain nodes es' os' s1 rows gens w where
    load: "load_execution_graph (canvas_nodes flow) (canvas_edges flow) = Inr (nodes, es')"
    and plan: "build_execution_plan env nodes es' = Inr os'" and rows: "rows_ok s1 (run_id r) rows"
    and keys: "fst ` set rows = nid ` set os'" and gens: "set (concat gens) = set os'"
      "distinct (map nid (concat gens))"
    and walk: "walk_waves env r flow es' rows (find_fan_out nodes es') gens False False
      (start_walk s1 []) = (w, Inr (Finished b))" and t: "t = w_db w"
    using assms(1,2) by (rule execute_all_FinishedE)
  have os: "os = os'" using assms(4) load plan by (simp add: run_plan_def)
  have "rows_ok (w_db (start_walk s1 [])) (run_id r) rows" using rows by (simp add: start_walk_def)
  from walk_waves_closes [OF assms(3) walk this gens(2)]
  have fin: "evolves (run_id r) (node_rows rows (concat gens)) s1 t"
    "\<forall>x \<in> node_rows rows (concat gens). row_closed t x" by (simp_all add: start_walk_def t)
  have "nid n \<in> fst ` set rows" using assms(5) keys os by blast
  then obtain x where x: "map_of rows (nid n) = Some x" using key_map_of_Some by metis
  then have "row_of s1 (run_id r) x (nid n)" using rows by (auto simp: rows_ok_def dest!: map_of_SomeD)
  from row_of_evolves [OF this fin(1)] obtain y where
    y: "get_step t x = Some y" "sr_run_id y = run_id r" "sr_node_id y = nid n" by (auto simp: row_of_def)
  have "x \<in> node_rows rows (concat gens)" using x gens(1) assms(5) os by blast
  with fin(2) have "row_closed t x" by blast
  with y(1) have "sr_status y \<in> CLOSED" by (simp add: row_closed_def)
  with y show ?thesis by blast
qed

subsection \<open>Example run\<close>

text \<open>A registry with the kinds \<open>step\<close>, which passes its input on, and \<open>bad\<close>, which raises.\<close>

definition demo_plugin :: "string \<Rightarrow> plugin_definition option" where
  "demo_plugin k = (if k \<in> {''step'', ''bad''}
     then Some \<lparr>plugin_id = k, plugin_enabled = True, plugin_executable = True, plugin_requires = [],
            plugin_produces = [], plugin_consumes = [], plugin_requires_parsed = []\<rparr>
     else None)"

definition demo_executor :: "string \<Rightarrow> executor option" where
  "demo_executor k =
     (if k = ''step'' then Some (\<lambda>cfg c r n s. (s, Inr [\<lparr>outcome_name = ''success'', outcome_context = c,
             outcome_summary = None, outcome_failure = None\<rparr>]))
      else if k = ''bad'' then Some (\<lambda>cfg c r n s. (s, Inl (RuntimeError ''boom'')))
      else None)"

definition demo_env :: runner_env where
  "demo_env = \<lparr>env_registry = demo_plugin, env_executor = demo_executor, env_serialize = (\<lambda>_. JNull),
     env_carried_failure = (\<lambda>_. None), env_scrub = id, env_error_uuid = id, env_now = 5, env_now_iso = ''now''\<rparr>"

definition demo_db :: db where
  "demo_db = fst (create_run empty_db ''u1'' 1 (Some 7) ''manual'' [] [] None None 0)"

definition demo_run :: run_row where
  "demo_run = snd (create_run empty_db ''u1'' 1 (Some 7) ''manual'' [] [] None None 0)"

definition demo_flow :: "string \<Rightarrow> workflow_row" where
  "demo_flow k = \<lparr>wf_id = 1, canvas_nodes = [mk_node ''a'' ''step'', mk_node ''b'' k, mk_node ''c'' ''step''],
     canvas_edges = [mk_edge ''a'' ''b'', mk_edge ''b'' ''c'']\<rparr>"

lemma demo_db_ok: "db_ok demo_db" by code_simp

lemma demo_executor_quiet: "demo_executor t = Some ex \<Longrightarrow> fst (ex cfg c r n s) = s"
  by (auto simp: demo_executor_def split: if_splits)

lemma demo_keep: "executors_keep demo_env i"
  by (simp add: executors_keep_def demo_env_def demo_executor_quiet evolves_refl)

definition finished_with :: "walk_result res \<Rightarrow> bool \<Rightarrow> bool" where
  "finished_with res b = (case res of Inr (Finished b') \<Rightarrow> b' = b | _ \<Rightarrow> False)"

lemma finished_withD: "finished_with (snd p) b \<Longrightarrow> p = (fst p, Inr (Finished b))"
  by (cases p) (auto simp: finished_with_def split: sum.splits walk_result.splits)

lemma demo_bad_finishes:
  "execute_all demo_env demo_run (demo_flow ''bad'') demo_db =
     (fst (execute_all demo_env demo_run (demo_flow ''bad'') demo_db), Inr (Finished False))"
  by (rule finished_withD) code_simp

lemma demo_plan: "run_plan demo_env (demo_flow ''bad'') =
    Inr (canvas_edges (demo_flow ''bad''), canvas_nodes (demo_flow ''bad''))"
  by code_simp

theorem execute_all_closes_rows_witness:
  "\<exists>x y. get_step (fst (execute_all demo_env demo_run (demo_flow ''bad'') demo_db)) x = Some y
     \<and> sr_run_id y = run_id demo_run \<and> sr_node_id y = nid (mk_node ''c'' ''step'') \<and> sr_status y \<in> CLOSED"
  by (rule execute_all_closes_rows [OF demo_bad_finishes demo_db_ok demo_keep demo_plan])
    (simp add: demo_flow_def)

end
