(* ===== verification/Step_Runner_Verdict.thy ===== *)
theory Step_Runner_Verdict
  imports Step_Runner_Rows
begin

text \<open>
  The boolean a walk returns, and the at-most-once guard. The verdict is stated for executors that
  leave the run tables alone while they run; then the rows a walk leaves behind determine what
  it returned.
\<close>

section \<open>Frames\<close>

definition executors_quiet :: "runner_env \<Rightarrow> bool" where
  "executors_quiet env \<longleftrightarrow> (\<forall>t ex. env_executor env t = Some ex \<longrightarrow>
     (\<forall>cfg c r n s. fst (ex cfg c r n s) = s))"

text \<open>\<open>frame X s t\<close>: only the rows in \<open>X\<close> differ, and no row is lost.\<close>

definition frame :: "nat set \<Rightarrow> db \<Rightarrow> db \<Rightarrow> bool" where
  "frame X s t \<longleftrightarrow> runs t = runs s \<and> (\<forall>k. k \<notin> X \<longrightarrow> get_step t k = get_step s k)
     \<and> (\<forall>k y. get_step s k = Some y \<longrightarrow> (\<exists>z. get_step t k = Some z \<and> sr_run_id z = sr_run_id y))"

lemma frame_refl: "frame X s s"
  by (simp add: frame_def)

lemma frame_trans: "frame X s t \<Longrightarrow> frame X t u \<Longrightarrow> frame X s u"
  unfolding frame_def by metis

lemma frame_mono: "frame X s t \<Longrightarrow> X \<subseteq> Y \<Longrightarrow> frame Y s t"
  unfolding frame_def by blast

lemma frame_runs: "frame X s t \<Longrightarrow> runs t = runs s"
  by (simp add: frame_def)

lemma frame_step: "frame X s t \<Longrightarrow> k \<notin> X \<Longrightarrow> get_step t k = get_step s k"
  by (simp add: frame_def)

lemma persist_frame: "persist_step_result s x st v = Inr t \<Longrightarrow> frame {x} s t"
proof -
  assume p: "persist_step_result s x st v = Inr t"
  have "\<exists>z. get_step t k = Some z \<and> sr_run_id z = sr_run_id y" if "get_step s k = Some y" for k y
    using persist_InrD(3) [OF p] persist_InrD(4) [OF p, of k] that by (cases "k = x") auto
  then show ?thesis using persist_InrD(2,4) [OF p] by (simp add: frame_def)
qed

definition status_at :: "db \<Rightarrow> nat \<Rightarrow> string option" where
  "status_at s x = map_option sr_status (get_step s x)"

text \<open>Row \<open>x\<close> exists and its run is not cancelled: a write to it takes effect.\<close>

definition writable :: "db \<Rightarrow> nat \<Rightarrow> bool" where
  "writable s x \<longleftrightarrow> (\<exists>y. get_step s x = Some y \<and> \<not> run_cancelled s (sr_run_id y))"

lemma writable_frame: "writable s x \<Longrightarrow> frame X s t \<Longrightarrow> writable t x"
proof -
  assume w: "writable s x" and f: "frame X s t"
  from w obtain y where y: "get_step s x = Some y" "\<not> run_cancelled s (sr_run_id y)"
    by (auto simp: writable_def)
  with f obtain z where "get_step t x = Some z" "sr_run_id z = sr_run_id y"
    unfolding frame_def by blast
  with y(2) frame_runs [OF f] show ?thesis by (simp add: writable_def run_cancelled_def)
qed

lemma persist_status:
  assumes "persist_step_result s x st v = Inr t"
    and "writable s x \<or> status_at s x \<notin> Some ` TERMINAL_STEP_STATUSES"
  shows "status_at t x = Some st"
proof -
  obtain y where y: "get_step s x = Some y" "get_step t x = Some (if step_frozen s y then y else write_step st v y)"
    using persist_InrD(3) [OF assms(1)] by blast
  have "\<not> step_frozen s y" using assms(2) y(1) by (auto simp: writable_def step_frozen_def status_at_def)
  with y show ?thesis by (simp add: status_at_def)
qed

lemma persist_writable: "writable s x \<Longrightarrow> \<exists>t. persist_step_result s x st v = Inr t"
  by (rule persist_total) (auto simp: writable_def)

section \<open>One step\<close>

definition GOOD :: "string set" where
  "GOOD = {''success'', ''partial''}"

definition good :: "db \<Rightarrow> nat \<Rightarrow> bool" where
  "good s x \<longleftrightarrow> status_at s x \<in> Some ` GOOD"

lemma good_frame: "frame X s t \<Longrightarrow> x \<notin> X \<Longrightarrow> good t x = good s x"
  by (simp add: good_def status_at_def frame_step)

lemma execute_step_quiet:
  "executors_quiet env \<Longrightarrow> execute_step env t cfg c r n s = (s', res) \<Longrightarrow> s' = s"
  by (auto simp: execute_step_def executors_quiet_def split: option.splits sum.splits prod.splits)
    (metis fst_conv)

lemma persist_failure_verdict:
  assumes "persist_failure env n x w e = (w', r)" and "writable (w_db w) x"
  shows "frame {x} (w_db w) (w_db w') \<and> r = Inr False \<and> status_at (w_db w') x = Some ''failed''"
proof -
  obtain cat msg where cm: "classify_step_exception e = (cat, msg)" by fastforce
  define vals where "vals = no_values\<lparr>v_error_message := Some (take 4000 (env_scrub env msg)),
      v_error_category := Some cat, v_error_id := Some (env_error_uuid env n),
      v_failure := failure_for_step_exception env e cat, v_finished_at := Some (env_now env)\<rparr>"
  obtain t where p: "persist_step_result (w_db w) x ''failed'' vals = Inr t"
    using persist_writable [OF assms(2)] by blast
  with assms(1) have "w' = w\<lparr>w_db := t\<rparr>" "r = Inr False"
    by (simp_all add: persist_failure_def cm vals_def [symmetric])
  with persist_frame [OF p] persist_status [OF p] assms(2) show ?thesis by simp
qed

lemma derive_cases: "derive_step_result_status outs \<in> {''success'', ''partial'', ''failed''}"
  by (simp add: derive_step_result_status_def Let_def)

lemma execute_and_persist_verdict:
  assumes quiet: "executors_quiet env" and run: "execute_and_persist_node env r flow es n x w = (w', res)"
    and ok: "writable (w_db w) x"
  shows "frame {x} (w_db w) (w_db w') \<and> (\<exists>b st. res = Inr b \<and> status_at (w_db w') x = Some st
    \<and> (if b then st \<in> {''success'', ''partial'', ''failed''} else st = ''failed''))"
proof -
  obtain s1 where start: "persist_step_result (w_db w) x ''running''
      (no_values\<lparr>v_started_at := Some (env_now env)\<rparr>) = Inr s1"
    using persist_writable [OF ok] by blast
  let ?w1 = "w\<lparr>w_db := s1\<rparr>"
  have f1: "frame {x} (w_db w) s1" by (rule persist_frame [OF start])
  have ok1: "writable s1 x" by (rule writable_frame [OF ok f1])
  have fail: ?thesis if "persist_failure env (nid n) x w2 e = (w', res)" "w_db w2 = s1" for w2 e
    using persist_failure_verdict [OF that(1)] ok1 that(2) frame_trans [OF f1] by auto
  show ?thesis
  proof (cases "assemble_input_context env r flow (nid n) es (w_outcomes w)")
    case (Inl e)
    with run start have "persist_failure env (nid n) x ?w1 e = (w', res)"
      by (simp add: execute_and_persist_node_def)
    then show ?thesis by (rule fail) simp
  next
    case c: (Inr c)
    obtain s2 out where step: "execute_step env (step_type_of n) (data_plugin_config (node_data n))
        c r (nid n) s1 = (s2, out)" by fastforce
    have s2: "s2 = s1" by (rule execute_step_quiet [OF quiet step])
    show ?thesis
    proof (cases out)
      case (Inl e)
      with run start c step s2 have "persist_failure env (nid n) x (?w1\<lparr>w_db := s1\<rparr>) e = (w', res)"
        by (simp add: execute_and_persist_node_def)
      then show ?thesis by (rule fail) simp
    next
      case raw: (Inr raw)
      define outs where "outs = seed_run_inputs r raw"
      define vals where "vals = no_values\<lparr>v_output := Some (env_serialize env outs),
          v_failure := first_outcome_failure outs, v_finished_at := Some (env_now env)\<rparr>"
      obtain s3 where fin: "persist_step_result s1 x (derive_step_result_status outs) vals = Inr s3"
        using persist_writable [OF ok1] by blast
      with run start c step s2 raw have "w_db w' = s3" "res = Inr True"
        by (simp_all add: execute_and_persist_node_def outs_def [symmetric] vals_def [symmetric] Let_def) auto
      with persist_status [OF fin] ok1 derive_cases [of outs] frame_trans [OF f1 persist_frame [OF fin]]
      show ?thesis by auto
    qed
  qed
qed

lemma run_node_verdict:
  assumes quiet: "executors_quiet env" and run: "run_node_in_sequence env r flow es n x w = (w', res)"
    and ok: "writable (w_db w) x"
  shows "frame {x} (w_db w) (w_db w') \<and> (\<forall>raised bad. res = Inr (raised, bad) \<longrightarrow>
    (good (w_db w') x \<longleftrightarrow> \<not> raised \<and> \<not> bad))"
proof (cases "step_requires_devices env (step_type_of n)")
  case (Inl e)
  with run show ?thesis by (auto simp: run_node_in_sequence_def frame_refl)
next
  case (Inr needs)
  show ?thesis
  proof (cases "needs \<and> blocked_by_upstream_failure (nid n) es (w_outcomes w) (w_blocked w)")
    case True
    obtain t where p: "persist_step_result (w_db w) x ''skipped'' no_values = Inr t"
      using persist_writable [OF ok] by blast
    with run Inr True have "w_db w' = t" "res = Inr (False, True)"
      by (auto simp: run_node_in_sequence_def)
    with persist_frame [OF p] persist_status [OF p] ok show ?thesis by (auto simp: good_def GOOD_def)
  next
    case False
    obtain w1 r1 where ex: "execute_and_persist_node env r flow es n x w = (w1, r1)" by fastforce
    obtain b st where v: "frame {x} (w_db w) (w_db w1)" "r1 = Inr b" "status_at (w_db w1) x = Some st"
      "if b then st \<in> {''success'', ''partial'', ''failed''} else st = ''failed''"
      using execute_and_persist_verdict [OF quiet ex ok] by blast
    from run Inr False ex v(2) have "w' = w1"
      "res = (if \<not> b then Inr (True, True)
              else Inr (False, map_option sr_status (get_step (w_db w1) x) = Some ''failed''))"
      by (auto simp: run_node_in_sequence_def)
    with v show ?thesis by (auto simp: good_def GOOD_def status_at_def split: if_splits)
  qed
qed


section \<open>Waves\<close>

lemma gather_verdict:
  assumes quiet: "executors_quiet env" and dist: "distinct (map snd nxs)"
    and rows: "\<forall>(n, x) \<in> set nxs. writable (w_db w) x"
    and run: "gather_nodes env r flow es nxs w = (w', rs)"
  shows "frame (snd ` set nxs) (w_db w) (w_db w') \<and> length rs = length nxs
    \<and> (\<forall>k < length nxs. \<forall>raised bad. rs ! k = Inr (raised, bad) \<longrightarrow>
         (good (w_db w') (snd (nxs ! k)) \<longleftrightarrow> \<not> raised \<and> \<not> bad))"
  using dist rows run
proof (induction nxs arbitrary: w rs)
  case Nil
  then show ?case by (simp add: frame_refl)
next
  case (Cons nx nxs)
  obtain n x where nx: "nx = (n, x)" by (cases nx)
  obtain w1 r1 where one: "run_node_in_sequence env r flow es n x w = (w1, r1)" by fastforce
  from Cons.prems(3) nx one obtain rs2 where rest: "gather_nodes env r flow es nxs w1 = (w', rs2)"
    and eqs: "rs = r1 # rs2" by (auto split: prod.splits)
  have "writable (w_db w) x" using Cons.prems(2) nx by auto
  note first = run_node_verdict [OF quiet one this]
  have "\<forall>(n, x) \<in> set nxs. writable (w_db w1) x"
    using Cons.prems(2) writable_frame first by fastforce
  from Cons.IH [OF _ this rest] Cons.prems(1) have IH: "frame (snd ` set nxs) (w_db w1) (w_db w')"
    "length rs2 = length nxs"
    "\<forall>k < length nxs. \<forall>raised bad. rs2 ! k = Inr (raised, bad) \<longrightarrow>
         (good (w_db w') (snd (nxs ! k)) \<longleftrightarrow> \<not> raised \<and> \<not> bad)" by auto
  have "frame (snd ` set (nx # nxs)) (w_db w) (w_db w')"
  proof (rule frame_trans)
    show "frame (snd ` set (nx # nxs)) (w_db w) (w_db w1)"
      using first by (auto simp: nx intro: frame_mono)
    show "frame (snd ` set (nx # nxs)) (w_db w1) (w_db w')"
      by (rule frame_mono [OF IH(1)]) auto
  qed
  moreover have "good (w_db w') x \<longleftrightarrow> good (w_db w1) x"
    using Cons.prems(1) nx by (intro good_frame [OF IH(1)]) auto
  ultimately show ?case unfolding eqs using IH(2,3) nx first by (auto simp: nth_Cons' less_Suc_eq_0_disj)
qed

lemma wave_verdict_flags:
  assumes "wave_verdict rs = Inr (F, B)"
  shows "\<not> F \<and> \<not> B \<longleftrightarrow> (\<forall>r \<in> set rs. r = Inr (False, False))"
proof -
  have noexn: "\<forall>r \<in> set rs. \<not> isl r" by (rule wave_verdict_InrD [OF assms])
  then have "List.find isl rs = None" by (simp add: find_None_iff)
  with assms have F: "F = list_ex (\<lambda>r. case r of Inr (raised, _) \<Rightarrow> raised | _ \<Rightarrow> True) rs"
    and B: "B = list_ex (\<lambda>r. case r of Inr (raised, bad) \<Rightarrow> \<not> raised \<and> bad | _ \<Rightarrow> False) rs"
    by (auto simp: wave_verdict_def)
  show ?thesis unfolding F B using noexn
    by (induction rs) (auto split: sum.splits prod.splits)
qed

lemma run_wave_verdict:
  assumes quiet: "executors_quiet env" and rows: "rows_ok (w_db w) i rows"
    and free: "\<not> run_cancelled (w_db w) i"
    and dist: "distinct (map nid wave)"
    and run: "run_wave env r flow es rows wave w = (w', res)"
  shows "frame (node_rows rows wave) (w_db w) (w_db w')
    \<and> (\<forall>F B. res = Inr (F, B) \<longrightarrow> (\<not> F \<and> \<not> B \<longleftrightarrow> (\<forall>x \<in> node_rows rows wave. good (w_db w') x)))"
proof (cases "lookup_all rows (map nid wave)")
  case None
  with run show ?thesis by (auto simp: run_wave_def frame_refl)
next
  case (Some xs)
  note x = wave_row_ids [OF rows dist Some]
  obtain rs where g: "gather_nodes env r flow es (zip wave xs) w = (w', rs)" and res: "res = wave_verdict rs"
    using run Some by (auto simp: run_wave_def split: prod.splits)
  have "\<forall>(n, y) \<in> set (zip wave xs). writable (w_db w) y"
    using x(4) free by (fastforce simp: writable_def row_of_def)
  then have c: "frame (set xs) (w_db w) (w_db w')" "length rs = length wave"
    "\<forall>k < length wave. \<forall>raised bad. rs ! k = Inr (raised, bad) \<longrightarrow>
       (good (w_db w') (xs ! k) \<longleftrightarrow> \<not> raised \<and> \<not> bad)"
    using gather_verdict [OF quiet _ _ g] x(1,3,5,6) by auto
  have "(\<not> F \<and> \<not> B \<longleftrightarrow> (\<forall>y \<in> set xs. good (w_db w') y))" if v: "res = Inr (F, B)" for F B
  proof -
    have noexn: "\<forall>r \<in> set rs. \<not> isl r" using wave_verdict_InrD res v by metis
    have "good (w_db w') (xs ! k) \<longleftrightarrow> rs ! k = Inr (False, False)" if "k < length wave" for k
    proof -
      have "\<not> isl (rs ! k)" using noexn that c(2) by simp
      then obtain p where "rs ! k = Inr p" by (cases "rs ! k") auto
      with c(3) that show ?thesis by (cases p) auto
    qed
    then show ?thesis using wave_verdict_flags [of rs F B] res v c(2) x(1)
      by (simp add: all_set_conv_all_nth)
  qed
  with c(1) show ?thesis unfolding x(2) by blast
qed


lemma skip_wave_verdict:
  assumes "skip_wave rows ns s = (t, res)" and "rows_ok s i rows" and "distinct (map nid ns)"
    and "\<forall>x \<in> node_rows rows ns. status_at s x = Some ''pending''"
  shows "frame (node_rows rows ns) s t
    \<and> (\<forall>u. res = Inr u \<longrightarrow> (\<forall>n \<in> set ns. \<exists>x. map_of rows (nid n) = Some x \<and> \<not> good t x))"
  using assms
proof (induction ns arbitrary: s)
  case Nil
  then show ?case by (simp add: frame_refl)
next
  case (Cons n ns)
  show ?case
  proof (cases "map_of rows (nid n)")
    case None
    with Cons.prems show ?thesis by (auto simp: frame_refl)
  next
    case (Some x)
    show ?thesis
    proof (cases "persist_step_result s x ''skipped'' no_values")
      case (Inl e)
      with Cons.prems Some show ?thesis by (auto simp: frame_refl)
    next
      case (Inr s1)
      with Cons.prems Some have rest: "skip_wave rows ns s1 = (t, res)" by simp
      have f1: "frame {x} s s1" by (rule persist_frame [OF Inr])
      have other: "y \<noteq> x" if "y \<in> node_rows rows ns" for y
        using that rows_inj [OF Cons.prems(2) Some] Cons.prems(3) by force
      have "\<forall>y \<in> node_rows rows ns. status_at s1 y = Some ''pending''"
        using Cons.prems(4) other frame_step [OF f1] by (fastforce simp: status_at_def)
      from Cons.IH [OF rest rows_ok_evolves [OF Cons.prems(2) persist_evolves [OF Inr]] _ this] Cons.prems(3)
      have IH: "frame (node_rows rows ns) s1 t"
        "\<And>u. res = Inr u \<Longrightarrow> \<forall>n \<in> set ns. \<exists>x. map_of rows (nid n) = Some x \<and> \<not> good t x" by auto
      have "status_at s x = Some ''pending''" using Cons.prems(4) Some by simp
      then have "status_at s1 x = Some ''skipped''"
        by (intro persist_status [OF Inr]) (simp add: TERMINAL_STEP_STATUSES_def)
      then have "\<not> good s1 x" by (simp add: good_def GOOD_def image_iff)
      then have "\<not> good t x" using good_frame [OF IH(1)] other by blast
      moreover have "frame (node_rows rows (n # ns)) s t"
        by (rule frame_trans [OF frame_mono [OF f1] frame_mono [OF IH(1)]]) (use Some in auto)
      ultimately show ?thesis using IH(2) Some by auto
    qed
  qed
qed

section \<open>The walk\<close>

lemma walk_failed_False:
  "walk_waves env r flow es rows detect gens True reported w = (w', Inr (Finished b)) \<Longrightarrow> \<not> b"
proof (induction gens arbitrary: reported w)
  case (Cons wave gens)
  then show ?case by (auto simp: Let_def split: prod.splits sum.splits)
qed auto

lemma evolves_db_ok: "evolves i X s t \<Longrightarrow> db_ok s \<Longrightarrow> db_ok t"
  by (simp add: evolves_def)

lemma walk_waves_verdict:
  assumes "executors_quiet env"
    and "walk_waves env r flow es rows detect gens failed reported w = (w', Inr (Finished b))"
    and "rows_ok (w_db w) (run_id r) rows" and "distinct (map nid (concat gens))" and "[] \<notin> set gens"
    and "\<forall>x \<in> node_rows rows (concat gens). status_at (w_db w) x = Some ''pending''"
    and "nid ` set (concat gens) \<subseteq> fst ` set rows" and "db_ok (w_db w)"
  shows "frame (node_rows rows (concat gens)) (w_db w) (w_db w')
    \<and> (b \<longleftrightarrow> \<not> failed \<and> \<not> reported \<and> (\<forall>x \<in> node_rows rows (concat gens). good (w_db w') x))"
  using assms(2-8)
proof (induction gens arbitrary: failed reported w)
  case Nil
  then show ?case by (auto simp: frame_refl)
next
  case (Cons wave gens)
  let ?Y = "node_rows rows (concat (wave # gens))" and ?Z = "node_rows rows (concat gens)"
  have Y: "?Y = node_rows rows wave \<union> ?Z" by auto
  have disj: "x \<notin> ?Z" if "x \<in> node_rows rows wave" for x
  proof
    assume "x \<in> ?Z"
    with that obtain n m where "n \<in> set wave" "m \<in> set (concat gens)" "nid n = nid m"
      using rows_inj [OF Cons.prems(2)] by blast
    with Cons.prems(3) show False by auto
  qed
  have dw: "distinct (map nid wave)" "distinct (map nid (concat gens))" using Cons.prems(3) by auto
  have after: "frame ?Y (w_db w) (w_db w') \<and> (\<forall>x \<in> node_rows rows wave. good (w_db w') x = good (w_db w1) x)
      \<and> (b \<longleftrightarrow> \<not> f \<and> \<not> rp \<and> (\<forall>x \<in> ?Z. good (w_db w') x))"
    if rest: "walk_waves env r flow es rows detect gens f rp w1 = (w', Inr (Finished b))"
      and f1: "frame (node_rows rows wave) (w_db w) (w_db w1)"
      and ok1: "db_ok (w_db w1)" "rows_ok (w_db w1) (run_id r) rows" for f rp w1
  proof -
    have "\<forall>x \<in> ?Z. status_at (w_db w1) x = Some ''pending''"
    proof
      fix x assume "x \<in> ?Z"
      then have "x \<notin> node_rows rows wave" and "x \<in> ?Y" using disj Y by blast+
      then have "status_at (w_db w) x = Some ''pending''" and "get_step (w_db w1) x = get_step (w_db w) x"
        using Cons.prems(5) frame_step [OF f1] by blast+
      then show "status_at (w_db w1) x = Some ''pending''" unfolding status_at_def by argo
    qed
    moreover have "[] \<notin> set gens" "nid ` set (concat gens) \<subseteq> fst ` set rows" using Cons.prems(4,6) by auto
    ultimately have IH: "frame ?Z (w_db w1) (w_db w')"
      "b \<longleftrightarrow> \<not> f \<and> \<not> rp \<and> (\<forall>x \<in> ?Z. good (w_db w') x)"
      using Cons.IH [OF rest ok1(2) dw(2)] ok1(1) by blast+
    have "frame ?Y (w_db w) (w_db w')"
      by (rule frame_trans [OF frame_mono [OF f1] frame_mono [OF IH(1)]]) (use Y in auto)
    with IH(2) good_frame [OF IH(1)] disj show ?thesis by blast
  qed
  have rowsE: "\<exists>x. x \<in> node_rows rows wave"
  proof -
    obtain n where n: "n \<in> set wave" using Cons.prems(4) by (cases wave) auto
    then have "nid n \<in> fst ` set rows" using Cons.prems(6) by auto
    with n show ?thesis using key_map_of_Some by fastforce
  qed
  have skipped: ?case
    if run: "(let (s, r') = skip_wave rows wave (w_db w); w1 = w\<lparr>w_db := s\<rparr> in
         case r' of Inl e \<Rightarrow> (w1, Inl e)
         | Inr _ \<Rightarrow> walk_waves env r flow es rows detect gens True reported w1) = (w', Inr (Finished b))"
  proof -
    obtain s r' where sk: "skip_wave rows wave (w_db w) = (s, r')" by fastforce
    with run have rest: "walk_waves env r flow es rows detect gens True reported (w\<lparr>w_db := s\<rparr>) = (w', Inr (Finished b))"
      and r': "\<exists>u. r' = Inr u" by (auto simp: Let_def split: sum.splits)
    have "\<forall>x \<in> node_rows rows wave. status_at (w_db w) x = Some ''pending''"
      using Cons.prems(5) Y by blast
    note sv = skip_wave_verdict [OF sk Cons.prems(2) dw(1) this]
    have ev: "evolves (run_id r) {} (w_db w) s" using skip_wave_closes [OF sk Cons.prems(2)] by blast
    have ok1: "db_ok s" "rows_ok s (run_id r) rows"
      using evolves_db_ok [OF ev Cons.prems(7)] rows_ok_evolves [OF Cons.prems(2) ev] by blast+
    note af = after [OF rest, simplified, OF _ ok1]
    have bad: "\<forall>x \<in> node_rows rows wave. \<not> good s x" using sv r' by fastforce
    with af sv rowsE have "\<not> (\<forall>x \<in> ?Y. good (w_db w') x)" unfolding Y by auto
    moreover have "\<not> b" by (rule walk_failed_False [OF rest])
    ultimately show ?thesis using af sv by auto
  qed
  show ?case
  proof (cases "(if failed then Inr True else cancel_requested (w_db w) (run_id r)) = Inr False")
    case False
    then have "(if failed then Inr True else cancel_requested (w_db w) (run_id r)) = Inr True"
      using Cons.prems(1)
      by (cases "if failed then Inr True else cancel_requested (w_db w) (run_id r)") (auto split: bool.splits)
    with Cons.prems(1) show ?thesis by (intro skipped) simp
  next
    case go: True
    then have nf: "\<not> failed" and nc: "\<not> run_cancelled (w_db w) (run_id r)"
      by (auto simp: run_cancelled_iff [OF Cons.prems(7)] status_of_def cancel_requested_def
          split: if_splits option.splits)
    obtain w1 r1 where rw: "run_wave env r flow es rows wave w = (w1, r1)" by fastforce
    with go Cons.prems(1) obtain F B where r1: "r1 = Inr (F, B)" by (cases r1) auto
    note rv = run_wave_verdict [OF assms(1) Cons.prems(2) nc dw(1) rw]
    have f1: "frame (node_rows rows wave) (w_db w) (w_db w1)" using rv by blast
    have all: "\<not> F \<and> \<not> B \<longleftrightarrow> (\<forall>x \<in> node_rows rows wave. good (w_db w1) x)" using rv r1 by blast
    have keep: "executors_keep env (run_id r)"
      using assms(1) by (simp add: executors_keep_def executors_quiet_def evolves_refl)
    have ev: "evolves (run_id r) (node_rows rows wave) (w_db w) (w_db w1)"
      using run_wave_closes [OF keep Cons.prems(2) dw(1) rw] by blast
    have ok1: "db_ok (w_db w1)" "rows_ok (w_db w1) (run_id r) rows"
      using evolves_db_ok [OF ev Cons.prems(7)] rows_ok_evolves [OF Cons.prems(2) ev] by blast+
    show ?thesis
    proof (cases F)
      case True
      with go rw r1 Cons.prems(1)
      have rest: "walk_waves env r flow es rows detect gens True reported w1 = (w', Inr (Finished b))" by simp
      have "\<not> b" by (rule walk_failed_False [OF rest])
      with after [OF rest f1 ok1] all True show ?thesis unfolding Y by blast
    next
      case False
      with go rw r1 Cons.prems(1)
      have rest: "walk_waves env r flow es rows detect gens False (reported \<or> B) w1 = (w', Inr (Finished b))"
        by (auto split: sum.splits option.splits)
      from after [OF rest f1 ok1] all False nf show ?thesis unfolding Y by blast
    qed
  qed
qed

section \<open>The rows of a run at its start\<close>

lemma create_pending_values:
  assumes "create_pending_step_results i ns s rows = (t, Inr rows')" and "db_ok s"
    and "distinct (map nid ns)" and "nid ` set ns \<inter> fst ` set rows = {}"
  shows "snd ` set rows \<subseteq> snd ` set rows'
    \<and> (\<forall>k y. get_step t k = Some y \<longrightarrow> get_step s k = Some y \<or> sr_status y = ''pending'' \<and> k \<in> snd ` set rows')"
  using assms
proof (induction ns arbitrary: s rows)
  case (Cons n ns)
  from Cons.prems(1) obtain s1 x where
    c: "create_step_result s i (nid n) (step_type_of n) (step_name_of n) = Inr (s1, x)"
    and rest: "create_pending_step_results i ns s1 (AList.update (nid n) (sr_id x) rows) = (t, Inr rows')"
    by (auto split: sum.splits prod.splits)
  have rows1: "AList.update (nid n) (sr_id x) rows = rows @ [(nid n, sr_id x)]"
    using Cons.prems(4) by (intro update_fresh) auto
  from Cons.IH [OF rest db_ok_create_step [OF Cons.prems(2) c]] Cons.prems(3,4)
  have IH: "snd ` set (rows @ [(nid n, sr_id x)]) \<subseteq> snd ` set rows'"
    "\<And>k y. get_step t k = Some y \<Longrightarrow> get_step s1 k = Some y \<or> sr_status y = ''pending'' \<and> k \<in> snd ` set rows'"
    unfolding rows1 by auto
  have "sr_id x = next_step s" "sr_status x = ''pending''"
    using c by (auto simp: create_step_result_def Let_def split: if_splits)
  have "get_step s k = Some y \<or> sr_status y = ''pending'' \<and> k \<in> snd ` set rows'" if "get_step t k = Some y" for k y
  proof (cases "k = sr_id x")
    case True
    with IH(1) IH(2) [OF that] get_step_create [OF Cons.prems(2) c, of k] \<open>sr_id x = next_step s\<close>
      \<open>sr_status x = ''pending''\<close> show ?thesis by auto
  next
    case False
    with IH(2) [OF that] get_step_create [OF Cons.prems(2) c, of k] \<open>sr_id x = next_step s\<close> show ?thesis by auto
  qed
  with IH(1) show ?case by auto
qed auto

lemma get_step_iff: "db_ok s \<Longrightarrow> get_step s k = Some y \<longleftrightarrow> y \<in> set (steps s) \<and> sr_id y = k"
proof
  assume ok: "db_ok s" and y: "y \<in> set (steps s) \<and> sr_id y = k"
  then obtain z where z: "get_step s k = Some z"
    by (cases "get_step s k") (auto simp: get_step_def find_None_iff)
  from get_step_mem [OF z] ok y have "z = y" by (auto simp: db_ok_def dest: distinct_map_eq)
  with z show "get_step s k = Some y" by simp
qed (rule get_step_mem)

lemma run_rows_iff:
  "db_ok s \<Longrightarrow> y \<in> set (get_step_results_for_run s i) \<longleftrightarrow> get_step s (sr_id y) = Some y \<and> sr_run_id y = i"
  by (auto simp: get_step_results_for_run_def get_step_iff)

lemma pending_rows:
  assumes "create_pending_step_results i os s [] = (t, Inr rows)" and "db_ok s" and "distinct (map nid os)"
    and none: "get_step_results_for_run s i = []" and y: "get_step t k = Some y" "sr_run_id y = i"
  shows "sr_status y = ''pending'' \<and> k \<in> snd ` set rows"
proof -
  have "get_step s k \<noteq> Some y"
  proof
    assume g: "get_step s k = Some y"
    moreover have "sr_id y = k" using get_step_mem [OF g] by blast
    ultimately have "y \<in> set (get_step_results_for_run s i)" using run_rows_iff [OF assms(2)] y(2) by blast
    with none show False by simp
  qed
  with create_pending_values [OF assms(1-3)] y(1) show ?thesis by auto
qed

lemma node_rows_all:
  assumes "rows_ok s i rows" and "fst ` set rows = nid ` set ns"
  shows "node_rows rows ns = snd ` set rows"
proof -
  have "x \<in> node_rows rows ns" if "(n, x) \<in> set rows" for n x
  proof -
    have "map_of rows n = Some x" using that assms(1) by (simp add: rows_ok_def)
    moreover have "n \<in> nid ` set ns" using that assms(2) by (metis fst_conv image_eqI)
    ultimately show ?thesis by blast
  qed
  then show ?thesis by (auto dest!: map_of_SomeD simp: rev_image_eqI)
qed


lemma demo_quiet: "executors_quiet demo_env"
  by (simp add: executors_quiet_def demo_env_def demo_executor_quiet)


section \<open>At most once\<close>

lemma create_pending_total:
  assumes "get_run s i \<noteq> None" and "distinct (map nid ns)"
    and "\<forall>x \<in> set (steps s). sr_run_id x = i \<longrightarrow> sr_node_id x \<notin> nid ` set ns"
  shows "\<exists>t rows'. create_pending_step_results i ns s rows = (t, Inr rows')"
  using assms
proof (induction ns arbitrary: s rows)
  case (Cons n ns)
  let ?c = "create_step_result s i (nid n) (step_type_of n) (step_name_of n)"
  have "\<not> isl ?c" using Cons.prems(1,3) by (auto simp: create_step_result_def list_ex_iff Let_def)
  then obtain s1 x where c: "?c = Inr (s1, x)" by (cases ?c) auto
  note d = create_step_result_InrD [OF c]
  have "get_run s1 i \<noteq> None" using Cons.prems(1) d(1) by (simp add: get_run_def)
  moreover have "\<forall>x \<in> set (steps s1). sr_run_id x = i \<longrightarrow> sr_node_id x \<notin> nid ` set ns"
    using Cons.prems(2,3) d(3,8) by auto
  ultimately show ?case using Cons.IH Cons.prems(2) c by simp
qed simp

lemma started_rows:
  assumes "execute_all env r flow s = (t, res)" and "db_ok s" and "executors_keep env (run_id r)"
    and "get_run s (run_id r) \<noteq> None" and plan: "run_plan env flow = Inr (es, os)" and "os \<noteq> []"
  shows "get_step_results_for_run t (run_id r) \<noteq> []"
proof -
  obtain nodes where load: "load_execution_graph (canvas_nodes flow) (canvas_edges flow) = Inr (nodes, es)"
    and os: "build_execution_plan env nodes es = Inr os"
    using plan by (auto simp: run_plan_def res_bind_def split: sum.splits)
  show ?thesis
  proof (cases "get_step_results_for_run s (run_id r) = []")
    case False
    with assms(1) load show ?thesis by (simp add: execute_all_def)
  next
    case True
    from plan_generations [OF os] obtain gens where dist: "distinct (map nid os)"
      and gens: "topological_generations os es = Inr gens" "distinct (map nid (concat gens))" by blast
    have "\<forall>x \<in> set (steps s). sr_run_id x = run_id r \<longrightarrow> sr_node_id x \<notin> nid ` set os"
      using True run_rows_iff [OF assms(2)] get_step_iff [OF assms(2)] by (metis empty_iff empty_set)
    from create_pending_total [OF assms(4) dist this] obtain s1 rows where
      cp: "create_pending_step_results (run_id r) os s [] = (s1, Inr rows)" by blast
    have "rows_ok s (run_id r) []" by (simp add: rows_ok_def)
    from create_pending_rows [OF cp this assms(2) dist]
    have rows: "rows_ok s1 (run_id r) rows" "fst ` set rows = nid ` set os" "db_ok s1" by auto
    obtain w res' where walk: "walk_waves env r flow es rows (find_fan_out nodes es) gens False False
        (start_walk s1 []) = (w, res')" by fastforce
    with assms(1) load True os cp gens have t: "t = w_db w" by (simp add: execute_all_def)
    from walk_waves_closes [OF assms(3) walk _ gens(2)] rows(1)
    have ev: "evolves (run_id r) (node_rows rows (concat gens)) s1 t" by (simp add: start_walk_def t)
    from \<open>os \<noteq> []\<close> rows(2) obtain n x where "(n, x) \<in> set rows" by (cases rows) auto
    then have "row_of s1 (run_id r) x n" using rows(1) by (auto simp: rows_ok_def)
    from row_of_evolves [OF this ev] obtain y where "get_step t x = Some y" "sr_run_id y = run_id r"
      by (auto simp: row_of_def)
    with run_rows_iff [OF evolves_db_ok [OF ev rows(3)]] show ?thesis
      by (metis empty_iff empty_set get_step_mem)
  qed
qed

text \<open>C22. A run is walked at most once: after \<open>execute_all\<close> has been called for a run whose graph has
  a step to execute, whatever came of it (a verdict, a fan-out, an exception half way), a second
  delivery of the same run is refused as already started and changes nothing, so no step with side
  effects runs twice.\<close>

theorem execute_all_at_most_once:
  assumes "execute_all env r flow s = (t, res)" and "db_ok s" and "executors_keep env (run_id r)"
    and "get_run s (run_id r) \<noteq> None" and "run_plan env flow = Inr (es, os)" and "os \<noteq> []"
  shows "execute_all env' r flow t = (t, Inl (RunAlreadyStarted ''run already has step results''))"
proof -
  have "get_step_results_for_run t (run_id r) \<noteq> []" by (rule started_rows [OF assms])
  moreover obtain nodes where "load_execution_graph (canvas_nodes flow) (canvas_edges flow) = Inr (nodes, es)"
    using assms(5) by (auto simp: run_plan_def res_bind_def split: sum.splits)
  ultimately show ?thesis by (simp add: execute_all_def)
qed

theorem execute_all_at_most_once_witness:
  "execute_all demo_env demo_run (demo_flow ''bad'') (fst (execute_all demo_env demo_run (demo_flow ''bad'') demo_db)) =
     (fst (execute_all demo_env demo_run (demo_flow ''bad'') demo_db),
      Inl (RunAlreadyStarted ''run already has step results''))"
proof (rule execute_all_at_most_once [OF demo_bad_finishes demo_db_ok demo_keep _ demo_plan])
  show "get_run demo_db (run_id demo_run) \<noteq> None" by code_simp
  show "canvas_nodes (demo_flow ''bad'') \<noteq> []" by (simp add: demo_flow_def)
qed

end
