(* ===== verification/Rbac_Store.thy ===== *)
theory Rbac_Store
  imports Prelude "HOL-Library.Product_Lexorder"
begin

text \<open>
  \<open>repositories/rbac_repository.py\<close> over the tables of \<open>core/models/rbac.py\<close> and
  \<open>core/models/users.py\<close>: permissions, roles, the two grant tables with their \<open>granted\<close> flag,
  role membership and users. A violated unique index or foreign key is an \<open>IntegrityError\<close>;
  deleting a parent row cascades. The order in which a query without \<open>ORDER BY\<close> returns
  rows is the order of the table.
\<close>

section \<open>Tables\<close>

record permission_row =
  perm_id :: nat
  perm_resource :: string
  perm_action :: string
  perm_description :: "string option"

record role_row =
  role_id :: nat
  role_name :: string
  role_description :: "string option"
  role_system :: bool

record user_row =
  user_id :: nat
  username :: string
  password_hash :: string
  is_active :: bool
  must_change_password :: bool
  token_version :: int

type_synonym grant_table = "(nat \<times> nat, bool) dict"

record rbac =
  permissions :: "permission_row list"
  roles :: "role_row list"
  role_permissions :: grant_table
  user_roles :: "(nat \<times> nat) list"
  user_permissions :: grant_table
  users :: "user_row list"
  next_permission :: nat
  next_role :: nat
  next_user :: nat

definition integrity_error :: py_exn where
  "integrity_error = OtherError ''IntegrityError''"

abbreviation perm_key :: "permission_row \<Rightarrow> string \<times> string" where
  "perm_key p \<equiv> (perm_resource p, perm_action p)"

section \<open>Permissions\<close>

definition get_permission :: "rbac \<Rightarrow> string \<Rightarrow> string \<Rightarrow> permission_row option" where
  "get_permission s r a = List.find (\<lambda>p. perm_key p = (r, a)) (permissions s)"

definition get_permission_by_id :: "rbac \<Rightarrow> nat \<Rightarrow> permission_row option" where
  "get_permission_by_id s i = List.find (\<lambda>p. perm_id p = i) (permissions s)"

definition repo_create_permission ::
  "rbac \<Rightarrow> string \<Rightarrow> string \<Rightarrow> string option \<Rightarrow> (rbac \<times> permission_row) res" where
  "repo_create_permission s r a descr =
     (if (r, a) \<in> perm_key ` set (permissions s) then Inl integrity_error
      else let p = \<lparr>perm_id = next_permission s, perm_resource = r, perm_action = a, perm_description = descr\<rparr>
           in Inr (s\<lparr>permissions := permissions s @ [p], next_permission := next_permission s + 1\<rparr>, p))"

definition list_permissions :: "rbac \<Rightarrow> permission_row list" where
  "list_permissions s = sort_key perm_key (permissions s)"

definition drop_grants :: "(nat \<times> nat \<Rightarrow> bool) \<Rightarrow> grant_table \<Rightarrow> grant_table" where
  "drop_grants gone g = filter (\<lambda>(k, _). \<not> gone k) g"

definition repo_delete_permission :: "rbac \<Rightarrow> nat \<Rightarrow> rbac \<times> bool" where
  "repo_delete_permission s i =
     (case get_permission_by_id s i of
        None \<Rightarrow> (s, False)
      | Some _ \<Rightarrow> (s\<lparr>permissions := filter (\<lambda>p. perm_id p \<noteq> i) (permissions s),
                    role_permissions := drop_grants (\<lambda>(_, p). p = i) (role_permissions s),
                    user_permissions := drop_grants (\<lambda>(_, p). p = i) (user_permissions s)\<rparr>, True))"

section \<open>Roles\<close>

definition get_role :: "rbac \<Rightarrow> nat \<Rightarrow> role_row option" where
  "get_role s i = List.find (\<lambda>r. role_id r = i) (roles s)"

definition get_role_by_name :: "rbac \<Rightarrow> string \<Rightarrow> role_row option" where
  "get_role_by_name s n = List.find (\<lambda>r. role_name r = n) (roles s)"

definition list_roles :: "rbac \<Rightarrow> role_row list" where
  "list_roles s = sort_key role_name (roles s)"

definition repo_create_role :: "rbac \<Rightarrow> string \<Rightarrow> string option \<Rightarrow> bool \<Rightarrow> (rbac \<times> role_row) res" where
  "repo_create_role s n descr sys =
     (if n \<in> role_name ` set (roles s) then Inl integrity_error
      else let r = \<lparr>role_id = next_role s, role_name = n, role_description = descr, role_system = sys\<rparr>
           in Inr (s\<lparr>roles := roles s @ [r], next_role := next_role s + 1\<rparr>, r))"

definition role_name_exists :: "rbac \<Rightarrow> string \<Rightarrow> nat option \<Rightarrow> bool" where
  "role_name_exists s n except =
     list_ex (\<lambda>r. role_name r = n \<and> (case except of None \<Rightarrow> True | Some i \<Rightarrow> role_id r \<noteq> i)) (roles s)"

text \<open>\<open>update_role\<close> keeps a field whose new value is \<open>None\<close>.\<close>

definition rename_role :: "string option \<Rightarrow> string option \<Rightarrow> role_row \<Rightarrow> role_row" where
  "rename_role n descr r =
     r\<lparr>role_name := (case n of None \<Rightarrow> role_name r | Some x \<Rightarrow> x),
       role_description := (case descr of None \<Rightarrow> role_description r | Some x \<Rightarrow> Some x)\<rparr>"

definition repo_update_role :: "rbac \<Rightarrow> nat \<Rightarrow> string option \<Rightarrow> string option \<Rightarrow> (rbac \<times> role_row option) res" where
  "repo_update_role s i n descr =
     (case get_role s i of
        None \<Rightarrow> Inr (s, None)
      | Some r \<Rightarrow>
          if (case n of None \<Rightarrow> False | Some x \<Rightarrow> role_name_exists s x (Some i)) then Inl integrity_error
          else Inr (s\<lparr>roles := map (\<lambda>x. if role_id x = i then rename_role n descr x else x) (roles s)\<rparr>,
                    Some (rename_role n descr r)))"

definition repo_delete_role :: "rbac \<Rightarrow> nat \<Rightarrow> rbac \<times> bool" where
  "repo_delete_role s i =
     (case get_role s i of
        None \<Rightarrow> (s, False)
      | Some _ \<Rightarrow> (s\<lparr>roles := filter (\<lambda>r. role_id r \<noteq> i) (roles s),
                    role_permissions := drop_grants (\<lambda>(r, _). r = i) (role_permissions s),
                    user_roles := filter (\<lambda>(_, r). r \<noteq> i) (user_roles s)\<rparr>, True))"

section \<open>Role permissions\<close>

definition repo_assign_permission_to_role :: "rbac \<Rightarrow> nat \<Rightarrow> nat \<Rightarrow> bool \<Rightarrow> rbac res" where
  "repo_assign_permission_to_role s r p granted =
     (if get_role s r = None \<or> get_permission_by_id s p = None then Inl integrity_error
      else Inr (s\<lparr>role_permissions := AList.update (r, p) granted (role_permissions s)\<rparr>))"

definition repo_remove_permission_from_role :: "rbac \<Rightarrow> nat \<Rightarrow> nat \<Rightarrow> rbac \<times> bool" where
  "repo_remove_permission_from_role s r p =
     (case map_of (role_permissions s) (r, p) of
        None \<Rightarrow> (s, False)
      | Some _ \<Rightarrow> (s\<lparr>role_permissions := drop_grants (\<lambda>k. k = (r, p)) (role_permissions s)\<rparr>, True))"

definition get_role_permissions :: "rbac \<Rightarrow> nat \<Rightarrow> permission_row list" where
  "get_role_permissions s r =
     filter (\<lambda>p. map_of (role_permissions s) (r, perm_id p) = Some True) (permissions s)"

definition user_has_permission_via_roles :: "rbac \<Rightarrow> nat \<Rightarrow> nat \<Rightarrow> bool" where
  "user_has_permission_via_roles s u p =
     list_ex (\<lambda>(u', r). u' = u \<and> map_of (role_permissions s) (r, p) = Some True) (user_roles s)"

section \<open>User roles\<close>

definition get_user :: "rbac \<Rightarrow> nat \<Rightarrow> user_row option" where
  "get_user s i = List.find (\<lambda>u. user_id u = i) (users s)"

definition repo_assign_role_to_user :: "rbac \<Rightarrow> nat \<Rightarrow> nat \<Rightarrow> rbac res" where
  "repo_assign_role_to_user s u r =
     (if (u, r) \<in> set (user_roles s) then Inr s
      else if get_user s u = None \<or> get_role s r = None then Inl integrity_error
      else Inr (s\<lparr>user_roles := user_roles s @ [(u, r)]\<rparr>))"

definition repo_remove_role_from_user :: "rbac \<Rightarrow> nat \<Rightarrow> nat \<Rightarrow> rbac \<times> bool" where
  "repo_remove_role_from_user s u r =
     (if (u, r) \<in> set (user_roles s)
      then (s\<lparr>user_roles := filter (\<lambda>x. x \<noteq> (u, r)) (user_roles s)\<rparr>, True)
      else (s, False))"

definition repo_get_user_roles :: "rbac \<Rightarrow> nat \<Rightarrow> role_row list" where
  "repo_get_user_roles s u = filter (\<lambda>r. (u, role_id r) \<in> set (user_roles s)) (roles s)"

definition get_users_with_role :: "rbac \<Rightarrow> nat \<Rightarrow> bool \<Rightarrow> user_row list" where
  "get_users_with_role s r active_only =
     filter (\<lambda>u. (user_id u, r) \<in> set (user_roles s) \<and> (active_only \<longrightarrow> is_active u)) (users s)"

section \<open>Overrides\<close>

definition repo_assign_permission_to_user :: "rbac \<Rightarrow> nat \<Rightarrow> nat \<Rightarrow> bool \<Rightarrow> rbac res" where
  "repo_assign_permission_to_user s u p granted =
     (if get_user s u = None \<or> get_permission_by_id s p = None then Inl integrity_error
      else Inr (s\<lparr>user_permissions := AList.update (u, p) granted (user_permissions s)\<rparr>))"

definition repo_remove_permission_from_user :: "rbac \<Rightarrow> nat \<Rightarrow> nat \<Rightarrow> rbac \<times> bool" where
  "repo_remove_permission_from_user s u p =
     (case map_of (user_permissions s) (u, p) of
        None \<Rightarrow> (s, False)
      | Some _ \<Rightarrow> (s\<lparr>user_permissions := drop_grants (\<lambda>k. k = (u, p)) (user_permissions s)\<rparr>, True))"

definition get_user_permission_override :: "rbac \<Rightarrow> nat \<Rightarrow> nat \<Rightarrow> bool option" where
  "get_user_permission_override s u p = map_of (user_permissions s) (u, p)"

definition get_user_permission_overrides_with_status :: "rbac \<Rightarrow> nat \<Rightarrow> (permission_row \<times> bool) list" where
  "get_user_permission_overrides_with_status s u =
     List.map_filter (\<lambda>p. map_option (\<lambda>g. (p, g)) (map_of (user_permissions s) (u, perm_id p))) (permissions s)"

section \<open>Users\<close>

definition get_by_username :: "rbac \<Rightarrow> string \<Rightarrow> user_row option" where
  "get_by_username s n = List.find (\<lambda>u. username u = n) (users s)"

definition get_by_username_ci :: "rbac \<Rightarrow> string \<Rightarrow> user_row option" where
  "get_by_username_ci s n = List.find (\<lambda>u. py_lower (username u) = py_lower (py_strip n)) (users s)"

definition repo_create_user :: "rbac \<Rightarrow> string \<Rightarrow> string \<Rightarrow> bool \<Rightarrow> bool \<Rightarrow> (rbac \<times> user_row) res" where
  "repo_create_user s n h active must =
     (if py_lower n \<in> (\<lambda>u. py_lower (username u)) ` set (users s) then Inl integrity_error
      else let u = \<lparr>user_id = next_user s, username = n, password_hash = h, is_active = active,
                    must_change_password = must, token_version = 0\<rparr>
           in Inr (s\<lparr>users := users s @ [u], next_user := next_user s + 1\<rparr>, u))"

record user_updates =
  upd_username :: "string option"
  upd_password_hash :: "string option"
  upd_active :: "bool option"
  upd_must_change :: "bool option"

definition no_updates :: user_updates where
  "no_updates = \<lparr>upd_username = None, upd_password_hash = None, upd_active = None, upd_must_change = None\<rparr>"

definition apply_updates :: "user_updates \<Rightarrow> bool \<Rightarrow> user_row \<Rightarrow> user_row" where
  "apply_updates v bump u =
     u\<lparr>username := (case upd_username v of None \<Rightarrow> username u | Some x \<Rightarrow> x),
       password_hash := (case upd_password_hash v of None \<Rightarrow> password_hash u | Some x \<Rightarrow> x),
       is_active := (case upd_active v of None \<Rightarrow> is_active u | Some x \<Rightarrow> x),
       must_change_password := (case upd_must_change v of None \<Rightarrow> must_change_password u | Some x \<Rightarrow> x),
       token_version := (if bump then token_version u + 1 else token_version u)\<rparr>"

definition repo_update_user :: "rbac \<Rightarrow> nat \<Rightarrow> bool \<Rightarrow> user_updates \<Rightarrow> (rbac \<times> user_row option) res" where
  "repo_update_user s i bump v =
     (case get_user s i of
        None \<Rightarrow> Inr (s, None)
      | Some u \<Rightarrow>
          if list_ex (\<lambda>x. user_id x \<noteq> i \<and> py_lower (username x) = py_lower (username (apply_updates v bump u))) (users s)
          then Inl integrity_error
          else Inr (s\<lparr>users := map (\<lambda>x. if user_id x = i then apply_updates v bump x else x) (users s)\<rparr>,
                    Some (apply_updates v bump u)))"

definition repo_delete_user :: "rbac \<Rightarrow> nat \<Rightarrow> rbac \<times> bool" where
  "repo_delete_user s i =
     (case get_user s i of
        None \<Rightarrow> (s, False)
      | Some _ \<Rightarrow> (s\<lparr>users := filter (\<lambda>u. user_id u \<noteq> i) (users s),
                    user_roles := filter (\<lambda>(u, _). u \<noteq> i) (user_roles s),
                    user_permissions := drop_grants (\<lambda>(u, _). u = i) (user_permissions s)\<rparr>, True))"

end
