(* ===== verification/Rbac_Catalog.thy ===== *)
theory Rbac_Catalog
  imports Prelude
begin

text \<open>
  The permission catalogue of \<open>services/auth/rbac_seed.py\<close>: the built-in permissions with their
  descriptions, the system roles and the permission sets of the two restricted ones.
\<close>

definition DEFAULT_PERMISSIONS :: "(string \<times> string \<times> string) list" where
  "DEFAULT_PERMISSIONS =
    [(''reports'', ''read'', ''Query report data and view reports''),
     (''reports'', ''write'', ''Create and edit reports''),
     (''reports'', ''delete'', ''Delete reports and report snapshots''),
     (''reports'', ''send'',
      ''Send report snapshots by email (PDF download needs only reports:read)''),
     (''git.repositories'', ''read'', ''View git repository configurations''),
     (''git.repositories'', ''write'', ''Create or update git repository configurations''),
     (''git.repositories'', ''delete'', ''Delete git repository configurations''),
     (''git.operations'', ''execute'', ''Sync (clone/pull/push) git repositories''),
     (''git.files'', ''read'', ''Browse files inside a git repository''),
     (''git.debug'', ''read'', ''View git repository diagnostics''),
     (''git.debug'', ''execute'', ''Run git debug probes (read/write/delete/push)''),
     (''sources.nautobot'', ''read'', ''View Nautobot-backed inventory sources''),
     (''sources.nautobot'', ''write'', ''Create or update Nautobot-backed inventory sources''),
     (''sources.nautobot'', ''delete'', ''Delete Nautobot-backed inventory sources''),
     (''sources.ise'', ''read'', ''View Cisco ISE sources and network devices''),
     (''sources.ise'', ''write'', ''Create or update Cisco ISE sources and network devices''),
     (''sources.ise'', ''delete'', ''Delete Cisco ISE sources and network devices''),
     (''sources.catalyst_center'', ''read'', ''View Cisco Catalyst Center sources''),
     (''sources.catalyst_center'', ''write'', ''Create or update Cisco Catalyst Center sources''),
     (''sources.catalyst_center'', ''delete'', ''Delete Cisco Catalyst Center sources''),
     (''sources.aci'', ''read'', ''View Cisco ACI (APIC) sources and fabric switches''),
     (''sources.aci'', ''write'', ''Create or update Cisco ACI (APIC) sources''),
     (''sources.aci'', ''delete'', ''Delete Cisco ACI (APIC) sources''),
     (''sources.pyats'', ''read'', ''View pyATS shim sources''),
     (''sources.pyats'', ''write'', ''Create or update pyATS shim sources''),
     (''sources.pyats'', ''delete'', ''Delete pyATS shim sources''),
     (''sources.batfish'', ''read'', ''View Batfish sources and list networks/snapshots''),
     (''sources.batfish'', ''write'', ''Create or update Batfish sources''),
     (''sources.batfish'', ''delete'', ''Delete Batfish sources''),
     (''sources.batfish'', ''query'', ''Run ad-hoc Batfish questions from the template editor''),
     (''sources.agent'', ''read'',
      ''View agent sources (transport and identity; never the secret)''),
     (''sources.agent'', ''write'', ''Create or update agent sources''),
     (''sources.agent'', ''delete'', ''Delete agent sources''),
     (''sources.mattermost'', ''read'', ''View Mattermost sources''),
     (''sources.mattermost'', ''write'', ''Create or update Mattermost sources''),
     (''sources.mattermost'', ''delete'', ''Delete Mattermost sources''),
     (''secret_manager.connections'', ''read'', ''View secret manager connection configurations''),
     (''secret_manager.connections'', ''write'',
      ''Create or update secret manager connection configurations''),
     (''secret_manager.connections'', ''delete'',
      ''Delete secret manager connection configurations''),
     (''workflow_steps'', ''read'', ''View available workflow step plugins and configs''),
     (''workflows'', ''read'', ''View workflow definitions''),
     (''workflows'', ''write'', ''Create or update workflow definitions''),
     (''workflows'', ''delete'', ''Delete workflow definitions''),
     (''workflows'', ''execute'', ''Trigger, cancel, or step a workflow run''),
     (''workflows'', ''publish'',
      ''Publish or unpublish a workflow to the background execution tier''),
     (''workflows'', ''release_ai'',
      ''Release a workflow so the Ask the Net assistant can propose running it''),
     (''workflow_runs'', ''read'', ''View workflow run history, logs, and artifacts''),
     (''workflow_runs'', ''delete'', ''Delete workflow run history''),
     (''change_requests'', ''read'', ''View change requests and rendered-config diffs''),
     (''change_requests'', ''approve'', ''Approve, deploy, or reject a change request''),
     (''netmiko'', ''execute'', ''Run commands against network devices via Netmiko''),
     (''credentials'', ''read'', ''View credential metadata''),
     (''credentials'', ''write'', ''Create or update credentials''),
     (''credentials'', ''delete'', ''Delete credentials''),
     (''credentials'', ''reveal'', ''View decrypted credential secrets''),
     (''templates'', ''read'', ''View and render command/config templates''),
     (''templates'', ''write'', ''Create or update templates''),
     (''templates'', ''delete'', ''Delete templates''),
     (''settings'', ''read'', ''View application settings''),
     (''settings'', ''write'', ''Create or update application settings''),
     (''hatchet_settings'', ''read'', ''View Hatchet workflow engine settings''),
     (''cache_settings'', ''read'', ''View cache/Redis settings and stats''),
     (''cache_settings'', ''write'', ''Update or clear cache/Redis settings''),
     (''logging_settings'', ''read'', ''View application logging configuration''),
     (''logging_settings'', ''write'', ''Update application logging configuration''),
     (''general_settings'', ''read'', ''View application general configuration''),
     (''general_settings'', ''write'', ''Update application general configuration''),
     (''rbac.permissions'', ''read'', ''View the permission catalog''),
     (''rbac.permissions'', ''write'', ''Create permissions''),
     (''rbac.permissions'', ''delete'', ''Delete permissions''),
     (''rbac.roles'', ''read'', ''View roles and their permissions''),
     (''rbac.roles'', ''write'', ''Create or update roles and role-permission assignments''),
     (''rbac.roles'', ''delete'', ''Delete roles''),
     (''users'', ''read'', ''View user accounts and their roles''),
     (''users'', ''write'', ''Create or update user accounts, roles, and permission overrides''),
     (''users'', ''delete'', ''Delete user accounts''),
     (''system.database'', ''read'', ''View database schema sync status''),
     (''system.database'', ''write'', ''Apply database schema migrations''),
     (''system.rbac'', ''write'', ''Re-seed or reset the RBAC permission/role catalog''),
     (''system.certificates'', ''read'', ''View CA certificate files and system trust status''),
     (''system.certificates'', ''write'', ''Upload, install, or remove CA certificate files''),
     (''system.oidc'', ''read'', ''View OIDC provider configuration and debug status''),
     (''system.mail'', ''read'', ''View the mail (SMTP) server settings''),
     (''system.mail'', ''write'',
      ''Change the mail (SMTP) server settings and test the connection''),
     (''ai_assistant'', ''use'',
      ''Use the in-app AI assistant (also requires the user to enable it)'')]"

definition default_permission_keys :: "(string \<times> string) list" where
  "default_permission_keys = map (\<lambda>(r, a, _). (r, a)) DEFAULT_PERMISSIONS"

definition SYSTEM_ROLES :: "(string \<times> string) list" where
  "SYSTEM_ROLES =
    [(''admin'',
      ''Full access to every resource and action''),
     (''viewer'',
      ''Read access to workflows, runs, inventory, change requests, reports, templates and repository files''),
     (''ai-assistant'',
      ''Restricted role for the AI workflow-building assistant'')]"

text \<open>A frozen set in the source; the order in which the seed visits it has no effect.\<close>

definition VIEWER_PERMISSIONS :: "(string \<times> string) list" where
  "VIEWER_PERMISSIONS =
    [(''workflows'', ''read''), (''workflow_runs'', ''read''), (''sources.nautobot'', ''read''), (''change_requests'', ''read''),
     (''reports'', ''read''), (''templates'', ''read''), (''workflow_steps'', ''read''), (''git.files'', ''read'')]"

definition AI_ASSISTANT_PERMISSIONS :: "(string \<times> string) list" where
  "AI_ASSISTANT_PERMISSIONS =
    [(''workflows'', ''read''),
     (''workflows'', ''write''),
     (''credentials'', ''read''),
     (''git.repositories'', ''read''),
     (''sources.nautobot'', ''read''),
     (''sources.mattermost'', ''read''),
     (''sources.batfish'', ''read''),
     (''sources.pyats'', ''read''),
     (''templates'', ''read''),
     (''templates'', ''write'')]"

end
