(* ===== verification/Rbac_Service.thy ===== *)
theory Rbac_Service
  imports Rbac_Store Rbac_Catalog
begin

text \<open>
  \<open>services/auth/rbac_service.py\<close>: the permission decision, the policy guards P1 to P6 and the
  administrative operations they protect, then \<open>services/users/user_service.py\<close> with the same
  guards. An operation returns the new tables and its result, or the exception; a raised exception
  leaves the tables as they were. The actor \<open>None\<close> is an internal caller.
\<close>

section \<open>Policy\<close>

definition ADMIN_ROLE_NAME :: string where
  "ADMIN_ROLE_NAME = ''admin''"

definition PROTECTED_RESOURCES :: "string list" where
  "PROTECTED_RESOURCES = [''rbac.'', ''users'', ''system.'', ''secret_manager.'']"

definition PROTECTED_SOURCE_ACTIONS :: "string set" where
  "PROTECTED_SOURCE_ACTIONS = {''write'', ''delete''}"

definition PROTECTED_GIT_ACTIONS :: "string set" where
  "PROTECTED_GIT_ACTIONS = {''write'', ''delete''}"

definition PROTECTED_WORKFLOW_ACTIONS :: "string set" where
  "PROTECTED_WORKFLOW_ACTIONS = {''release_ai''}"

definition protected_key :: "string \<times> string \<Rightarrow> bool" where
  "protected_key k = (case k of (r, a) \<Rightarrow>
     r = ''workflows'' \<and> a \<in> PROTECTED_WORKFLOW_ACTIONS
     \<or> startswith r ''sources.'' \<and> a \<in> PROTECTED_SOURCE_ACTIONS
     \<or> r = ''git.repositories'' \<and> a \<in> PROTECTED_GIT_ACTIONS
     \<or> list_ex (\<lambda>p. r = rstrip_char (CHR ''.'') p \<or> startswith r p) PROTECTED_RESOURCES)"

definition is_protected :: "permission_row \<Rightarrow> bool" where
  "is_protected p = protected_key (perm_key p)"

section \<open>Decisions\<close>

definition has_permission :: "rbac \<Rightarrow> nat \<Rightarrow> string \<Rightarrow> string \<Rightarrow> bool" where
  "has_permission s u r a =
     (case get_permission s r a of
        None \<Rightarrow> False
      | Some p \<Rightarrow>
         (case get_user_permission_override s u (perm_id p) of
            Some granted \<Rightarrow> granted
          | None \<Rightarrow> user_has_permission_via_roles s u (perm_id p)))"

definition check_any_permission :: "rbac \<Rightarrow> nat \<Rightarrow> (string \<times> string) list \<Rightarrow> bool" where
  "check_any_permission s u checks = list_ex (\<lambda>(r, a). has_permission s u r a) checks"

definition check_all_permissions :: "rbac \<Rightarrow> nat \<Rightarrow> (string \<times> string) list \<Rightarrow> bool" where
  "check_all_permissions s u checks = list_all (\<lambda>(r, a). has_permission s u r a) checks"

definition has_role :: "rbac \<Rightarrow> nat \<Rightarrow> string \<Rightarrow> bool" where
  "has_role s u n = list_ex (\<lambda>r. role_name r = n) (repo_get_user_roles s u)"

definition get_user_roles :: "rbac \<Rightarrow> nat \<Rightarrow> string list" where
  "get_user_roles s u = map role_name (repo_get_user_roles s u)"

definition merge_role :: "rbac \<Rightarrow> (string \<times> string, permission_row \<times> string) dict \<Rightarrow> role_row \<Rightarrow>
    (string \<times> string, permission_row \<times> string) dict" where
  "merge_role s merged r =
     foldl (\<lambda>m p. AList.update (perm_key p) (p, ''role'') m) merged (get_role_permissions s (role_id r))"

definition merge_override :: "(string \<times> string, permission_row \<times> string) dict \<Rightarrow> permission_row \<times> bool \<Rightarrow>
    (string \<times> string, permission_row \<times> string) dict" where
  "merge_override merged pg =
     (case pg of (p, granted) \<Rightarrow>
        if granted then AList.update (perm_key p) (p, ''override'') merged
        else AList.delete (perm_key p) merged)"

definition get_effective_permissions :: "rbac \<Rightarrow> nat \<Rightarrow> (permission_row \<times> string) list" where
  "get_effective_permissions s u =
     (let via_roles = foldl (merge_role s) [] (repo_get_user_roles s u);
          merged = foldl merge_override via_roles (get_user_permission_overrides_with_status s u)
      in map snd (sort_key fst merged))"

definition get_user_permission_strings :: "rbac \<Rightarrow> nat \<Rightarrow> string list" where
  "get_user_permission_strings s u =
     map (\<lambda>(p, _). perm_resource p @ '':'' @ perm_action p) (get_effective_permissions s u)"

definition role_has_members :: "rbac \<Rightarrow> string \<Rightarrow> bool" where
  "role_has_members s n =
     (case get_role_by_name s n of None \<Rightarrow> False | Some r \<Rightarrow> get_users_with_role s (role_id r) True \<noteq> [])"

section \<open>Guards\<close>

definition is_admin :: "rbac \<Rightarrow> nat option \<Rightarrow> bool" where
  "is_admin s actor = (case actor of None \<Rightarrow> False | Some u \<Rightarrow> has_role s u ADMIN_ROLE_NAME)"

definition require_admin_actor :: "rbac \<Rightarrow> nat option \<Rightarrow> unit res" where
  "require_admin_actor s actor =
     (case actor of
        None \<Rightarrow> Inr ()
      | Some u \<Rightarrow> if has_role s u ''admin'' then Inr ()
                 else Inl (AccessDeniedError ''Admin role required to modify system roles''))"

definition assert_not_self :: "nat option \<Rightarrow> nat \<Rightarrow> unit res" where
  "assert_not_self actor target =
     (if actor = Some target then Inl (AccessDeniedError ''You cannot change your own roles or permissions'')
      else Inr ())"

definition may_touch_target :: "rbac \<Rightarrow> nat option \<Rightarrow> nat \<Rightarrow> unit res" where
  "may_touch_target s actor target =
     (if actor = None \<or> is_admin s actor then Inr ()
      else if is_admin s (Some target)
      then Inl (AccessDeniedError ''Admin role required to modify an administrator'')
      else Inr ())"

definition assert_holds_one :: "rbac \<Rightarrow> nat \<Rightarrow> unit \<Rightarrow> permission_row \<Rightarrow> unit res" where
  "assert_holds_one s u _ p =
     (if is_protected p
      then Inl (AccessDeniedError (''Admin role required to grant '' @ perm_resource p @ '':'' @ perm_action p))
      else if \<not> has_permission s u (perm_resource p) (perm_action p)
      then Inl (AccessDeniedError (''You cannot grant '' @ perm_resource p @ '':'' @ perm_action p @
             '' because you do not hold it''))
      else Inr ())"

definition assert_actor_holds :: "rbac \<Rightarrow> nat option \<Rightarrow> permission_row list \<Rightarrow> unit res" where
  "assert_actor_holds s actor ps =
     (case actor of
        None \<Rightarrow> Inr ()
      | Some u \<Rightarrow> if is_admin s actor then Inr () else res_fold (assert_holds_one s u) () ps)"

definition take_over_one :: "rbac \<Rightarrow> nat \<Rightarrow> unit \<Rightarrow> permission_row \<times> string \<Rightarrow> unit res" where
  "take_over_one s u _ ps =
     (case ps of (p, _) \<Rightarrow>
        if is_protected p \<or> \<not> has_permission s u (perm_resource p) (perm_action p)
        then Inl (AccessDeniedError (''Admin role required to reset the password or rename a user who holds '' @
               perm_resource p @ '':'' @ perm_action p))
        else Inr ())"

definition assert_may_take_over :: "rbac \<Rightarrow> nat option \<Rightarrow> nat \<Rightarrow> unit res" where
  "assert_may_take_over s actor target =
     (case actor of
        None \<Rightarrow> Inr ()
      | Some u \<Rightarrow>
          if u = target \<or> is_admin s actor then Inr ()
          else res_fold (take_over_one s u) () (get_effective_permissions s target))"

definition assert_not_last_admin :: "rbac \<Rightarrow> nat \<Rightarrow> unit res" where
  "assert_not_last_admin s u =
     (case get_role_by_name s ADMIN_ROLE_NAME of
        None \<Rightarrow> Inr ()
      | Some r \<Rightarrow>
          if \<not> has_role s u ADMIN_ROLE_NAME then Inr ()
          else if filter (\<lambda>x. user_id x \<noteq> u) (get_users_with_role s (role_id r) True) = []
          then Inl (AccessDeniedError ''The last administrator cannot be removed'')
          else Inr ())"

section \<open>Permissions and roles\<close>

definition create_permission :: "rbac \<Rightarrow> string \<Rightarrow> string \<Rightarrow> string option \<Rightarrow> (rbac \<times> permission_row) res" where
  "create_permission s r a descr =
     (if get_permission s r a \<noteq> None
      then Inl (ConflictError (''Permission '' @ r @ '':'' @ a @ '' already exists''))
      else repo_create_permission s r a descr)"

definition delete_permission :: "rbac \<Rightarrow> nat \<Rightarrow> (rbac \<times> bool) res" where
  "delete_permission s i =
     (case get_permission_by_id s i of
        Some p \<Rightarrow>
          if perm_key p \<in> set default_permission_keys
          then Inl (ConflictError ''Built-in permissions cannot be deleted'')
          else Inr (repo_delete_permission s i)
      | None \<Rightarrow> Inr (repo_delete_permission s i))"

definition create_role :: "rbac \<Rightarrow> nat option \<Rightarrow> string \<Rightarrow> string option \<Rightarrow> bool \<Rightarrow> (rbac \<times> role_row) res" where
  "create_role s actor n descr sys =
     res_bind (if sys then require_admin_actor s actor else Inr ()) (\<lambda>_. repo_create_role s n descr sys)"

definition update_role :: "rbac \<Rightarrow> nat option \<Rightarrow> nat \<Rightarrow> string option \<Rightarrow> string option \<Rightarrow>
    (rbac \<times> role_row option) res" where
  "update_role s actor i n descr =
     (case get_role s i of
        None \<Rightarrow> Inr (s, None)
      | Some r \<Rightarrow>
          res_bind
            (if role_system r
             then res_bind (require_admin_actor s actor) (\<lambda>_.
                    if n \<noteq> None \<and> n \<noteq> Some (role_name r)
                    then Inl (AccessDeniedError ''System roles cannot be renamed'') else Inr ())
             else Inr ())
            (\<lambda>_. repo_update_role s i n descr))"

definition delete_role :: "rbac \<Rightarrow> nat option \<Rightarrow> nat \<Rightarrow> (rbac \<times> bool) res" where
  "delete_role s actor i =
     (if (case get_role s i of None \<Rightarrow> False | Some r \<Rightarrow> role_system r)
      then Inl (ConflictError ''System roles cannot be deleted'')
      else if actor \<noteq> None \<and> \<not> is_admin s actor
        \<and> list_ex (\<lambda>u. is_admin s (Some (user_id u))) (get_users_with_role s i False)
      then Inl (AccessDeniedError ''Admin role required to delete a role held by an administrator'')
      else Inr (repo_delete_role s i))"

definition system_role_guard :: "rbac \<Rightarrow> nat option \<Rightarrow> nat \<Rightarrow> unit res" where
  "system_role_guard s actor i =
     (case get_role s i of
        None \<Rightarrow> Inr ()
      | Some r \<Rightarrow> if role_system r then require_admin_actor s actor else Inr ())"

definition assign_permission_to_role :: "rbac \<Rightarrow> nat option \<Rightarrow> nat \<Rightarrow> nat \<Rightarrow> bool \<Rightarrow> rbac res" where
  "assign_permission_to_role s actor i p granted =
     res_bind (system_role_guard s actor i) (\<lambda>_.
     res_bind (case get_permission_by_id s p of
                 None \<Rightarrow> Inr ()
               | Some q \<Rightarrow> if granted then assert_actor_holds s actor [q] else Inr ()) (\<lambda>_.
     repo_assign_permission_to_role s i p granted))"

definition remove_permission_from_role :: "rbac \<Rightarrow> nat option \<Rightarrow> nat \<Rightarrow> nat \<Rightarrow> (rbac \<times> bool) res" where
  "remove_permission_from_role s actor i p =
     res_bind (system_role_guard s actor i) (\<lambda>_. Inr (repo_remove_permission_from_role s i p))"

section \<open>Users, roles and overrides\<close>

definition touch_guard :: "rbac \<Rightarrow> nat option \<Rightarrow> nat \<Rightarrow> unit res" where
  "touch_guard s actor u = res_bind (assert_not_self actor u) (\<lambda>_. may_touch_target s actor u)"

definition assign_role_to_user :: "rbac \<Rightarrow> nat option \<Rightarrow> nat \<Rightarrow> nat \<Rightarrow> rbac res" where
  "assign_role_to_user s actor u i =
     res_bind (touch_guard s actor u) (\<lambda>_.
     res_bind (case get_role s i of
                 None \<Rightarrow> Inr ()
               | Some r \<Rightarrow> if role_system r then require_admin_actor s actor
                          else assert_actor_holds s actor (get_role_permissions s (role_id r))) (\<lambda>_.
     repo_assign_role_to_user s u i))"

definition assign_role_to_user_by_name :: "rbac \<Rightarrow> nat \<Rightarrow> string \<Rightarrow> rbac res" where
  "assign_role_to_user_by_name s u n =
     (case get_role_by_name s n of None \<Rightarrow> Inr s | Some r \<Rightarrow> repo_assign_role_to_user s u (role_id r))"

definition remove_role_from_user :: "rbac \<Rightarrow> nat option \<Rightarrow> nat \<Rightarrow> nat \<Rightarrow> (rbac \<times> bool) res" where
  "remove_role_from_user s actor u i =
     res_bind (touch_guard s actor u) (\<lambda>_.
     res_bind (case get_role s i of
                 None \<Rightarrow> Inr ()
               | Some r \<Rightarrow>
                   if role_system r
                   then res_bind (require_admin_actor s actor) (\<lambda>_.
                          if role_name r = ADMIN_ROLE_NAME then assert_not_last_admin s u else Inr ())
                   else Inr ()) (\<lambda>_.
     Inr (repo_remove_role_from_user s u i)))"

definition assign_permission_to_user :: "rbac \<Rightarrow> nat option \<Rightarrow> nat \<Rightarrow> nat \<Rightarrow> bool \<Rightarrow> rbac res" where
  "assign_permission_to_user s actor u p granted =
     res_bind (touch_guard s actor u) (\<lambda>_.
     res_bind (case get_permission_by_id s p of
                 None \<Rightarrow> Inr ()
               | Some q \<Rightarrow> if granted then assert_actor_holds s actor [q]
                          else if is_protected q then require_admin_actor s actor else Inr ()) (\<lambda>_.
     repo_assign_permission_to_user s u p granted))"

definition remove_permission_from_user :: "rbac \<Rightarrow> nat option \<Rightarrow> nat \<Rightarrow> nat \<Rightarrow> (rbac \<times> bool) res" where
  "remove_permission_from_user s actor u p =
     res_bind (touch_guard s actor u) (\<lambda>_. Inr (repo_remove_permission_from_user s u p))"

end
