(* ===== verification/Rbac_Policy.thy ===== *)
theory Rbac_Policy
  imports Rbac_Service
begin

text \<open>
  What the RBAC guards achieve together. The tables stay consistent under every operation; a user
  without the admin role, whatever sequence of operations he calls, gains no permission and makes
  nobody an administrator, and even several such users together cannot spread a protected
  permission.
\<close>

section \<open>Consistent tables\<close>

definition rbac_ok :: "rbac \<Rightarrow> bool" where
  "rbac_ok s \<longleftrightarrow>
     distinct (map perm_id (permissions s)) \<and> distinct (map perm_key (permissions s))
     \<and> (\<forall>p \<in> set (permissions s). perm_id p < next_permission s)
     \<and> distinct (map role_id (roles s)) \<and> distinct (map role_name (roles s))
     \<and> (\<forall>r \<in> set (roles s). role_id r < next_role s \<and> (role_name r = ADMIN_ROLE_NAME \<longrightarrow> role_system r))
     \<and> ADMIN_ROLE_NAME \<in> role_name ` set (roles s)
     \<and> dict_ok (role_permissions s) \<and> dict_ok (user_permissions s)
     \<and> fst ` set (role_permissions s) \<subseteq> role_id ` set (roles s) \<times> perm_id ` set (permissions s)
     \<and> fst ` set (user_permissions s) \<subseteq> user_id ` set (users s) \<times> perm_id ` set (permissions s)
     \<and> set (user_roles s) \<subseteq> user_id ` set (users s) \<times> role_id ` set (roles s)
     \<and> distinct (map user_id (users s)) \<and> (\<forall>u \<in> set (users s). user_id u < next_user s)"

lemma rbac_ok_refs:
  assumes "rbac_ok s"
  shows "fst ` set (role_permissions s) \<subseteq> role_id ` set (roles s) \<times> perm_id ` set (permissions s)"
    and "fst ` set (user_permissions s) \<subseteq> user_id ` set (users s) \<times> perm_id ` set (permissions s)"
    and "set (user_roles s) \<subseteq> user_id ` set (users s) \<times> role_id ` set (roles s)"
  using assms by (simp_all add: rbac_ok_def)

text \<open>\<open>holds s u i\<close>: the decision of \<open>has_permission\<close> on a permission id.\<close>

definition holds :: "rbac \<Rightarrow> nat \<Rightarrow> nat \<Rightarrow> bool" where
  "holds s u i = (case map_of (user_permissions s) (u, i) of
     Some g \<Rightarrow> g | None \<Rightarrow> user_has_permission_via_roles s u i)"

definition rights :: "rbac \<Rightarrow> nat \<Rightarrow> (string \<times> string) set" where
  "rights s u = {(r, a). has_permission s u r a}"

text \<open>What a user holds, or would hold if every deny override of his were lifted.\<close>

definition potential :: "rbac \<Rightarrow> nat \<Rightarrow> (string \<times> string) set" where
  "potential s u = perm_key ` {p \<in> set (permissions s).
     map_of (user_permissions s) (u, perm_id p) = Some True \<or> user_has_permission_via_roles s u (perm_id p)}"

lemma find_unique:
  assumes "distinct (map f xs)" and "x \<in> set xs"
  shows "List.find (\<lambda>y. f y = f x) xs = Some x"
proof -
  obtain y where y: "List.find (\<lambda>y. f y = f x) xs = Some y"
    using assms(2) by (cases "List.find (\<lambda>y. f y = f x) xs") (auto simp: find_None_iff)
  then have "y \<in> set xs" "f y = f x" by (auto dest: find_key_mem)
  with assms y show ?thesis by (metis distinct_map_eq)
qed

lemma get_permission_eq:
  assumes "rbac_ok s" and "p \<in> set (permissions s)"
  shows "get_permission s (perm_resource p) (perm_action p) = Some p"
    and "get_permission_by_id s (perm_id p) = Some p"
  using assms find_unique [of perm_key "permissions s" p] find_unique [of perm_id "permissions s" p]
  by (simp_all add: get_permission_def get_permission_by_id_def rbac_ok_def)

lemma has_permission_holds:
  "rbac_ok s \<Longrightarrow> p \<in> set (permissions s) \<Longrightarrow>
     has_permission s u (perm_resource p) (perm_action p) = holds s u (perm_id p)"
  by (simp add: has_permission_def get_permission_eq holds_def get_user_permission_override_def)

lemma rights_eq:
  assumes "rbac_ok s"
  shows "rights s u = perm_key ` {p \<in> set (permissions s). holds s u (perm_id p)}"
proof -
  have "\<exists>p \<in> set (permissions s). perm_key p = (r, a)" if "has_permission s u r a" for r a
    using that by (auto simp: has_permission_def get_permission_def find_Some_iff split: option.splits)
  then show ?thesis using has_permission_holds [OF assms] by (fastforce simp: rights_def)
qed

lemma rights_potential: "rbac_ok s \<Longrightarrow> rights s u \<subseteq> potential s u"
  by (auto simp: rights_eq potential_def holds_def split: option.splits)

lemma get_role_SomeD: "get_role s i = Some r \<Longrightarrow> r \<in> set (roles s) \<and> role_id r = i"
  unfolding get_role_def by (rule find_key_mem)

lemma get_permission_by_id_SomeD: "get_permission_by_id s i = Some p \<Longrightarrow> p \<in> set (permissions s) \<and> perm_id p = i"
  unfolding get_permission_by_id_def by (rule find_key_mem)

lemma get_user_SomeD: "get_user s i = Some u \<Longrightarrow> u \<in> set (users s) \<and> user_id u = i"
  unfolding get_user_def by (rule find_key_mem)

lemma has_role_iff:
  "has_role s u n \<longleftrightarrow> (\<exists>r \<in> set (roles s). role_name r = n \<and> (u, role_id r) \<in> set (user_roles s))"
  by (auto simp: has_role_def repo_get_user_roles_def list_ex_iff)

lemma via_roles_iff:
  "user_has_permission_via_roles s u i \<longleftrightarrow>
     (\<exists>r. (u, r) \<in> set (user_roles s) \<and> map_of (role_permissions s) (r, i) = Some True)"
  by (auto simp: user_has_permission_via_roles_def list_ex_iff)

lemma map_of_drop_grants:
  "map_of (drop_grants gone g) k = (if gone k then None else map_of g k)"
  by (induction g) (auto simp: drop_grants_def)

lemma keys_drop_grants: "fst ` set (drop_grants gone g) = {k \<in> fst ` set g. \<not> gone k}"
  by (auto simp: drop_grants_def)

lemma dict_ok_drop_grants: "dict_ok g \<Longrightarrow> dict_ok (drop_grants gone g)"
  by (simp add: drop_grants_def distinct_map_filter)

section \<open>Operations\<close>

text \<open>The administrative operations an actor can call.\<close>

inductive rbac_op :: "nat option \<Rightarrow> rbac \<Rightarrow> rbac \<Rightarrow> bool" for actor where
  op_create_permission: "create_permission s r a d = Inr (t, p) \<Longrightarrow> rbac_op actor s t"
| op_delete_permission: "delete_permission s i = Inr (t, b) \<Longrightarrow> rbac_op actor s t"
| op_create_role: "create_role s actor n d sys = Inr (t, r) \<Longrightarrow> rbac_op actor s t"
| op_update_role: "update_role s actor i n d = Inr (t, r) \<Longrightarrow> rbac_op actor s t"
| op_delete_role: "delete_role s actor i = Inr (t, b) \<Longrightarrow> rbac_op actor s t"
| op_grant_role: "assign_permission_to_role s actor i p g = Inr t \<Longrightarrow> rbac_op actor s t"
| op_revoke_role: "remove_permission_from_role s actor i p = Inr (t, b) \<Longrightarrow> rbac_op actor s t"
| op_assign_role: "assign_role_to_user s actor u i = Inr t \<Longrightarrow> rbac_op actor s t"
| op_remove_role: "remove_role_from_user s actor u i = Inr (t, b) \<Longrightarrow> rbac_op actor s t"
| op_override: "assign_permission_to_user s actor u p g = Inr t \<Longrightarrow> rbac_op actor s t"
| op_clear_override: "remove_permission_from_user s actor u p = Inr (t, b) \<Longrightarrow> rbac_op actor s t"

section \<open>The tables stay consistent\<close>

named_theorems ok_keep \<open>operations that keep the tables consistent\<close>

lemma ok_create_permission [ok_keep]:
  assumes "rbac_ok s" and "repo_create_permission s r a d = Inr (t, p)"
  shows "rbac_ok t"
proof -
  from assms(2) have "(r, a) \<notin> perm_key ` set (permissions s)"
    and "t = s\<lparr>permissions := permissions s @ [p], next_permission := next_permission s + 1\<rparr>"
    and "perm_id p = next_permission s" and "perm_key p = (r, a)"
    by (auto simp: repo_create_permission_def Let_def split: if_splits)
  with assms(1) show ?thesis unfolding rbac_ok_def by (auto simp: less_Suc_eq)
qed

lemma ok_delete_permission [ok_keep]: "rbac_ok s \<Longrightarrow> rbac_ok (fst (repo_delete_permission s i))"
  unfolding rbac_ok_def repo_delete_permission_def
  by (cases "get_permission_by_id s i") (simp_all add: keys_drop_grants dict_ok_drop_grants distinct_map_filter, auto)

lemma ok_create_role [ok_keep]:
  assumes "rbac_ok s" and "repo_create_role s n d sys = Inr (t, r)" and "n = ADMIN_ROLE_NAME \<longrightarrow> sys"
  shows "rbac_ok t"
proof -
  from assms(2) have "n \<notin> role_name ` set (roles s)"
    and "t = s\<lparr>roles := roles s @ [r], next_role := next_role s + 1\<rparr>"
    and "role_id r = next_role s" "role_name r = n" "role_system r = sys"
    by (auto simp: repo_create_role_def Let_def split: if_splits)
  with assms(1,3) show ?thesis unfolding rbac_ok_def by (auto simp: less_Suc_eq)
qed

lemma ok_grant_role [ok_keep]:
  assumes "rbac_ok s" and "repo_assign_permission_to_role s i p g = Inr t"
  shows "rbac_ok t"
proof -
  from assms(2) have "t = s\<lparr>role_permissions := AList.update (i, p) g (role_permissions s)\<rparr>"
    and "i \<in> role_id ` set (roles s)" "p \<in> perm_id ` set (permissions s)"
    by (auto simp: repo_assign_permission_to_role_def dest!: get_role_SomeD get_permission_by_id_SomeD
        split: if_splits)
  with assms(1) show ?thesis unfolding rbac_ok_def by simp
qed

lemma ok_revoke_role [ok_keep]: "rbac_ok s \<Longrightarrow> rbac_ok (fst (repo_remove_permission_from_role s i p))"
  by (auto simp: rbac_ok_def repo_remove_permission_from_role_def keys_drop_grants dict_ok_drop_grants
      split: option.splits)

lemma ok_assign_role [ok_keep]:
  assumes "rbac_ok s" and "repo_assign_role_to_user s u i = Inr t"
  shows "rbac_ok t"
proof (cases "(u, i) \<in> set (user_roles s)")
  case True
  with assms show ?thesis by (simp add: repo_assign_role_to_user_def)
next
  case False
  with assms(2) have "t = s\<lparr>user_roles := user_roles s @ [(u, i)]\<rparr>"
    and "i \<in> role_id ` set (roles s)" "u \<in> user_id ` set (users s)"
    by (auto simp: repo_assign_role_to_user_def dest!: get_role_SomeD get_user_SomeD split: if_splits)
  with assms(1) show ?thesis unfolding rbac_ok_def by simp
qed

lemma ok_remove_role [ok_keep]: "rbac_ok s \<Longrightarrow> rbac_ok (fst (repo_remove_role_from_user s u i))"
  by (auto simp: rbac_ok_def repo_remove_role_from_user_def)

lemma ok_override [ok_keep]:
  assumes "rbac_ok s" and "repo_assign_permission_to_user s u p g = Inr t"
  shows "rbac_ok t"
proof -
  from assms(2) have "t = s\<lparr>user_permissions := AList.update (u, p) g (user_permissions s)\<rparr>"
    and "u \<in> user_id ` set (users s)" "p \<in> perm_id ` set (permissions s)"
    by (auto simp: repo_assign_permission_to_user_def dest!: get_user_SomeD get_permission_by_id_SomeD
        split: if_splits)
  with assms(1) show ?thesis unfolding rbac_ok_def by simp
qed

lemma ok_clear_override [ok_keep]: "rbac_ok s \<Longrightarrow> rbac_ok (fst (repo_remove_permission_from_user s u p))"
  by (auto simp: rbac_ok_def repo_remove_permission_from_user_def keys_drop_grants dict_ok_drop_grants
      split: option.splits)

lemma ok_delete_role [ok_keep]:
  assumes "rbac_ok s" and "\<forall>r. get_role s i = Some r \<longrightarrow> \<not> role_system r"
  shows "rbac_ok (fst (repo_delete_role s i))"
proof (cases "get_role s i")
  case None
  with assms(1) show ?thesis by (simp add: repo_delete_role_def)
next
  case (Some r)
  have "distinct (map role_id (roles s))" using assms(1) by (simp add: rbac_ok_def)
  then have only: "x = r" if "x \<in> set (roles s)" "role_id x = i" for x
    using that get_role_SomeD [OF Some] by (auto dest: distinct_map_eq)
  have "role_id x \<noteq> i" if "x \<in> set (roles s)" "role_name x = ADMIN_ROLE_NAME" for x
    using only [OF that(1)] that assms Some by (auto simp: rbac_ok_def)
  then have "ADMIN_ROLE_NAME \<in> role_name ` {x \<in> set (roles s). role_id x \<noteq> i}"
    using assms(1) by (auto simp: rbac_ok_def)
  moreover have "{k \<in> fst ` set (role_permissions s). \<not> (case k of (r, _) \<Rightarrow> r = i)}
      \<subseteq> role_id ` {x \<in> set (roles s). role_id x \<noteq> i} \<times> perm_id ` set (permissions s)"
    using rbac_ok_refs(1) [OF assms(1)] by auto
  moreover have "{x \<in> set (user_roles s). (case x of (_, r) \<Rightarrow> r \<noteq> i)}
      \<subseteq> user_id ` set (users s) \<times> role_id ` {x \<in> set (roles s). role_id x \<noteq> i}"
    using rbac_ok_refs(3) [OF assms(1)] by auto
  ultimately show ?thesis using Some assms(1) unfolding rbac_ok_def repo_delete_role_def
    by (simp add: keys_drop_grants dict_ok_drop_grants distinct_map_filter)
qed

lemma distinct_map_update:
  assumes "distinct (map f xs)" and "\<And>x. x \<in> set xs \<Longrightarrow> P x \<Longrightarrow> f (g x) \<notin> f ` {y \<in> set xs. y \<noteq> x}"
    and "\<And>x y. x \<in> set xs \<Longrightarrow> y \<in> set xs \<Longrightarrow> P x \<Longrightarrow> P y \<Longrightarrow> x = y"
  shows "distinct (map f (map (\<lambda>x. if P x then g x else x) xs))"
proof -
  have "inj_on (\<lambda>x. f (if P x then g x else x)) (set xs)"
  proof (rule inj_onI)
    fix x y assume "x \<in> set xs" "y \<in> set xs" "f (if P x then g x else x) = f (if P y then g y else y)"
    then show "x = y" using assms(2) [of x] assms(2) [of y] assms(3) [of x y]
        distinct_map_eq [OF assms(1), of x y] by (cases "P x"; cases "P y") (auto 4 4 simp: image_iff)
  qed
  moreover have "distinct xs" using assms(1) by (simp add: distinct_map)
  ultimately show ?thesis by (simp add: distinct_map o_def)
qed

lemma rbac_ok_roles:
  assumes "rbac_ok s" and "map role_id rs = map role_id (roles s)" and "distinct (map role_name rs)"
    and "\<forall>x \<in> set rs. role_id x < next_role s \<and> (role_name x = ADMIN_ROLE_NAME \<longrightarrow> role_system x)"
    and "ADMIN_ROLE_NAME \<in> role_name ` set rs"
  shows "rbac_ok (s\<lparr>roles := rs\<rparr>)"
proof -
  have "role_id ` set rs = role_id ` set (roles s)" using assms(2) by (metis list.set_map)
  with assms show ?thesis by (simp add: rbac_ok_def)
qed

lemma ok_update_role [ok_keep]:
  assumes "rbac_ok s" and "repo_update_role s i n d = Inr (t, x)"
    and keep: "\<And>r. get_role s i = Some r \<Longrightarrow> role_system r \<Longrightarrow> n = None \<or> n = Some (role_name r)"
  shows "rbac_ok t"
proof (cases "get_role s i")
  case None
  with assms(1,2) show ?thesis by (simp add: repo_update_role_def)
next
  case (Some r)
  let ?upd = "\<lambda>x. if role_id x = i then rename_role n d x else x"
  from assms(2) Some have t: "t = s\<lparr>roles := map ?upd (roles s)\<rparr>"
    and free: "\<And>m x. n = Some m \<Longrightarrow> x \<in> set (roles s) \<Longrightarrow> role_id x \<noteq> i \<Longrightarrow> role_name x \<noteq> m"
    by (auto simp: repo_update_role_def role_name_exists_def list_ex_iff split: if_splits option.splits)
  have ids: "map role_id (map ?upd (roles s)) = map role_id (roles s)" by (simp add: rename_role_def)
  have r: "r \<in> set (roles s)" "role_id r = i" using get_role_SomeD [OF Some] by auto
  have only: "x = r" if "x \<in> set (roles s)" "role_id x = i" for x
    using that r assms(1) by (auto simp: rbac_ok_def dest: distinct_map_eq)
  have names: "distinct (map role_name (map ?upd (roles s)))"
  proof (rule distinct_map_update)
    show "distinct (map role_name (roles s))" using assms(1) by (simp add: rbac_ok_def)
    then show "role_name (rename_role n d x) \<notin> role_name ` {y \<in> set (roles s). y \<noteq> x}"
      if "x \<in> set (roles s)" "role_id x = i" for x
      using that only [of x] only free by (cases n) (auto simp: rename_role_def dest: distinct_map_eq)
  qed (use only in blast)
  obtain a where a: "a \<in> set (roles s)" "role_name a = ADMIN_ROLE_NAME" "role_system a"
    using assms(1) by (auto simp: rbac_ok_def)
  have adm: "?upd a = a \<or> role_name (?upd a) = ADMIN_ROLE_NAME"
    using only [OF a(1)] keep [OF Some] a by (auto simp: rename_role_def)
  have sys: "role_system (?upd x)" if "x \<in> set (roles s)" "role_name (?upd x) = ADMIN_ROLE_NAME" for x
  proof (cases "role_id x = i \<and> n = Some ADMIN_ROLE_NAME")
    case True
    then have "x = a" using free [of ADMIN_ROLE_NAME a] a(1,2) only that(1) by metis
    with a(3) show ?thesis by (simp add: rename_role_def)
  next
    case False
    with that assms(1) show ?thesis by (auto simp: rbac_ok_def rename_role_def split: option.splits if_splits)
  qed
  have "ADMIN_ROLE_NAME \<in> role_name ` set (map ?upd (roles s))"
  proof (rule image_eqI)
    show "ADMIN_ROLE_NAME = role_name (?upd a)" using adm a(2) by metis
    show "?upd a \<in> set (map ?upd (roles s))" using a(1) by simp
  qed
  moreover have "\<forall>x \<in> set (map ?upd (roles s)). role_id x < next_role s"
    using assms(1) by (auto simp: rbac_ok_def rename_role_def)
  moreover have "\<forall>x \<in> set (map ?upd (roles s)). role_name x = ADMIN_ROLE_NAME \<longrightarrow> role_system x"
    using sys unfolding set_map by blast
  ultimately show ?thesis unfolding t by (intro rbac_ok_roles [OF assms(1) ids names]) blast+
qed

lemma system_role_guardD:
  "system_role_guard s actor i = Inr u \<Longrightarrow> get_role s i = Some r \<Longrightarrow> role_system r \<Longrightarrow> require_admin_actor s actor = Inr ()"
  by (simp add: system_role_guard_def)

lemma update_role_InrD:
  assumes "update_role s actor i n d = Inr (t, x)"
  shows "repo_update_role s i n d = Inr (t, x)"
    and "get_role s i = Some r \<Longrightarrow> role_system r \<Longrightarrow> n = None \<or> n = Some (role_name r)"
  using assms by (auto simp: update_role_def repo_update_role_def res_simps split: option.splits if_splits)

lemma delete_role_InrD:
  assumes "delete_role s actor i = Inr (t, b)"
  shows "t = fst (repo_delete_role s i)" and "get_role s i = Some r \<Longrightarrow> \<not> role_system r"
  using assms by (auto simp: delete_role_def split: if_splits)

lemma rbac_op_ok:
  assumes "rbac_op actor s t" and ok: "rbac_ok s"
  shows "rbac_ok t"
  using assms(1)
proof cases
  case (op_create_permission r a d p)
  then show ?thesis by (auto simp: create_permission_def intro: ok_create_permission [OF ok] split: if_splits)
next
  case (op_delete_permission i b)
  then have "t = fst (repo_delete_permission s i)"
    by (auto simp: delete_permission_def split: option.splits if_splits dest: arg_cong [where f = fst])
  then show ?thesis by (simp add: ok_delete_permission [OF ok])
next
  case (op_create_role n d sys r)
  then have c: "repo_create_role s n d sys = Inr (t, r)" by (simp add: create_role_def res_simps)
  then have "n \<notin> role_name ` set (roles s)" by (auto simp: repo_create_role_def split: if_splits)
  then have "n \<noteq> ADMIN_ROLE_NAME" using ok unfolding rbac_ok_def by blast
  then show ?thesis by (intro ok_create_role [OF ok c]) simp
next
  case (op_update_role i n d r)
  show ?thesis by (rule ok_update_role [OF ok update_role_InrD [OF op_update_role]])
next
  case (op_delete_role i b)
  then show ?thesis using ok_delete_role [OF ok] delete_role_InrD by metis
next
  case (op_revoke_role i p b)
  then have "t = fst (repo_remove_permission_from_role s i p)" by (auto simp: remove_permission_from_role_def res_simps)
  then show ?thesis by (simp add: ok_revoke_role [OF ok])
next
  case (op_remove_role u i b)
  then have "t = fst (repo_remove_role_from_user s u i)" by (auto simp: remove_role_from_user_def res_simps)
  then show ?thesis by (simp add: ok_remove_role [OF ok])
next
  case (op_clear_override u p b)
  then have "t = fst (repo_remove_permission_from_user s u p)" by (auto simp: remove_permission_from_user_def res_simps)
  then show ?thesis by (simp add: ok_clear_override [OF ok])
qed (auto simp: assign_permission_to_role_def assign_role_to_user_def assign_permission_to_user_def res_simps
    intro: ok_grant_role [OF ok] ok_assign_role [OF ok] ok_override [OF ok])

section \<open>Delegation\<close>

text \<open>The permissions a user without the admin role may hand on.\<close>

definition grantable :: "rbac \<Rightarrow> nat \<Rightarrow> nat set" where
  "grantable s a = perm_id ` {p \<in> set (permissions s). \<not> is_protected p \<and> holds s a (perm_id p)}"

text \<open>\<open>delegates a s t\<close>: from \<open>s\<close> to \<open>t\<close> every new grant is one user \<open>a\<close> may hand on, and \<open>a\<close>'s own
  memberships and overrides are not extended.\<close>

definition delegates :: "nat \<Rightarrow> rbac \<Rightarrow> rbac \<Rightarrow> bool" where
  "delegates a s t \<longleftrightarrow>
     (\<forall>p \<in> set (permissions t). p \<in> set (permissions s) \<or> perm_id p = next_permission s)
     \<and> (\<forall>r i. map_of (role_permissions t) (r, i) = Some True \<longrightarrow>
          map_of (role_permissions s) (r, i) = Some True \<or> i \<in> grantable s a)
     \<and> (\<forall>u r. (u, r) \<in> set (user_roles t) \<longrightarrow> (u, r) \<in> set (user_roles s) \<or> u \<noteq> a
          \<and> (\<forall>i. map_of (role_permissions t) (r, i) = Some True \<longrightarrow> i \<in> grantable s a))
     \<and> (\<forall>i \<in> perm_id ` set (permissions t). map_of (user_permissions t) (a, i) = map_of (user_permissions s) (a, i))
     \<and> (\<forall>u i. map_of (user_permissions t) (u, i) = Some True \<longrightarrow>
          map_of (user_permissions s) (u, i) = Some True \<or> i \<in> grantable s a)
     \<and> (\<forall>u. is_admin t (Some u) \<longrightarrow> is_admin s (Some u))"

lemma assert_actor_holdsD:
  assumes "assert_actor_holds s (Some a) ps = Inr u" and "\<not> is_admin s (Some a)"
    and "rbac_ok s" and "set ps \<subseteq> set (permissions s)" and "p \<in> set ps"
  shows "perm_id p \<in> grantable s a"
proof -
  from assms(1,2) have f: "res_fold (assert_holds_one s a) () ps = Inr u" by (simp add: assert_actor_holds_def)
  have "res_fold (assert_holds_one s a) () qs = Inr u \<Longrightarrow> q \<in> set qs \<Longrightarrow>
      \<not> is_protected q \<and> has_permission s a (perm_resource q) (perm_action q)" for qs q
    by (induction qs) (auto simp: assert_holds_one_def res_simps split: if_splits)
  from this [OF f assms(5)] assms(3-5) show ?thesis
    by (auto simp: grantable_def has_permission_holds)
qed

lemma not_admin_required: "\<not> is_admin s (Some a) \<Longrightarrow> require_admin_actor s (Some a) \<noteq> Inr u"
  by (simp add: require_admin_actor_def is_admin_def ADMIN_ROLE_NAME_def)

lemma touch_guardD: "touch_guard s (Some a) u = Inr x \<Longrightarrow> u \<noteq> a"
  by (auto simp: touch_guard_def assert_not_self_def res_simps split: if_splits)

lemma fresh_role_unused: "rbac_ok s \<Longrightarrow> (u, next_role s) \<notin> set (user_roles s)"
proof
  assume ok: "rbac_ok s" and "(u, next_role s) \<in> set (user_roles s)"
  then have "next_role s \<in> role_id ` set (roles s)" using rbac_ok_refs(3) by blast
  moreover have "\<forall>r \<in> set (roles s). role_id r < next_role s" using ok by (simp add: rbac_ok_def)
  ultimately show False by auto
qed

lemma delegates_tables:
  assumes "permissions t = permissions s" "roles t = roles s"
    and "\<And>r i. map_of (role_permissions t) (r, i) = Some True \<Longrightarrow>
          map_of (role_permissions s) (r, i) = Some True \<or> i \<in> grantable s a"
    and "set (user_roles t) \<subseteq> set (user_roles s)"
    and "\<And>i. map_of (user_permissions t) (a, i) = map_of (user_permissions s) (a, i)"
    and "\<And>u i. map_of (user_permissions t) (u, i) = Some True \<Longrightarrow>
          map_of (user_permissions s) (u, i) = Some True \<or> i \<in> grantable s a"
  shows "delegates a s t"
  using assms unfolding delegates_def by (auto simp: is_admin_def has_role_iff)

lemma delegates_create_permission:
  assumes "repo_create_permission s r a d = Inr (t, p)"
  shows "delegates u s t"
  using assms by (auto simp: repo_create_permission_def Let_def delegates_def is_admin_def has_role_iff split: if_splits)

lemma delegates_delete_permission: "delegates u s (fst (repo_delete_permission s i))"
  by (auto simp: repo_delete_permission_def delegates_def is_admin_def has_role_iff map_of_drop_grants
      split: option.splits if_splits)

lemma delegates_create_role:
  assumes "repo_create_role s n d sys = Inr (t, r)" and "rbac_ok s"
  shows "delegates u s t"
proof -
  from assms(1) have t: "t = s\<lparr>roles := roles s @ [r], next_role := next_role s + 1\<rparr>"
    and "role_id r = next_role s" by (auto simp: repo_create_role_def Let_def split: if_splits)
  with fresh_role_unused [OF assms(2)] show ?thesis by (auto simp: delegates_def is_admin_def has_role_iff)
qed

lemma delegates_update_role:
  assumes "repo_update_role s i n d = Inr (t, x)" and "rbac_ok s"
  shows "delegates u s t"
proof (cases "get_role s i")
  case None
  with assms(1) show ?thesis by (simp add: repo_update_role_def delegates_def)
next
  case (Some r)
  let ?upd = "\<lambda>x. if role_id x = i then rename_role n d x else x"
  from assms(1) Some have t: "t = s\<lparr>roles := map ?upd (roles s)\<rparr>"
    and free: "\<And>m x. n = Some m \<Longrightarrow> x \<in> set (roles s) \<Longrightarrow> role_id x \<noteq> i \<Longrightarrow> role_name x \<noteq> m"
    by (auto simp: repo_update_role_def role_name_exists_def list_ex_iff split: if_splits option.splits)
  obtain b where b: "b \<in> set (roles s)" "role_name b = ADMIN_ROLE_NAME" using assms(2) by (auto simp: rbac_ok_def)
  have same: "\<exists>y \<in> set (roles s). role_name y = ADMIN_ROLE_NAME \<and> role_id y = role_id x"
    if "x \<in> set (roles s)" "role_name (?upd x) = ADMIN_ROLE_NAME" for x
  proof (cases "role_id x = i \<and> n = Some ADMIN_ROLE_NAME")
    case True
    then show ?thesis using free [of ADMIN_ROLE_NAME b] b by auto
  next
    case False
    with that show ?thesis by (auto simp: rename_role_def split: if_splits option.splits)
  qed
  have ids: "role_id (?upd x) = role_id x" for x by (simp add: rename_role_def)
  have "is_admin s (Some v)" if v: "is_admin t (Some v)" for v
  proof -
    from v obtain y where "y \<in> ?upd ` set (roles s)" and y: "role_name y = ADMIN_ROLE_NAME"
      "(v, role_id y) \<in> set (user_roles s)" unfolding is_admin_def has_role_iff t by auto
    then obtain x where x: "x \<in> set (roles s)" "y = ?upd x" by blast
    from same [OF x(1)] y(1) x(2) obtain z where "z \<in> set (roles s)" "role_name z = ADMIN_ROLE_NAME"
      "role_id z = role_id x" by blast
    with y(2) x(2) ids [of x] show ?thesis unfolding is_admin_def has_role_iff by auto
  qed
  then show ?thesis by (auto simp: delegates_def t)
qed

lemma delegates_delete_role: "delegates u s (fst (repo_delete_role s i))"
  by (auto simp: repo_delete_role_def delegates_def is_admin_def has_role_iff map_of_drop_grants
      split: option.splits if_splits)

lemma delegates_grant_role:
  assumes "repo_assign_permission_to_role s i p g = Inr t" and "g \<Longrightarrow> p \<in> grantable s u"
  shows "delegates u s t"
  by (rule delegates_tables) (use assms in \<open>auto simp: repo_assign_permission_to_role_def split: if_splits\<close>)

lemma delegates_revoke_role: "delegates u s (fst (repo_remove_permission_from_role s i p))"
  by (rule delegates_tables)
    (auto simp: repo_remove_permission_from_role_def map_of_drop_grants split: option.splits if_splits)

lemma delegates_remove_role: "delegates u s (fst (repo_remove_role_from_user s v i))"
  by (rule delegates_tables) (auto simp: repo_remove_role_from_user_def split: if_splits)

lemma delegates_override:
  assumes "repo_assign_permission_to_user s v p g = Inr t" and "g \<Longrightarrow> p \<in> grantable s u" and "v \<noteq> u"
  shows "delegates u s t"
  by (rule delegates_tables) (use assms in \<open>auto simp: repo_assign_permission_to_user_def split: if_splits\<close>)

lemma delegates_clear_override: "v \<noteq> u \<Longrightarrow> delegates u s (fst (repo_remove_permission_from_user s v p))"
  by (rule delegates_tables)
    (auto simp: repo_remove_permission_from_user_def map_of_drop_grants split: option.splits if_splits)

lemma delegates_refl: "delegates u s s"
  by (auto simp: delegates_def)

lemma delegates_assign_role:
  assumes "repo_assign_role_to_user s v i = Inr t" and "v \<noteq> u" and "rbac_ok s"
    and "\<And>r. get_role s i = Some r \<Longrightarrow> \<not> role_system r"
    and "\<And>p. p \<in> set (get_role_permissions s i) \<Longrightarrow> perm_id p \<in> grantable s u"
  shows "delegates u s t"
proof (cases "(v, i) \<in> set (user_roles s)")
  case True
  with assms(1) show ?thesis by (simp add: repo_assign_role_to_user_def delegates_refl)
next
  case False
  with assms(1) obtain r where t: "t = s\<lparr>user_roles := user_roles s @ [(v, i)]\<rparr>" and r: "get_role s i = Some r"
    by (auto simp: repo_assign_role_to_user_def split: if_splits)
  have "role_name x \<noteq> ADMIN_ROLE_NAME" if "x \<in> set (roles s)" "role_id x = i" for x
  proof -
    have "x = r" using that get_role_SomeD [OF r] assms(3) by (auto simp: rbac_ok_def dest: distinct_map_eq)
    with assms(4) [OF r] that assms(3) show ?thesis by (auto simp: rbac_ok_def)
  qed
  then have "is_admin t (Some w) \<Longrightarrow> is_admin s (Some w)" for w by (auto simp: is_admin_def has_role_iff t)
  moreover have "j \<in> grantable s u" if "map_of (role_permissions s) (i, j) = Some True" for j
  proof -
    have "(i, j) \<in> fst ` set (role_permissions s)" using map_of_Some_key [OF that] .
    then obtain p where "p \<in> set (permissions s)" "perm_id p = j" using rbac_ok_refs(1) [OF assms(3)] by blast
    with that assms(5) [of p] show ?thesis by (auto simp: get_role_permissions_def)
  qed
  ultimately show ?thesis using assms(2) by (auto simp: delegates_def t)
qed

lemma get_role_permissions_sub: "set (get_role_permissions s i) \<subseteq> set (permissions s)"
  by (auto simp: get_role_permissions_def)

lemma granted_grantable:
  assumes "rbac_ok s" and "\<not> is_admin s (Some a)" and "get_permission_by_id s p \<noteq> None"
    and "\<And>q. get_permission_by_id s p = Some q \<Longrightarrow> assert_actor_holds s (Some a) [q] = Inr ()"
  shows "p \<in> grantable s a"
proof -
  obtain q where q: "get_permission_by_id s p = Some q" using assms(3) by blast
  with assert_actor_holdsD [OF assms(4) [OF q] assms(2,1), of q] get_permission_by_id_SomeD [OF q]
  show ?thesis by auto
qed

lemma nonadmin_delegates:
  assumes "rbac_op (Some a) s t" and ok: "rbac_ok s" and na: "\<not> is_admin s (Some a)"
  shows "delegates a s t"
  using assms(1)
proof cases
  case (op_create_permission r x d p)
  then show ?thesis by (auto simp: create_permission_def intro: delegates_create_permission split: if_splits)
next
  case (op_delete_permission i b)
  then have "t = fst (repo_delete_permission s i)"
    by (auto simp: delete_permission_def split: option.splits if_splits dest: arg_cong [where f = fst])
  then show ?thesis by (simp add: delegates_delete_permission)
next
  case (op_create_role n d sys r)
  then show ?thesis by (auto simp: create_role_def res_simps intro: delegates_create_role [OF _ ok])
next
  case (op_update_role i n d r)
  show ?thesis by (rule delegates_update_role [OF update_role_InrD(1) [OF op_update_role] ok])
next
  case (op_delete_role i b)
  then show ?thesis using delete_role_InrD(1) delegates_delete_role by metis
next
  case (op_grant_role i p g)
  then have r: "repo_assign_permission_to_role s i p g = Inr t"
    and g: "\<And>q. get_permission_by_id s p = Some q \<Longrightarrow> g \<Longrightarrow> assert_actor_holds s (Some a) [q] = Inr ()"
    by (auto simp: assign_permission_to_role_def res_simps split: option.splits)
  have "get_permission_by_id s p \<noteq> None" using r by (auto simp: repo_assign_permission_to_role_def split: if_splits)
  then have "p \<in> grantable s a" if g using granted_grantable [OF ok na] g that by blast
  with r show ?thesis by (rule delegates_grant_role)
next
  case (op_revoke_role i p b)
  then have "t = fst (repo_remove_permission_from_role s i p)" by (auto simp: remove_permission_from_role_def res_simps)
  then show ?thesis by (simp add: delegates_revoke_role)
next
  case (op_assign_role u i)
  then have r: "repo_assign_role_to_user s u i = Inr t" and u: "u \<noteq> a"
    and g: "\<And>r. get_role s i = Some r \<Longrightarrow> (if role_system r then require_admin_actor s (Some a)
      else assert_actor_holds s (Some a) (get_role_permissions s (role_id r))) = Inr ()"
    by (auto simp: assign_role_to_user_def res_simps dest: touch_guardD split: option.splits)
  have "\<not> role_system r" if "get_role s i = Some r" for r
    using g [OF that] not_admin_required [OF na] by (auto split: if_splits)
  moreover have "perm_id p \<in> grantable s a" if p: "p \<in> set (get_role_permissions s i)" for p
  proof -
    have "(i, perm_id p) \<in> fst ` set (role_permissions s)"
      using p by (auto simp: get_role_permissions_def intro: map_of_Some_key)
    then have "i \<in> role_id ` set (roles s)" using rbac_ok_refs(1) [OF ok] by blast
    then obtain x where x: "get_role s i = Some x" by (cases "get_role s i") (auto simp: get_role_def find_None_iff)
    then have "assert_actor_holds s (Some a) (get_role_permissions s i) = Inr ()"
      using g [OF x] calculation [OF x] get_role_SomeD [OF x] by simp
    from assert_actor_holdsD [OF this na ok get_role_permissions_sub p] show ?thesis .
  qed
  ultimately show ?thesis using delegates_assign_role [OF r u ok] by blast
next
  case (op_remove_role u i b)
  then have "t = fst (repo_remove_role_from_user s u i)" by (auto simp: remove_role_from_user_def res_simps)
  then show ?thesis by (simp add: delegates_remove_role)
next
  case (op_override u p g)
  then have r: "repo_assign_permission_to_user s u p g = Inr t" and u: "u \<noteq> a"
    and g: "\<And>q. get_permission_by_id s p = Some q \<Longrightarrow> g \<Longrightarrow> assert_actor_holds s (Some a) [q] = Inr ()"
    by (auto simp: assign_permission_to_user_def res_simps dest: touch_guardD split: option.splits)
  have "get_permission_by_id s p \<noteq> None" using r by (auto simp: repo_assign_permission_to_user_def split: if_splits)
  then have "p \<in> grantable s a" if g using granted_grantable [OF ok na] g that by blast
  with r u show ?thesis by (intro delegates_override)
next
  case (op_clear_override u p b)
  then have "t = fst (repo_remove_permission_from_user s u p)" "u \<noteq> a"
    by (auto simp: remove_permission_from_user_def res_simps dest: touch_guardD)
  then show ?thesis by (simp add: delegates_clear_override)
qed

lemma id_unique: "rbac_ok s \<Longrightarrow> p \<in> set (permissions s) \<Longrightarrow> q \<in> set (permissions s) \<Longrightarrow> perm_id p = perm_id q \<Longrightarrow> p = q"
  by (auto simp: rbac_ok_def dest: distinct_map_eq)

lemma fresh_permission_unused:
  assumes "rbac_ok s"
  shows "map_of (role_permissions s) (r, next_permission s) = None"
    "map_of (user_permissions s) (u, next_permission s) = None" "next_permission s \<notin> grantable s a"
proof -
  have "next_permission s \<notin> perm_id ` set (permissions s)" using assms by (auto simp: rbac_ok_def)
  then show "map_of (role_permissions s) (r, next_permission s) = None"
    "map_of (user_permissions s) (u, next_permission s) = None" "next_permission s \<notin> grantable s a"
    using rbac_ok_refs [OF assms] by (auto simp: map_of_None_iff grantable_def)
qed

text \<open>What delegation can give: a permission is newly within reach only when the actor may hand it on.\<close>

lemma delegates_via:
  assumes "delegates a s t" and "user_has_permission_via_roles t b i"
  shows "user_has_permission_via_roles s b i \<or> i \<in> grantable s a"
proof -
  from assms(2) obtain r where r: "(b, r) \<in> set (user_roles t)" "map_of (role_permissions t) (r, i) = Some True"
    by (auto simp: via_roles_iff)
  with assms(1) show "user_has_permission_via_roles s b i \<or> i \<in> grantable s a"
    unfolding delegates_def via_roles_iff by metis
qed

lemma delegates_known:
  assumes "delegates a s t" and "rbac_ok s" and "p \<in> set (permissions t)"
    and "map_of (user_permissions t) (b, perm_id p) = Some True \<or> user_has_permission_via_roles t b (perm_id p)"
  shows "p \<in> set (permissions s)"
proof (rule ccontr)
  assume "p \<notin> set (permissions s)"
  with assms(1,3) have new: "perm_id p = next_permission s" by (auto simp: delegates_def)
  note unused = fresh_permission_unused [OF assms(2)]
  from assms(4) show False
  proof
    assume "map_of (user_permissions t) (b, perm_id p) = Some True"
    with assms(1) unused(2,3) new show False unfolding delegates_def by (metis option.distinct(1))
  next
    assume "user_has_permission_via_roles t b (perm_id p)"
    from delegates_via [OF assms(1) this] unused new show False by (auto simp: via_roles_iff)
  qed
qed

lemma delegates_rights:
  assumes "delegates a s t" and "rbac_ok s" and "rbac_ok t"
  shows "rights t a \<subseteq> rights s a"
proof
  fix k assume "k \<in> rights t a"
  then obtain p where p: "p \<in> set (permissions t)" "holds t a (perm_id p)" "k = perm_key p"
    by (auto simp: rights_eq [OF assms(3)])
  then have "map_of (user_permissions t) (a, perm_id p) = Some True \<or> user_has_permission_via_roles t a (perm_id p)"
    by (auto simp: holds_def split: option.splits)
  from delegates_known [OF assms(1,2) p(1) this] have ps: "p \<in> set (permissions s)" .
  have same: "map_of (user_permissions t) (a, perm_id p) = map_of (user_permissions s) (a, perm_id p)"
    using assms(1) p(1) by (auto simp: delegates_def)
  have "holds s a (perm_id p)"
  proof (cases "map_of (user_permissions s) (a, perm_id p)")
    case None
    with p(2) same have "user_has_permission_via_roles t a (perm_id p)" by (simp add: holds_def)
    from delegates_via [OF assms(1) this] show ?thesis
      using None by (auto simp: holds_def grantable_def)
  qed (use p(2) same in \<open>simp add: holds_def\<close>)
  with ps p(3) show "k \<in> rights s a" by (auto simp: rights_eq [OF assms(2)])
qed

lemma delegates_potential:
  assumes "delegates a s t" and "rbac_ok s"
  shows "potential t b \<subseteq> potential s b \<union> (rights s a - Collect protected_key)"
proof
  fix k assume "k \<in> potential t b"
  then obtain p where p: "p \<in> set (permissions t)" "k = perm_key p"
    "map_of (user_permissions t) (b, perm_id p) = Some True \<or> user_has_permission_via_roles t b (perm_id p)"
    by (auto simp: potential_def)
  have ps: "p \<in> set (permissions s)" by (rule delegates_known [OF assms p(1,3)])
  from p(3) have "map_of (user_permissions s) (b, perm_id p) = Some True \<or> user_has_permission_via_roles s b (perm_id p)
      \<or> perm_id p \<in> grantable s a"
    using assms(1) delegates_via [OF assms(1)] unfolding delegates_def by metis
  then show "k \<in> potential s b \<union> (rights s a - Collect protected_key)"
    using ps p(2) id_unique [OF assms(2) ps]
    by (auto simp: potential_def grantable_def rights_eq [OF assms(2)] is_protected_def)
qed

section \<open>Delegated administration\<close>

text \<open>The contract the guards give an administration interface: a step of an unprivileged user makes
  nobody privileged, does not extend his own rights, and brings within another's reach only what he
  holds and what is not restricted.\<close>

locale delegated_administration =
  fixes ok :: "'s \<Rightarrow> bool" and step :: "'u \<Rightarrow> 's \<Rightarrow> 's \<Rightarrow> bool" and privileged :: "'s \<Rightarrow> 'u \<Rightarrow> bool"
    and may :: "'s \<Rightarrow> 'u \<Rightarrow> 'p set" and reach :: "'s \<Rightarrow> 'u \<Rightarrow> 'p set" and restricted :: "'p set"
  assumes step_ok: "step u s t \<Longrightarrow> ok s \<Longrightarrow> ok t"
    and step_privileged: "step u s t \<Longrightarrow> ok s \<Longrightarrow> \<not> privileged s u \<Longrightarrow> privileged t v \<Longrightarrow> privileged s v"
    and step_may: "step u s t \<Longrightarrow> ok s \<Longrightarrow> \<not> privileged s u \<Longrightarrow> may t u \<subseteq> may s u"
    and step_reach: "step u s t \<Longrightarrow> ok s \<Longrightarrow> \<not> privileged s u \<Longrightarrow>
      reach t v \<subseteq> reach s v \<union> (may s u - restricted)"
begin

lemma alone:
  assumes "(step u)\<^sup>*\<^sup>* s t" and "ok s" and "\<not> privileged s u"
  shows "ok t \<and> (\<forall>v. privileged t v \<longrightarrow> privileged s v) \<and> may t u \<subseteq> may s u
    \<and> (\<forall>v. reach t v \<subseteq> reach s v \<union> (may s u - restricted))"
  using assms(1)
proof (induction rule: rtranclp_induct)
  case base
  then show ?case using assms(2) by blast
next
  case (step t t')
  then have "\<not> privileged t u" using assms(3) by blast
  with step step_ok [OF step(2)] step_privileged [OF step(2)] step_may [OF step(2)] step_reach [OF step(2)]
  show ?case by blast
qed

lemma together:
  assumes "(\<lambda>s t. \<exists>u. \<not> privileged s u \<and> step u s t)\<^sup>*\<^sup>* s t" and "ok s"
  shows "ok t \<and> (\<forall>v. privileged t v \<longrightarrow> privileged s v) \<and> (\<forall>v. reach t v \<inter> restricted \<subseteq> reach s v)"
  using assms(1)
proof (induction rule: rtranclp_induct)
  case base
  then show ?case using assms(2) by blast
next
  case (step t t')
  then obtain u where u: "\<not> privileged t u" "step u t t'" by blast
  with step(3) step_ok [OF u(2)] step_privileged [OF u(2)] step_reach [OF u(2)] show ?case by blast
qed

end

interpretation rbac_admin: delegated_administration rbac_ok "\<lambda>u. rbac_op (Some u)" "\<lambda>s u. is_admin s (Some u)"
  rights potential "Collect protected_key"
proof
  show "rbac_ok s \<Longrightarrow> rbac_ok t" if "rbac_op (Some u) s t" for u s t by (rule rbac_op_ok [OF that])
  show "is_admin t (Some v) \<Longrightarrow> is_admin s (Some v)"
    if "rbac_op (Some u) s t" "rbac_ok s" "\<not> is_admin s (Some u)" for u s t v
    using nonadmin_delegates [OF that] by (simp add: delegates_def)
  show "rights t u \<subseteq> rights s u"
    if "rbac_op (Some u) s t" "rbac_ok s" "\<not> is_admin s (Some u)" for u s t
    by (rule delegates_rights [OF nonadmin_delegates [OF that] that(2) rbac_op_ok [OF that(1,2)]])
  show "potential t v \<subseteq> potential s v \<union> (rights s u - Collect protected_key)"
    if "rbac_op (Some u) s t" "rbac_ok s" "\<not> is_admin s (Some u)" for u s t v
    by (rule delegates_potential [OF nonadmin_delegates [OF that] that(2)])
qed



subsection \<open>Example tables\<close>

text \<open>User 1 is the administrator; user 2 holds \<open>workflows:read\<close> through a role; user 3 holds nothing.\<close>

definition demo_permission :: "nat \<Rightarrow> string \<Rightarrow> string \<Rightarrow> permission_row" where
  "demo_permission i r a = \<lparr>perm_id = i, perm_resource = r, perm_action = a, perm_description = None\<rparr>"

definition demo_user :: "nat \<Rightarrow> string \<Rightarrow> user_row" where
  "demo_user i n = \<lparr>user_id = i, username = n, password_hash = ''h'', is_active = True,
     must_change_password = False, token_version = 0\<rparr>"

definition demo_rbac :: rbac where
  "demo_rbac = \<lparr>permissions = [demo_permission 1 ''workflows'' ''read'', demo_permission 2 ''users'' ''write''],
     roles = [\<lparr>role_id = 1, role_name = ''admin'', role_description = None, role_system = True\<rparr>,
              \<lparr>role_id = 2, role_name = ''ops'', role_description = None, role_system = False\<rparr>],
     role_permissions = [((1, 1), True), ((1, 2), True), ((2, 1), True)],
     user_roles = [(1, 1), (2, 2)], user_permissions = [],
     users = [demo_user 1 ''root'', demo_user 2 ''ann'', demo_user 3 ''bob''],
     next_permission = 3, next_role = 3, next_user = 4\<rparr>"

definition demo_rbac_granted :: rbac where
  "demo_rbac_granted = demo_rbac\<lparr>user_permissions := [((3, 1), True)]\<rparr>"

lemma demo_rbac_ok: "rbac_ok demo_rbac" by code_simp

lemma demo_grant: "rbac_op (Some 2) demo_rbac demo_rbac_granted"
proof (rule op_override)
  show "assign_permission_to_user demo_rbac (Some 2) 3 1 True = Inr demo_rbac_granted" by code_simp
qed

lemma demo_not_admin: "\<not> is_admin demo_rbac (Some 2)" by code_simp



end
