(* ===== verification/Rbac_Users.thy ===== *)
theory Rbac_Users
  imports Rbac_Policy
begin

text \<open>
  \<open>services/users/user_service.py\<close> with \<open>core/password_policy.py\<close>: creating, changing, deactivating
  and deleting accounts under the RBAC guards. The password hash is a parameter, and so is the
  clean-up of a deleted user's inventories, credentials, schedules and workflows, which may raise
  and then keeps the account. Shown here: the effective permission list agrees with the permission
  decision, the last active administrator cannot be lost, and a password reset hands the actor
  nothing he does not already hold.
\<close>

section \<open>Password policy\<close>

definition PASSWORD_MIN_LENGTH :: nat where
  "PASSWORD_MIN_LENGTH = 12"

definition PASSWORD_MAX_LENGTH :: nat where
  "PASSWORD_MAX_LENGTH = 128"

definition DENYLIST :: "string set" where
  "DENYLIST = {''password'', ''passw0rd'', ''admin'', ''changeme'', ''letmein'', ''welcome''}"

text \<open>\<open>PasswordPolicyError\<close> is a \<open>ValueError\<close>.\<close>

definition validate_password :: "string \<Rightarrow> string option \<Rightarrow> unit res" where
  "validate_password pw name =
     (if length pw < PASSWORD_MIN_LENGTH then Inl (ValueError ''Password must be at least 12 characters'')
      else if length pw > PASSWORD_MAX_LENGTH then Inl (ValueError ''Password must be at most 128 characters'')
      else if py_lower pw \<in> DENYLIST then Inl (ValueError ''This password is too common'')
      else if (case name of None \<Rightarrow> False | Some n \<Rightarrow> n \<noteq> '''' \<and> py_lower pw = py_lower n)
      then Inl (ValueError ''Password must not equal the username'')
      else Inr ())"

section \<open>Accounts\<close>

definition assert_username_free :: "rbac \<Rightarrow> string \<Rightarrow> nat option \<Rightarrow> unit res" where
  "assert_username_free s n except =
     (case get_by_username_ci s n of
        None \<Rightarrow> Inr ()
      | Some u \<Rightarrow> if Some (user_id u) \<noteq> except then Inl (ConflictError ''Username already exists'') else Inr ())"

definition create_user :: "(string \<Rightarrow> string) \<Rightarrow> rbac \<Rightarrow> string \<Rightarrow> string \<Rightarrow> bool \<Rightarrow> (rbac \<times> user_row) res" where
  "create_user hash s n pw active =
     res_bind (validate_password pw (Some n)) (\<lambda>_.
     res_bind (assert_username_free s n None) (\<lambda>_.
     repo_create_user s n (hash pw) active True))"

definition assert_can_remove :: "rbac \<Rightarrow> nat option \<Rightarrow> nat \<Rightarrow> unit res" where
  "assert_can_remove s actor u =
     (if actor = Some u then Inl (AccessDeniedError ''You cannot delete or deactivate your own account'')
      else res_bind (may_touch_target s actor u) (\<lambda>_. assert_not_last_admin s u))"

definition credential_guard :: "rbac \<Rightarrow> nat option \<Rightarrow> nat \<Rightarrow> unit res" where
  "credential_guard s actor u =
     (if actor = Some u
      then Inl (AccessDeniedError ''You cannot change your own password or username here'')
      else assert_may_take_over s actor u)"

definition update_user :: "(string \<Rightarrow> string) \<Rightarrow> rbac \<Rightarrow> nat option \<Rightarrow> nat \<Rightarrow> string option \<Rightarrow> string option \<Rightarrow>
    bool option \<Rightarrow> (rbac \<times> user_row option) res" where
  "update_user hash s actor u name pw active =
     res_bind (may_touch_target s actor u) (\<lambda>_.
     res_bind (if active = Some False then assert_can_remove s actor u else Inr ()) (\<lambda>_.
     res_bind (case name of None \<Rightarrow> Inr () | Some n \<Rightarrow> assert_username_free s n (Some u)) (\<lambda>_.
     res_bind (if pw \<noteq> None \<or> name \<noteq> None then credential_guard s actor u else Inr ()) (\<lambda>_.
     let target = get_user s u in
     res_bind (case pw of
                 None \<Rightarrow> Inr ()
               | Some p \<Rightarrow> validate_password p
                   (case name of
                      Some (c # cs) \<Rightarrow> Some (c # cs)
                    | _ \<Rightarrow> map_option username target)) (\<lambda>_.
     repo_update_user s u (target \<noteq> None \<and> (pw \<noteq> None \<or> name \<noteq> None \<or> active = Some False))
       \<lparr>upd_username = name, upd_password_hash = map_option hash pw, upd_active = active,
        upd_must_change = (if pw = None then None else Some True)\<rparr>)))))"

definition delete_user :: "(nat \<Rightarrow> unit res) \<Rightarrow> rbac \<Rightarrow> nat option \<Rightarrow> nat \<Rightarrow> (rbac \<times> bool) res" where
  "delete_user cleanup s actor u =
     res_bind (assert_can_remove s actor u) (\<lambda>_.
     res_bind (if get_user s u = None then Inr () else cleanup u) (\<lambda>_.
     Inr (repo_delete_user s u)))"

definition set_active :: "rbac \<Rightarrow> nat option \<Rightarrow> nat \<Rightarrow> bool \<Rightarrow> (rbac \<times> user_row option) res" where
  "set_active s actor u active =
     (if \<not> active
      then res_bind (assert_can_remove s actor u) (\<lambda>_.
             if get_user s u = None then Inr (s, None)
             else repo_update_user s u True (no_updates\<lparr>upd_active := Some False\<rparr>))
      else res_bind (may_touch_target s actor u) (\<lambda>_.
             repo_update_user s u False (no_updates\<lparr>upd_active := Some True\<rparr>)))"

inductive account_op :: "nat option \<Rightarrow> rbac \<Rightarrow> rbac \<Rightarrow> bool" for actor where
  op_create_user: "create_user hash s n pw active = Inr (t, u) \<Longrightarrow> account_op actor s t"
| op_update_user: "update_user hash s actor u n pw active = Inr (t, r) \<Longrightarrow> account_op actor s t"
| op_delete_user: "delete_user cleanup s actor u = Inr (t, b) \<Longrightarrow> account_op actor s t"
| op_set_active: "set_active s actor u active = Inr (t, r) \<Longrightarrow> account_op actor s t"

section \<open>The effective permission list\<close>

lemma keys_delete [simp]: "fst ` set (AList.delete k m) = fst ` set m - {k}"
  by (induction m) auto

lemma keys_merge_role: "fst ` set (merge_role s m r) = fst ` set m \<union> perm_key ` set (get_role_permissions s (role_id r))"
proof -
  have "fst ` set (foldl (\<lambda>m p. AList.update (perm_key p) (p, ''role'') m) m ps) = fst ` set m \<union> perm_key ` set ps" for ps
    by (induction ps arbitrary: m) auto
  then show ?thesis by (simp add: merge_role_def)
qed

lemma keys_merge_roles:
  "fst ` set (foldl (merge_role s) m rs) = fst ` set m \<union> (\<Union>r \<in> set rs. perm_key ` set (get_role_permissions s (role_id r)))"
  by (induction rs arbitrary: m) (auto simp: keys_merge_role)

lemma keys_merge_overrides:
  assumes "distinct (map (perm_key \<circ> fst) os)"
  shows "k \<in> fst ` set (foldl merge_override m os) \<longleftrightarrow>
    (\<exists>p. (p, True) \<in> set os \<and> perm_key p = k) \<or> k \<in> fst ` set m \<and> (\<forall>(p, g) \<in> set os. perm_key p \<noteq> k)"
  using assms
proof (induction os arbitrary: m)
  case (Cons o' os)
  obtain p g where o': "o' = (p, g)" by fastforce
  have "fst ` set (merge_override m o') = (if g then insert (perm_key p) (fst ` set m) else fst ` set m - {perm_key p})"
    by (auto simp: merge_override_def o')
  note keys = this
  have other: "perm_key q \<noteq> perm_key p" if "(q, h) \<in> set os" for q h
    using Cons.prems that by (force simp: o')
  have "distinct (map (perm_key \<circ> fst) os)" using Cons.prems by (simp add: o_def)
  note IH = Cons.IH [OF this, of "merge_override m o'"]
  show ?case
  proof (cases "k = perm_key p")
    case True
    have "k \<in> fst ` set (merge_override m o') \<longleftrightarrow> g" unfolding keys True by simp
    with IH True other show ?thesis by (auto simp: o' simp del: prod.inject)
  next
    case False
    have "k \<in> fst ` set (merge_override m o') \<longleftrightarrow> k \<in> fst ` set m" unfolding keys using False by simp
    with IH False show ?thesis by (auto simp: o' simp del: prod.inject)
  qed
qed simp

definition entries_ok :: "(string \<times> string, permission_row \<times> string) dict \<Rightarrow> bool" where
  "entries_ok m \<longleftrightarrow> (\<forall>(k, p, _) \<in> set m. k = perm_key p)"

lemma entries_keys: "entries_ok m \<Longrightarrow> (\<exists>p src. (p, src) \<in> snd ` set m \<and> perm_key p = k) \<longleftrightarrow> k \<in> fst ` set m"
proof -
  assume ok: "entries_ok m"
  have key: "perm_key p = k" if "(k, p, src) \<in> set m" for k p src using ok that by (auto simp: entries_ok_def)
  show ?thesis
  proof
    assume "\<exists>p src. (p, src) \<in> snd ` set m \<and> perm_key p = k"
    then obtain j p src where "(j, p, src) \<in> set m" "perm_key p = k" by force
    with key [of j p src] show "k \<in> fst ` set m" by force
  next
    assume "k \<in> fst ` set m"
    then obtain p src where m: "(k, p, src) \<in> set m" by force
    then have "(p, src) \<in> snd ` set m" by force
    with key [OF m] show "\<exists>p src. (p, src) \<in> snd ` set m \<and> perm_key p = k" by blast
  qed
qed

lemma entries_ok_update: "entries_ok m \<Longrightarrow> entries_ok (AList.update (perm_key p) (p, src) m)"
  by (induction m) (auto simp: entries_ok_def)

lemma entries_ok_roles: "entries_ok m \<Longrightarrow> entries_ok (foldl (merge_role s) m rs)"
proof (induction rs arbitrary: m)
  case (Cons r rs)
  have "entries_ok (foldl (\<lambda>m p. AList.update (perm_key p) (p, ''role'') m) m ps)" if "entries_ok m" for ps m
    using that by (induction ps arbitrary: m) (auto simp: entries_ok_update)
  with Cons show ?case by (simp add: merge_role_def)
qed simp

lemma entries_ok_overrides: "entries_ok m \<Longrightarrow> entries_ok (foldl merge_override m os)"
proof (induction os arbitrary: m)
  case (Cons x os)
  have "entries_ok (AList.delete k m)" if "entries_ok m" for k m
    using that by (auto simp: entries_ok_def AList.delete_eq)
  with Cons show ?case by (auto simp: merge_override_def entries_ok_update split: prod.splits)
qed simp

lemma set_map_filter_iff: "y \<in> set (List.map_filter f xs) \<longleftrightarrow> (\<exists>x \<in> set xs. f x = Some y)"
  by (induction xs) (auto simp: List.map_filter_simps split: option.splits)

lemma map_fst_map_filter: "map fst (List.map_filter (\<lambda>x. map_option (Pair x) (h x)) xs) = filter (\<lambda>x. h x \<noteq> None) xs"
  by (induction xs) (auto simp: List.map_filter_simps split: option.splits)

lemma overrides_listed:
  assumes "rbac_ok s"
  shows "(p, g) \<in> set (get_user_permission_overrides_with_status s u) \<longleftrightarrow>
      p \<in> set (permissions s) \<and> map_of (user_permissions s) (u, perm_id p) = Some g"
    and "distinct (map (perm_key \<circ> fst) (get_user_permission_overrides_with_status s u))"
proof -
  let ?os = "get_user_permission_overrides_with_status s u"
  show "(p, g) \<in> set ?os \<longleftrightarrow> p \<in> set (permissions s) \<and> map_of (user_permissions s) (u, perm_id p) = Some g"
    by (auto simp: get_user_permission_overrides_with_status_def set_map_filter_iff)
  have "map (perm_key \<circ> fst) ?os = map perm_key (map fst ?os)" by simp
  then have "map (perm_key \<circ> fst) ?os =
      map perm_key (filter (\<lambda>p. map_of (user_permissions s) (u, perm_id p) \<noteq> None) (permissions s))"
    by (simp only: get_user_permission_overrides_with_status_def map_fst_map_filter)
  moreover have "distinct (map perm_key (permissions s))" using assms by (simp add: rbac_ok_def)
  note distinct_map_filter [OF this, of "\<lambda>p. map_of (user_permissions s) (u, perm_id p) \<noteq> None"]
  ultimately show "distinct (map (perm_key \<circ> fst) ?os)" by (simp only:)
qed

lemma role_keys:
  assumes "rbac_ok s"
  shows "k \<in> fst ` set (foldl (merge_role s) [] (repo_get_user_roles s u)) \<longleftrightarrow>
    (\<exists>p \<in> set (permissions s). perm_key p = k \<and> user_has_permission_via_roles s u (perm_id p))"
proof -
  have "\<exists>x \<in> set (roles s). role_id x = r" if "(u, r) \<in> set (user_roles s)" for r
    using rbac_ok_refs(3) [OF assms] that by blast
  then show ?thesis
    by (auto simp: keys_merge_roles repo_get_user_roles_def get_role_permissions_def via_roles_iff) blast+
qed

lemma effective_permissions_iff:
  assumes "rbac_ok s"
  shows "(\<exists>p src. (p, src) \<in> set (get_effective_permissions s u) \<and> perm_key p = (r, a)) \<longleftrightarrow> has_permission s u r a"
proof -
  let ?via = "foldl (merge_role s) [] (repo_get_user_roles s u)"
    and ?os = "get_user_permission_overrides_with_status s u"
  let ?m = "foldl merge_override ?via ?os"
  have "entries_ok ?m" by (intro entries_ok_overrides entries_ok_roles) (simp add: entries_ok_def)
  moreover have "set (get_effective_permissions s u) = snd ` set ?m"
    by (simp add: get_effective_permissions_def Let_def)
  ultimately have "(\<exists>p src. (p, src) \<in> set (get_effective_permissions s u) \<and> perm_key p = (r, a)) \<longleftrightarrow> (r, a) \<in> fst ` set ?m"
    by (simp only: entries_keys)
  also have "\<dots> \<longleftrightarrow> (\<exists>p. (p, True) \<in> set ?os \<and> perm_key p = (r, a))
      \<or> (\<exists>p \<in> set (permissions s). perm_key p = (r, a) \<and> user_has_permission_via_roles s u (perm_id p))
        \<and> (\<forall>(p, g) \<in> set ?os. perm_key p \<noteq> (r, a))"
    by (subst keys_merge_overrides [OF overrides_listed(2) [OF assms]]) (simp only: role_keys [OF assms])
  also have "\<dots> \<longleftrightarrow> (\<exists>p \<in> set (permissions s). perm_key p = (r, a) \<and> holds s u (perm_id p))"
  proof (cases "\<exists>p \<in> set (permissions s). perm_key p = (r, a)")
    case True
    then obtain p where p: "p \<in> set (permissions s)" "perm_key p = (r, a)" by blast
    let ?o = "map_of (user_permissions s) (u, perm_id p)"
    have only: "q = p" if "q \<in> set (permissions s)" "perm_key q = (r, a)" for q
      using that p assms by (auto simp: rbac_ok_def dest: distinct_map_eq)
    have L: "(q, h) \<in> set ?os \<and> perm_key q = (r, a) \<longleftrightarrow> q = p \<and> ?o = Some h" for q h
      using overrides_listed(1) [OF assms] only p by blast
    have "(\<exists>q \<in> set (permissions s). perm_key q = (r, a) \<and> Q q) \<longleftrightarrow> Q p" for Q using only p by blast
    moreover have "(\<exists>q. (q, True) \<in> set ?os \<and> perm_key q = (r, a)) \<longleftrightarrow> ?o = Some True" using L by blast
    moreover have "(\<forall>(q, h) \<in> set ?os. perm_key q \<noteq> (r, a)) \<longleftrightarrow> (\<forall>q h. \<not> ((q, h) \<in> set ?os \<and> perm_key q = (r, a)))"
      by blast
    then have "(\<forall>(q, h) \<in> set ?os. perm_key q \<noteq> (r, a)) \<longleftrightarrow> ?o = None" unfolding L by auto
    ultimately show ?thesis by (simp only: holds_def) (auto split: option.split)
  qed (use overrides_listed(1) [OF assms] in blast)
  also have "\<dots> \<longleftrightarrow> has_permission s u r a"
  proof -
    have "has_permission s u r a \<longleftrightarrow> (r, a) \<in> rights s u" by (simp add: rights_def)
    then show ?thesis unfolding rights_eq [OF assms] by (auto simp del: prod.inject)
  qed
  finally show ?thesis .
qed

text \<open>The permission list shown to users agrees with the permission decision: the merged, sorted
  list of a user's effective permissions contains exactly the permissions \<open>has_permission\<close> grants.\<close>

lemma effective_permissions_agree:
  assumes "rbac_ok s"
  shows "perm_key ` fst ` set (get_effective_permissions s u) = {(r, a). has_permission s u r a}"
  unfolding effective_permissions_iff [OF assms, symmetric] by force

section \<open>The last administrator\<close>

definition active_admin :: "rbac \<Rightarrow> bool" where
  "active_admin s \<longleftrightarrow> (\<exists>u \<in> set (users s). is_active u \<and> is_admin s (Some (user_id u)))"

lemma is_admin_iff:
  "is_admin s (Some u) \<longleftrightarrow> (\<exists>r \<in> set (roles s). role_name r = ADMIN_ROLE_NAME \<and> (u, role_id r) \<in> set (user_roles s))"
  by (simp add: is_admin_def has_role_iff)

lemma not_last_adminD:
  assumes "assert_not_last_admin s u = Inr x" and "rbac_ok s" and "active_admin s"
  shows "\<exists>v \<in> set (users s). user_id v \<noteq> u \<and> is_active v \<and> is_admin s (Some (user_id v))"
proof (cases "is_admin s (Some u)")
  case False
  with assms(3) show ?thesis by (auto simp: active_admin_def)
next
  case True
  from assms(2) obtain r where "get_role_by_name s ADMIN_ROLE_NAME = Some r"
    by (cases "get_role_by_name s ADMIN_ROLE_NAME") (auto simp: get_role_by_name_def find_None_iff rbac_ok_def)
  moreover from this have r: "r \<in> set (roles s)" "role_name r = ADMIN_ROLE_NAME"
    by (auto simp: get_role_by_name_def dest: find_key_mem)
  ultimately have "filter (\<lambda>x. user_id x \<noteq> u) (get_users_with_role s (role_id r) True) \<noteq> []"
    using assms(1) True by (auto simp: assert_not_last_admin_def is_admin_def split: if_splits)
  then obtain v where "v \<in> set (users s)" "user_id v \<noteq> u" "is_active v" "(user_id v, role_id r) \<in> set (user_roles s)"
    by (auto simp: get_users_with_role_def filter_empty_conv)
  with r show ?thesis by (auto simp: is_admin_iff)
qed

text \<open>RBAC operations keep every membership of the admin role but the one they remove after the guard.\<close>

lemma admin_is_system: "rbac_ok s \<Longrightarrow> r \<in> set (roles s) \<Longrightarrow> role_name r = ADMIN_ROLE_NAME \<Longrightarrow> role_system r"
  by (simp add: rbac_ok_def)

lemma update_role_admins:
  assumes "update_role s actor i n d = Inr (t, x)" and "rbac_ok s" and "is_admin s (Some v)"
  shows "is_admin t (Some v)"
proof (cases "get_role s i")
  case None
  with assms(1,3) show ?thesis by (simp add: update_role_def)
next
  case (Some r)
  let ?upd = "\<lambda>x. if role_id x = i then rename_role n d x else x"
  have t: "t = s\<lparr>roles := map ?upd (roles s)\<rparr>"
    using update_role_InrD(1) [OF assms(1)] Some by (auto simp: repo_update_role_def split: if_splits)
  from assms(3) obtain b where b: "b \<in> set (roles s)" "role_name b = ADMIN_ROLE_NAME" "(v, role_id b) \<in> set (user_roles s)"
    by (auto simp: is_admin_iff)
  have "role_name (?upd b) = ADMIN_ROLE_NAME"
  proof (cases "role_id b = i")
    case True
    then have "r = b" using b(1) get_role_SomeD [OF Some] assms(2) by (auto simp: rbac_ok_def dest: distinct_map_eq)
    with update_role_InrD(2) [OF assms(1) Some] admin_is_system [OF assms(2) b(1,2)] b(2)
    show ?thesis by (auto simp: rename_role_def)
  qed (use b(2) in simp)
  moreover have "role_id (?upd b) = role_id b" by (simp add: rename_role_def)
  moreover have "?upd b \<in> set (roles t)" using b(1) by (simp add: t)
  moreover have "user_roles t = user_roles s" by (simp add: t)
  ultimately show ?thesis using b(3) unfolding is_admin_iff by (intro bexI [of _ "?upd b"]) simp_all
qed

lemma rbac_op_users: "rbac_op actor s t \<Longrightarrow> users t = users s"
    by (cases rule: rbac_op.cases)
      (auto simp: create_permission_def repo_create_permission_def delete_permission_def repo_delete_permission_def
        create_role_def repo_create_role_def update_role_def repo_update_role_def delete_role_def repo_delete_role_def
        assign_permission_to_role_def repo_assign_permission_to_role_def remove_permission_from_role_def
        repo_remove_permission_from_role_def assign_role_to_user_def repo_assign_role_to_user_def
        remove_role_from_user_def repo_remove_role_from_user_def assign_permission_to_user_def
        repo_assign_permission_to_user_def remove_permission_from_user_def repo_remove_permission_from_user_def
        Let_def res_simps split: if_splits option.splits)

lemma rbac_op_admins:
  assumes "rbac_op actor s t" and ok: "rbac_ok s" and adm: "active_admin s"
  shows "active_admin t"
proof -
  have keep: ?thesis if "\<And>v. is_admin s (Some v) \<Longrightarrow> is_admin t (Some v)"
    using that adm rbac_op_users [OF assms(1)] by (auto simp: active_admin_def)
  from assms(1) show ?thesis
  proof cases
    case (op_update_role i n d r)
    show ?thesis by (rule keep) (rule update_role_admins [OF op_update_role ok])
  next
    case (op_delete_role i b)
    show ?thesis
    proof (rule keep)
      fix v assume "is_admin s (Some v)"
      then obtain r where r: "r \<in> set (roles s)" "role_name r = ADMIN_ROLE_NAME" "(v, role_id r) \<in> set (user_roles s)"
        by (auto simp: is_admin_iff)
      have "get_role s (role_id r) = Some r"
        using ok r(1) find_unique [of role_id "roles s" r] by (simp add: get_role_def rbac_ok_def)
      with delete_role_InrD(2) [OF op_delete_role] admin_is_system [OF ok r(1,2)] have "role_id r \<noteq> i" by blast
      with r delete_role_InrD(1) [OF op_delete_role] show "is_admin t (Some v)"
        by (auto simp: is_admin_iff repo_delete_role_def split: option.splits)
    qed
  next
    case (op_remove_role u i b)
    then have t: "t = fst (repo_remove_role_from_user s u i)"
      and guard: "\<And>r. get_role s i = Some r \<Longrightarrow> role_system r \<Longrightarrow> role_name r = ADMIN_ROLE_NAME \<Longrightarrow>
        assert_not_last_admin s u = Inr ()"
      by (auto simp: remove_role_from_user_def res_simps)
    have stays: "is_admin t (Some v)" if "is_admin s (Some v)"
      "v \<noteq> u \<or> (\<forall>r. get_role s i = Some r \<longrightarrow> role_name r \<noteq> ADMIN_ROLE_NAME)" for v
    proof -
      from that(1) obtain r where r: "r \<in> set (roles s)" "role_name r = ADMIN_ROLE_NAME" "(v, role_id r) \<in> set (user_roles s)"
        by (auto simp: is_admin_iff)
      have "get_role s (role_id r) = Some r"
        using ok r(1) find_unique [of role_id "roles s" r] by (simp add: get_role_def rbac_ok_def)
      with that(2) r(2) have "(v, role_id r) \<noteq> (u, i)" by auto
      with r show ?thesis by (auto simp: is_admin_iff t repo_remove_role_from_user_def)
    qed
    show ?thesis
    proof (cases "\<exists>r. get_role s i = Some r \<and> role_name r = ADMIN_ROLE_NAME")
      case True
      then obtain r where r: "get_role s i = Some r" "role_name r = ADMIN_ROLE_NAME" by blast
      then have "role_system r" using get_role_SomeD admin_is_system [OF ok] by blast
      from not_last_adminD [OF guard [OF r(1) this r(2)] ok adm] stays show ?thesis
        using rbac_op_users [OF assms(1)] by (auto simp: active_admin_def)
    next
      case False
      show ?thesis by (rule keep, rule stays) (use False in blast)+
    qed
  qed (rule keep,
    (auto simp: is_admin_iff create_permission_def repo_create_permission_def delete_permission_def repo_delete_permission_def
      create_role_def repo_create_role_def assign_permission_to_role_def repo_assign_permission_to_role_def
      remove_permission_from_role_def repo_remove_permission_from_role_def assign_role_to_user_def
      repo_assign_role_to_user_def assign_permission_to_user_def repo_assign_permission_to_user_def
      remove_permission_from_user_def repo_remove_permission_from_user_def Let_def res_simps
      split: if_splits option.splits)[1])+
qed

lemma update_user_users:
  assumes "repo_update_user s u bump v = Inr (t, r)"
  shows "t = s\<lparr>users := map (\<lambda>x. if user_id x = u then apply_updates v bump x else x) (users s)\<rparr> 
    \<or> t = s \<and> get_user s u = None"
  using assms by (auto simp: repo_update_user_def split: option.splits if_splits)

lemma apply_updates_id [simp]: "user_id (apply_updates v bump x) = user_id x"
  by (simp add: apply_updates_def)

lemma ok_users_same:
  assumes "rbac_ok s" and "map user_id us = map user_id (users s)"
  shows "rbac_ok (s\<lparr>users := us\<rparr>)"
proof -
  have ids: "user_id ` set us = user_id ` set (users s)" using assms(2) by (metis list.set_map)
  moreover have "\<forall>u \<in> user_id ` set (users s). u < next_user s" using assms(1) by (simp add: rbac_ok_def)
  ultimately have "\<forall>u \<in> set us. user_id u < next_user s" by (metis imageI)
  with ids assms show ?thesis by (simp add: rbac_ok_def)
qed

lemma update_user_ok: "rbac_ok s \<Longrightarrow> repo_update_user s u bump v = Inr (t, r) \<Longrightarrow> rbac_ok t"
  using update_user_users [of s u bump v t r] ok_users_same [of s "map (\<lambda>x. if user_id x = u then apply_updates v bump x else x) (users s)"]
  by (auto simp: o_def if_distrib cong: if_cong)

lemma update_user_admins:
  assumes "repo_update_user s u bump v = Inr (t, r)" and "x \<in> set (users s)" "is_active x" "is_admin s (Some (user_id x))"
    and "user_id x \<noteq> u \<or> upd_active v \<noteq> Some False"
  shows "active_admin t"
  using update_user_users [OF assms(1)]
proof
  assume t: "t = s\<lparr>users := map (\<lambda>x. if user_id x = u then apply_updates v bump x else x) (users s)\<rparr>"
  let ?x = "if user_id x = u then apply_updates v bump x else x"
  have "?x \<in> set (users t)" using assms(2) by (simp add: t)
  moreover have "is_active ?x" using assms(3,5) by (auto simp: apply_updates_def split: option.splits)
  moreover have "is_admin t (Some (user_id ?x))" using assms(4) by (auto simp: t is_admin_iff)
  ultimately show ?thesis unfolding active_admin_def by blast
qed (use assms in \<open>auto simp: active_admin_def\<close>)

lemma update_user_InrD:
  assumes "update_user hash s actor u n pw active = Inr (t, r)"
  shows "repo_update_user s u (get_user s u \<noteq> None \<and> (pw \<noteq> None \<or> n \<noteq> None \<or> active = Some False))
      \<lparr>upd_username = n, upd_password_hash = map_option hash pw, upd_active = active,
       upd_must_change = (if pw = None then None else Some True)\<rparr> = Inr (t, r)"
    and "may_touch_target s actor u = Inr ()"
    and "active = Some False \<Longrightarrow> assert_can_remove s actor u = Inr ()"
    and "pw \<noteq> None \<or> n \<noteq> None \<Longrightarrow> credential_guard s actor u = Inr ()"
  using assms by (simp_all add: update_user_def Let_def res_simps del: not_None_eq)

lemma can_removeD: "assert_can_remove s actor u = Inr x \<Longrightarrow> assert_not_last_admin s u = Inr ()"
  by (auto simp: assert_can_remove_def res_simps split: if_splits)

lemma account_op_ok:
  assumes "account_op actor s t" and ok: "rbac_ok s"
  shows "rbac_ok t"
  using assms(1)
proof cases
  case (op_create_user hash n pw active u)
  then have "t = s\<lparr>users := users s @ [u], next_user := next_user s + 1\<rparr>" "user_id u = next_user s"
    by (auto simp: create_user_def repo_create_user_def Let_def res_simps split: if_splits)
  with ok show ?thesis unfolding rbac_ok_def by (auto simp: less_Suc_eq)
next
  case (op_delete_user cleanup u b)
  then have t: "t = fst (repo_delete_user s u)" by (auto simp: delete_user_def res_simps)
  have "{k \<in> fst ` set (user_permissions s). \<not> (case k of (v, _) \<Rightarrow> v = u)}
      \<subseteq> user_id ` {x \<in> set (users s). user_id x \<noteq> u} \<times> perm_id ` set (permissions s)"
    using rbac_ok_refs(2) [OF ok] by auto
  moreover have "{x \<in> set (user_roles s). (case x of (v, _) \<Rightarrow> v \<noteq> u)}
      \<subseteq> user_id ` {x \<in> set (users s). user_id x \<noteq> u} \<times> role_id ` set (roles s)"
    using rbac_ok_refs(3) [OF ok] by auto
  ultimately show ?thesis using ok unfolding rbac_ok_def t repo_delete_user_def
    by (cases "get_user s u") (simp_all add: keys_drop_grants dict_ok_drop_grants distinct_map_filter)
next
  case (op_update_user hash u n pw active r)
  show ?thesis by (rule update_user_ok [OF ok update_user_InrD(1) [OF op_update_user]])
next
  case (op_set_active u active r)
  then have "t = s \<or> (\<exists>bump v. repo_update_user s u bump v = Inr (t, r))"
    by (auto simp: set_active_def res_simps split: if_splits)
  with ok update_user_ok [OF ok] show ?thesis by blast
qed

lemma account_op_admins:
  assumes "account_op actor s t" and ok: "rbac_ok s" and adm: "active_admin s"
  shows "active_admin t"
proof -
  obtain a where a: "a \<in> set (users s)" "is_active a" "is_admin s (Some (user_id a))"
    using adm by (auto simp: active_admin_def)
  from assms(1) show ?thesis
  proof cases
    case (op_create_user hash n pw active u)
    then have "t = s\<lparr>users := users s @ [u], next_user := next_user s + 1\<rparr>"
      by (auto simp: create_user_def repo_create_user_def Let_def res_simps split: if_splits)
    with a show ?thesis by (auto simp: active_admin_def is_admin_iff)
  next
    case (op_update_user hash u n pw active r)
    obtain bump v where r: "repo_update_user s u bump v = Inr (t, r)" "upd_active v = active"
      using update_user_InrD(1) [OF op_update_user] by fastforce
    note guard = update_user_InrD(3) [OF op_update_user]
    show ?thesis
    proof (cases "active = Some False")
      case True
      from not_last_adminD [OF can_removeD [OF guard [OF True]] ok adm] show ?thesis
        using update_user_admins [OF r(1)] by blast
    qed (use update_user_admins [OF r(1) a] r(2) in blast)
  next
    case (op_delete_user cleanup u b)
    then have t: "t = fst (repo_delete_user s u)" and "assert_can_remove s actor u = Inr ()"
      by (auto simp: delete_user_def res_simps)
    from not_last_adminD [OF can_removeD [OF this(2)] ok adm] show ?thesis
      by (auto simp: active_admin_def t repo_delete_user_def is_admin_iff split: option.splits)
  next
    case (op_set_active u active r)
    show ?thesis
    proof (cases active)
      case True
      with op_set_active have "repo_update_user s u False (no_updates\<lparr>upd_active := Some True\<rparr>) = Inr (t, r)"
        by (auto simp: set_active_def res_simps)
      from update_user_admins [OF this a] show ?thesis by simp
    next
      case False
      with op_set_active have guard: "assert_can_remove s actor u = Inr ()"
        and r: "t = s \<or> repo_update_user s u True (no_updates\<lparr>upd_active := Some False\<rparr>) = Inr (t, r)"
        by (auto simp: set_active_def res_simps split: if_splits)
      from not_last_adminD [OF can_removeD [OF guard] ok adm] r show ?thesis
        using update_user_admins adm by blast
    qed
  qed
qed

text \<open>C26. Nobody can lock everyone out: as long as an active administrator exists, no sequence of RBAC
  and account operations, by any actors and by internal callers, leaves the system without one.\<close>

theorem last_admin_kept:
  assumes "(\<lambda>s t. \<exists>actor. rbac_op actor s t \<or> account_op actor s t)\<^sup>*\<^sup>* s t" and "rbac_ok s" and "active_admin s"
  shows "rbac_ok t \<and> active_admin t"
  using assms
proof (induction rule: rtranclp_induct)
  case (step t t')
  then obtain actor where "rbac_op actor t t' \<or> account_op actor t t'" by blast
  with step show ?case using rbac_op_ok rbac_op_admins account_op_ok account_op_admins by blast
qed simp

theorem last_admin_kept_witness: "rbac_ok demo_rbac_granted \<and> active_admin demo_rbac_granted"
proof -
  have "(\<lambda>s t. \<exists>actor. rbac_op actor s t \<or> account_op actor s t)\<^sup>*\<^sup>* demo_rbac demo_rbac_granted"
    using demo_grant by blast
  moreover have "active_admin demo_rbac" by code_simp
  ultimately show ?thesis using last_admin_kept [OF _ demo_rbac_ok] by blast
qed

section \<open>Taking over an account\<close>

lemma take_overD:
  assumes "assert_may_take_over s (Some a) u = Inr x" and "a \<noteq> u" and "\<not> is_admin s (Some a)" and "rbac_ok s"
  shows "rights s u \<subseteq> rights s a - Collect protected_key"
proof
  fix k assume "k \<in> rights s u"
  obtain r y where k: "k = (r, y)" by fastforce
  have "res_fold (take_over_one s a) () ps = Inr x \<Longrightarrow> (p, src) \<in> set ps \<Longrightarrow>
      \<not> is_protected p \<and> has_permission s a (perm_resource p) (perm_action p)" for ps p src
    by (induction ps) (auto simp: take_over_one_def res_simps split: if_splits)
  moreover have "res_fold (take_over_one s a) () (get_effective_permissions s u) = Inr x"
    using assms(1-3) by (simp add: assert_may_take_over_def)
  moreover obtain p src where "(p, src) \<in> set (get_effective_permissions s u)" "perm_key p = (r, y)"
    using effective_permissions_iff [OF assms(4), of u r y] \<open>k \<in> rights s u\<close> by (auto simp: rights_def k)
  ultimately show "k \<in> rights s a - Collect protected_key" by (auto simp: k rights_def is_protected_def)
qed

text \<open>C27. A password reset or a rename is no way to more rights: when a user without the admin role
  succeeds with one, it is another account, which is no administrator and holds only unprotected
  permissions the actor holds too; and the target's outstanding tokens are invalidated.\<close>

theorem password_reset_bounded:
  assumes "update_user hash s (Some a) u n pw active = Inr (t, Some r)" and "pw \<noteq> None \<or> n \<noteq> None"
    and "rbac_ok s" and "\<not> is_admin s (Some a)"
  shows "a \<noteq> u \<and> \<not> is_admin s (Some u) \<and> rights s u \<subseteq> rights s a - Collect protected_key
    \<and> (\<exists>v. get_user s u = Some v \<and> token_version r = token_version v + 1 \<and> (pw \<noteq> None \<longrightarrow> must_change_password r))"
proof -
  note d = update_user_InrD [OF assms(1)]
  from d(4) [OF assms(2)] have "a \<noteq> u" and over: "assert_may_take_over s (Some a) u = Inr ()"
    by (auto simp: credential_guard_def split: if_splits)
  moreover have "\<not> is_admin s (Some u)" using d(2) assms(4) by (auto simp: may_touch_target_def split: if_splits)
  moreover have "\<exists>v. get_user s u = Some v \<and> token_version r = token_version v + 1 \<and> (pw \<noteq> None \<longrightarrow> must_change_password r)"
    using d(1) assms(2) by (auto simp: repo_update_user_def apply_updates_def split: option.splits if_splits)
  ultimately show ?thesis using take_overD [OF over _ assms(4,3)] by blast
qed

theorem password_reset_bounded_witness:
  "rights demo_rbac 3 \<subseteq> rights demo_rbac 2 - Collect protected_key \<and> \<not> is_admin demo_rbac (Some 3)"
proof -
  let ?r = "update_user id demo_rbac (Some 2) 3 None (Some ''correct horse battery'') None"
  have "\<not> isl ?r" "snd (projr ?r) \<noteq> None" by code_simp+
  then have "?r = Inr (fst (projr ?r), Some (the (snd (projr ?r))))" by (cases ?r) auto
  from password_reset_bounded [OF this _ demo_rbac_ok demo_not_admin] show ?thesis by simp
qed

text \<open>Removing a deny override is not guarded like a grant: user 2, who holds no protected permission,
  gives user 3 back the protected permission an administrator had denied him.\<close>

lemma clearing_a_deny_restores_protected:
  "let s = demo_rbac\<lparr>roles := roles demo_rbac @ [\<lparr>role_id = 3, role_name = ''desk'', role_description = None, role_system = False\<rparr>],
          role_permissions := role_permissions demo_rbac @ [((3, 2), True)],
          user_roles := user_roles demo_rbac @ [(3, 3)],
          user_permissions := [((3, 2), False)], next_role := 4\<rparr>
   in rbac_ok s \<and> \<not> has_permission s 2 ''users'' ''write'' \<and> \<not> has_permission s 3 ''users'' ''write''
     \<and> (case remove_permission_from_user s (Some 2) 3 2 of
          Inl _ \<Rightarrow> False | Inr (t, _) \<Rightarrow> has_permission t 3 ''users'' ''write'')"
  by code_simp

end
