(* ===== verification/Auth_Sessions.thy ===== *)
theory Auth_Sessions
  imports Rbac_Users Json
begin

text \<open>
  \<open>services/auth/auth_service.py\<close> and the token checks of \<open>core/auth.py\<close>: minting, refreshing and
  accepting access tokens, and their revocation by the user's token version. Times are integers in
  microseconds, the resolution of Python's \<open>datetime\<close>; a claim holds whole seconds. The JWT library is a
  parameter: \<open>jwt_encode\<close> signs a payload, \<open>jwt_decode verify_exp now\<close> returns the payload of a token with
  a valid signature, all required claims and, if asked for, an expiry in the future. Password
  verification and random token ids are parameters too.
\<close>

section \<open>Parameters\<close>

record auth_env =
  jwt_encode :: "jdict \<Rightarrow> string"
  jwt_decode :: "bool \<Rightarrow> int \<Rightarrow> string \<Rightarrow> jdict option"
  verify_hash :: "string \<Rightarrow> string \<Rightarrow> bool"
  make_hash :: "string \<Rightarrow> string"
  access_token_expire_minutes :: int
  refresh_token_max_age_hours :: int
  session_max_age_hours :: int
  initial_username :: string
  initial_password :: string

definition SECOND :: int where
  "SECOND = 1000000"

definition hours :: "int \<Rightarrow> int" where
  "hours h = h * 3600 * SECOND"

definition minutes :: "int \<Rightarrow> int" where
  "minutes m = m * 60 * SECOND"

definition authentication_error :: "string \<Rightarrow> py_exn" where
  "authentication_error m = RuntimeError m"

definition invalid_token :: py_exn where
  "invalid_token = OtherError ''HTTPException 401''"

section \<open>Claims\<close>

text \<open>\<open>isinstance(v, int)\<close>, which is true for booleans.\<close>

definition as_int :: "json option \<Rightarrow> int option" where
  "as_int v = (case v of Some (JInt i) \<Rightarrow> Some i | Some (JBool b) \<Rightarrow> Some (if b then 1 else 0) | _ \<Rightarrow> None)"

text \<open>\<open>type(v) is int\<close>.\<close>

definition strict_int :: "json option \<Rightarrow> int option" where
  "strict_int v = (case v of Some (JInt i) \<Rightarrow> Some i | _ \<Rightarrow> None)"

definition round_half_even :: "rat \<Rightarrow> int" where
  "round_half_even r =
     (let f = \<lfloor>r\<rfloor>; d = r - of_int f in
      if d < 1 / 2 then f else if d > 1 / 2 then f + 1 else if even f then f else f + 1)"

definition in_datetime_range :: "int \<Rightarrow> bool" where
  "in_datetime_range m \<longleftrightarrow> - 62135596800 * SECOND \<le> m \<and> m < 253402300800 * SECOND"

definition timestamp_to_datetime :: "json option \<Rightarrow> int option" where
  "timestamp_to_datetime v =
     (let m = (case v of
                 Some (JInt i) \<Rightarrow> Some (i * SECOND)
               | Some (JFloat r) \<Rightarrow> Some (round_half_even (r * of_int SECOND))
               | _ \<Rightarrow> None)
      in case m of None \<Rightarrow> None | Some x \<Rightarrow> if in_datetime_range x then Some x else None)"

definition lookup_user :: "rbac \<Rightarrow> int \<Rightarrow> user_row option" where
  "lookup_user s i = (if i < 0 then None else get_user s (nat i))"

section \<open>Service\<close>

definition authenticate_user :: "auth_env \<Rightarrow> rbac \<Rightarrow> string \<Rightarrow> string \<Rightarrow> user_row res" where
  "authenticate_user env s n pw =
     (case get_by_username_ci s n of
        None \<Rightarrow> Inl (authentication_error ''Invalid username or password'')
      | Some u \<Rightarrow>
          if \<not> is_active u \<or> \<not> verify_hash env pw (password_hash u)
          then Inl (authentication_error ''Invalid username or password'')
          else Inr u)"

text \<open>The claims of a new token, its expiry in seconds, and the lifetime in seconds.\<close>

definition create_access_token ::
  "auth_env \<Rightarrow> int \<Rightarrow> string \<Rightarrow> user_row \<Rightarrow> int option \<Rightarrow> (jdict \<times> int) res" where
  "create_access_token env now jti u sid_iat =
     (let session_started = (case sid_iat of None \<Rightarrow> now | Some t \<Rightarrow> t);
          max_age = hours (session_max_age_hours env)
      in if now - session_started > max_age then Inl (authentication_error ''Invalid authentication token'')
         else let expires_at = min (now + minutes (access_token_expire_minutes env)) (session_started + max_age)
              in Inr ([(''sub'', JStr (username u)), (''user_id'', JInt (int (user_id u))),
                       (''iat'', JInt (now div SECOND)), (''sid_iat'', JInt (session_started div SECOND)),
                       (''jti'', JStr jti), (''tv'', JInt (token_version u)),
                       (''exp'', JInt (expires_at div SECOND))],
                      (expires_at - now) div SECOND))"

definition refresh_access_token ::
  "auth_env \<Rightarrow> rbac \<Rightarrow> int \<Rightarrow> string \<Rightarrow> string \<Rightarrow> (user_row \<times> jdict \<times> int) res" where
  "refresh_access_token env s now jti token =
     (let refuse = Inl (authentication_error ''Invalid authentication token'') in
      case jwt_decode env False now token of
        None \<Rightarrow> refuse
      | Some p \<Rightarrow>
     (case (as_int (map_of p ''user_id''), map_of p ''sub'') of
        (Some uid, Some (JStr name)) \<Rightarrow>
          if name = '''' then refuse
          else (case timestamp_to_datetime (map_of p ''exp'') of
             None \<Rightarrow> refuse
           | Some expires_at \<Rightarrow>
               if now - expires_at > hours (refresh_token_max_age_hours env) then refuse
               else (case lookup_user s uid of
                  None \<Rightarrow> refuse
                | Some u \<Rightarrow>
                    if \<not> is_active u \<or> username u \<noteq> name then refuse
                    else if strict_int (map_of p ''tv'') \<noteq> Some (token_version u) then refuse
                    else (case timestamp_to_datetime (map_of p ''sid_iat'') of
                       None \<Rightarrow> refuse
                     | Some sid \<Rightarrow>
                         res_bind (create_access_token env now jti u (Some sid))
                           (\<lambda>(claims, expires_in). Inr (u, claims, expires_in)))))
      | _ \<Rightarrow> refuse))"

definition ensure_initial_admin :: "auth_env \<Rightarrow> rbac \<Rightarrow> bool \<Rightarrow> (rbac \<times> user_row option) res" where
  "ensure_initial_admin env s recover =
     (case get_by_username s (initial_username env) of
        Some u \<Rightarrow> Inr (s, Some u)
      | None \<Rightarrow>
          if \<not> recover \<and> users s \<noteq> [] then Inr (s, None)
          else (case repo_create_user s (initial_username env) (make_hash env (initial_password env)) True True of
                  Inr (t, u) \<Rightarrow> Inr (t, Some u)
                | Inl e \<Rightarrow> Inl e))"

definition bump_token_version :: "rbac \<Rightarrow> nat \<Rightarrow> rbac res" where
  "bump_token_version s u = res_bind (repo_update_user s u True no_updates) (\<lambda>(t, _). Inr t)"

definition change_password :: "auth_env \<Rightarrow> rbac \<Rightarrow> user_row \<Rightarrow> string \<Rightarrow> string \<Rightarrow> (rbac \<times> user_row) res" where
  "change_password env s u current new =
     (if \<not> verify_hash env current (password_hash u)
      then Inl (authentication_error ''Current password is incorrect'')
      else if new = current \<or> new = initial_password env
      then Inl (ValueError ''The new password must differ from the current and the initial password'')
      else res_bind (validate_password new (Some (username u))) (\<lambda>_.
           res_bind (repo_update_user s (user_id u) True
                       (no_updates\<lparr>upd_password_hash := Some (make_hash env new), upd_must_change := Some False\<rparr>))
             (\<lambda>(t, r). Inr (t, case r of None \<Rightarrow> u | Some x \<Rightarrow> x))))"

section \<open>Requests\<close>

definition verify_token :: "auth_env \<Rightarrow> int \<Rightarrow> string option \<Rightarrow> jdict res" where
  "verify_token env now token =
     (case token of
        None \<Rightarrow> Inl invalid_token
      | Some t \<Rightarrow> (case jwt_decode env True now t of None \<Rightarrow> Inl invalid_token | Some p \<Rightarrow> Inr p))"

definition load_active_user :: "auth_env \<Rightarrow> rbac \<Rightarrow> int \<Rightarrow> jdict \<Rightarrow> user_row res" where
  "load_active_user env s now p =
     (case as_int (map_of p ''user_id'') of
        None \<Rightarrow> Inl invalid_token
      | Some uid \<Rightarrow>
     (case lookup_user s uid of
        None \<Rightarrow> Inl invalid_token
      | Some u \<Rightarrow>
          if \<not> is_active u then Inl invalid_token
          else if strict_int (map_of p ''tv'') \<noteq> Some (token_version u) then Inl invalid_token
          else (case timestamp_to_datetime (map_of p ''sid_iat'') of
             None \<Rightarrow> Inl invalid_token
           | Some sid \<Rightarrow>
               if now - sid > hours (session_max_age_hours env) then Inl invalid_token else Inr u)))"

definition require_active_user_id :: "auth_env \<Rightarrow> rbac \<Rightarrow> int \<Rightarrow> jdict \<Rightarrow> nat res" where
  "require_active_user_id env s now p =
     res_bind (load_active_user env s now p) (\<lambda>u.
       if must_change_password u then Inl (OtherError ''HTTPException 403 password_change_required'')
       else Inr (user_id u))"

definition require_permission :: "auth_env \<Rightarrow> rbac \<Rightarrow> int \<Rightarrow> string \<Rightarrow> string \<Rightarrow> string option \<Rightarrow> jdict res" where
  "require_permission env s now r a token =
     res_bind (verify_token env now token) (\<lambda>p.
     res_bind (require_active_user_id env s now p) (\<lambda>u.
       if has_permission s u r a then Inr p else Inl (OtherError ''HTTPException 403'')))"

definition require_role :: "auth_env \<Rightarrow> rbac \<Rightarrow> int \<Rightarrow> string \<Rightarrow> string option \<Rightarrow> jdict res" where
  "require_role env s now n token =
     res_bind (verify_token env now token) (\<lambda>p.
     res_bind (require_active_user_id env s now p) (\<lambda>u.
       if has_role s u n then Inr p else Inl (OtherError ''HTTPException 403'')))"

section \<open>The absolute session limit\<close>

text \<open>The tokens of one session: the claims minted at the login at time \<open>T\<close>, and those minted from a
  token of the session by a refresh, in whatever state the user table is then.\<close>

inductive in_session :: "auth_env \<Rightarrow> int \<Rightarrow> jdict \<Rightarrow> bool" for env T where
  login: "create_access_token env T jti u None = Inr (p, e) \<Longrightarrow> in_session env T p"
| refresh: "in_session env T p \<Longrightarrow> jwt_decode env False now token = Some p \<Longrightarrow>
    refresh_access_token env s now jti token = Inr (u, q, e) \<Longrightarrow> in_session env T q"

lemma create_access_token_claims:
  assumes "create_access_token env now jti u sid = Inr (p, e)"
  shows "map_of p ''sid_iat'' = Some (JInt ((case sid of None \<Rightarrow> now | Some t \<Rightarrow> t) div SECOND))"
    and "map_of p ''tv'' = Some (JInt (token_version u))" and "map_of p ''user_id'' = Some (JInt (int (user_id u)))"
    and "\<exists>x. map_of p ''exp'' = Some (JInt x)
      \<and> x \<le> (case sid of None \<Rightarrow> now | Some t \<Rightarrow> t) div SECOND + session_max_age_hours env * 3600"
proof -
  let ?S = "case sid of None \<Rightarrow> now | Some t \<Rightarrow> t"
  have "(?S + hours (session_max_age_hours env)) div SECOND = ?S div SECOND + session_max_age_hours env * 3600"
    by (simp add: hours_def SECOND_def)
  moreover have "min a (?S + hours (session_max_age_hours env)) div SECOND
      \<le> (?S + hours (session_max_age_hours env)) div SECOND" for a
    by (rule zdiv_mono1) (simp_all add: SECOND_def)
  ultimately show "\<exists>x. map_of p ''exp'' = Some (JInt x) \<and> x \<le> ?S div SECOND + session_max_age_hours env * 3600"
    and "map_of p ''sid_iat'' = Some (JInt (?S div SECOND))" and "map_of p ''tv'' = Some (JInt (token_version u))"
    and "map_of p ''user_id'' = Some (JInt (int (user_id u)))"
    using assms by (auto simp: create_access_token_def Let_def split: if_splits)
qed

lemma refresh_InrD:
  assumes "refresh_access_token env s now jti token = Inr (u, q, e)"
  shows "\<exists>p sid. jwt_decode env False now token = Some p \<and> timestamp_to_datetime (map_of p ''sid_iat'') = Some sid
    \<and> create_access_token env now jti u (Some sid) = Inr (q, e)"
  using assms by (auto simp: refresh_access_token_def Let_def res_simps
      split: option.splits json.splits if_splits prod.splits)

lemma in_session_claims:
  assumes "in_session env T p"
  shows "map_of p ''sid_iat'' = Some (JInt (T div SECOND))
    \<and> (\<exists>x. map_of p ''exp'' = Some (JInt x) \<and> x \<le> T div SECOND + session_max_age_hours env * 3600)"
  using assms
proof induction
  case (login jti u p e)
  from create_access_token_claims(1,4) [OF login] show ?case by simp
next
  case (refresh p now token s jti u q e)
  from refresh_InrD [OF refresh(3)] refresh(2) obtain sid where
    sid: "timestamp_to_datetime (map_of p ''sid_iat'') = Some sid"
    and c: "create_access_token env now jti u (Some sid) = Inr (q, e)" by auto
  from sid refresh(4) have "sid = T div SECOND * SECOND"
    by (auto simp: timestamp_to_datetime_def Let_def split: if_splits)
  then have "sid div SECOND = T div SECOND" by (simp add: SECOND_def)
  with create_access_token_claims(1,4) [OF c] show ?case by simp
qed

text \<open>C28. A session has an absolute end: however often its tokens are refreshed, every token of a
  session that began with a login at time \<open>T\<close> carries that login time and expires at most
  \<open>session_max_age_hours\<close> after it, and no request with such a token is accepted later than that.\<close>

theorem session_absolute_limit:
  assumes "in_session env T p"
  shows "(\<exists>x. map_of p ''exp'' = Some (JInt x) \<and> x \<le> T div SECOND + session_max_age_hours env * 3600)
    \<and> (\<forall>s now u. load_active_user env s now p = Inr u \<longrightarrow> now \<le> T + hours (session_max_age_hours env))"
proof (intro conjI allI impI)
  note claims = in_session_claims [OF assms]
  then show "\<exists>x. map_of p ''exp'' = Some (JInt x) \<and> x \<le> T div SECOND + session_max_age_hours env * 3600" by blast
  fix s now u assume "load_active_user env s now p = Inr u"
  then obtain sid where "timestamp_to_datetime (map_of p ''sid_iat'') = Some sid"
    "now - sid \<le> hours (session_max_age_hours env)"
    by (auto simp: load_active_user_def split: option.splits if_splits)
  moreover from this(1) claims have "sid = T div SECOND * SECOND"
    by (auto simp: timestamp_to_datetime_def Let_def split: if_splits)
  moreover have "T div SECOND * SECOND \<le> T" by (simp add: SECOND_def minus_mod_eq_div_mult [symmetric])
  ultimately show "now \<le> T + hours (session_max_age_hours env)" by linarith
qed

definition demo_auth :: auth_env where
  "demo_auth = \<lparr>jwt_encode = (\<lambda>_. ''t''), jwt_decode = (\<lambda>_ _ _. None), verify_hash = (=), make_hash = id,
     access_token_expire_minutes = 60, refresh_token_max_age_hours = 12, session_max_age_hours = 12,
     initial_username = ''root'', initial_password = ''x''\<rparr>"

definition demo_claims :: jdict where
  "demo_claims = (case create_access_token demo_auth 5000000 ''j'' (demo_user 3 ''bob'') None of Inr (p, _) \<Rightarrow> p | Inl _ \<Rightarrow> [])"

lemma demo_login: "in_session demo_auth 5000000 demo_claims"
proof (rule in_session.login)
  show "create_access_token demo_auth 5000000 ''j'' (demo_user 3 ''bob'') None = Inr (demo_claims, 3600)" by code_simp
qed

theorem session_absolute_limit_witness:
  "load_active_user demo_auth demo_rbac 6000000 demo_claims = Inr (demo_user 3 ''bob'')
    \<and> (6000000::int) \<le> 5000000 + hours 12"
proof -
  have ok: "load_active_user demo_auth demo_rbac 6000000 demo_claims = Inr (demo_user 3 ''bob'')" by code_simp
  with session_absolute_limit [OF demo_login] have "6000000 \<le> 5000000 + hours (session_max_age_hours demo_auth)" by blast
  with ok show ?thesis by (simp add: demo_auth_def)
qed

section \<open>Revocation\<close>

text \<open>Everything that changes the user table, with the calls that end sessions singled out.\<close>

inductive user_step :: "rbac \<Rightarrow> rbac \<Rightarrow> bool" where
  rbac_step: "rbac_op actor s t \<Longrightarrow> user_step s t"
| account_step: "account_op actor s t \<Longrightarrow> user_step s t"
| bump_step: "bump_token_version s u = Inr t \<Longrightarrow> user_step s t"
| password_step: "change_password env s u cur new = Inr (t, r) \<Longrightarrow> user_step s t"
| initial_step: "ensure_initial_admin env s recover = Inr (t, r) \<Longrightarrow> user_step s t"

inductive revokes :: "nat \<Rightarrow> rbac \<Rightarrow> rbac \<Rightarrow> bool" where
  logout: "bump_token_version s u = Inr t \<Longrightarrow> revokes u s t"
| password_changed: "change_password env s r cur new = Inr (t, r') \<Longrightarrow> revokes (user_id r) s t"
| password_reset: "update_user hash s actor u n pw active = Inr (t, r) \<Longrightarrow>
    pw \<noteq> None \<or> n \<noteq> None \<or> active = Some False \<Longrightarrow> revokes u s t"
| deactivated: "set_active s actor u False = Inr (t, r) \<Longrightarrow> revokes u s t"
| deleted: "delete_user cleanup s actor u = Inr (t, b) \<Longrightarrow> revokes u s t"

text \<open>No row of user \<open>u\<close> accepts tokens of version \<open>v\<close> or older, and there will be no other row with this id.\<close>

definition stale :: "rbac \<Rightarrow> nat \<Rightarrow> int \<Rightarrow> bool" where
  "stale s u v \<longleftrightarrow> u < next_user s \<and> (\<forall>r \<in> set (users s). user_id r = u \<longrightarrow> v < token_version r)"

lemma repo_update_user_versions:
  assumes "repo_update_user s i bump w = Inr (t, r)" and "x \<in> set (users t)"
  shows "next_user t = next_user s \<and> (\<exists>y \<in> set (users s). user_id y = user_id x
    \<and> (if bump \<and> user_id x = i then token_version x = token_version y + 1 else token_version y \<le> token_version x))"
  using update_user_users [OF assms(1)]
proof
  assume t: "t = s\<lparr>users := map (\<lambda>x. if user_id x = i then apply_updates w bump x else x) (users s)\<rparr>"
  with assms(2) obtain y where y: "y \<in> set (users s)" "x = (if user_id y = i then apply_updates w bump y else y)" by auto
  then have "user_id y = user_id x" by simp
  moreover have "token_version x = (if user_id y = i \<and> bump then token_version y + 1 else token_version y)"
    using y(2) by (simp add: apply_updates_def)
  ultimately show ?thesis using y(1) t by auto
next
  assume t: "t = s \<and> get_user s i = None"
  then have "user_id x \<noteq> i" using assms(2) by (auto simp: get_user_def find_None_iff)
  with t assms(2) show ?thesis by auto
qed

lemma stale_update_user:
  assumes "stale s u v" and "repo_update_user s i bump w = Inr (t, r)"
  shows "stale t u v"
proof -
  have "next_user t = next_user s" using update_user_users [OF assms(2)] by auto
  moreover have "v < token_version x" if "x \<in> set (users t)" "user_id x = u" for x
    using repo_update_user_versions [OF assms(2) that(1)] assms(1) that(2) by (force simp: stale_def split: if_splits)
  ultimately show ?thesis using assms(1) by (simp add: stale_def)
qed

lemma change_password_InrD:
  assumes "change_password env s u cur new = Inr (t, r)"
  shows "\<exists>w r'. repo_update_user s (user_id u) True w = Inr (t, r')"
  using assms by (auto simp: change_password_def res_simps split: if_splits)

lemma create_user_stale: "stale s u v \<Longrightarrow> repo_create_user s n h a m = Inr (t, x) \<Longrightarrow> stale t u v"
  by (auto simp: stale_def repo_create_user_def Let_def split: if_splits)

lemma rbac_op_next_user: "rbac_op actor s t \<Longrightarrow> next_user t = next_user s"
  by (cases rule: rbac_op.cases)
    (auto simp: create_permission_def repo_create_permission_def delete_permission_def repo_delete_permission_def
      create_role_def repo_create_role_def update_role_def repo_update_role_def delete_role_def repo_delete_role_def
      assign_permission_to_role_def repo_assign_permission_to_role_def remove_permission_from_role_def
      repo_remove_permission_from_role_def assign_role_to_user_def repo_assign_role_to_user_def
      remove_role_from_user_def repo_remove_role_from_user_def assign_permission_to_user_def
      repo_assign_permission_to_user_def remove_permission_from_user_def repo_remove_permission_from_user_def
      Let_def res_simps split: if_splits option.splits)

lemma delete_user_InrD: "delete_user cleanup s actor u = Inr (t, b) \<Longrightarrow> t = fst (repo_delete_user s u)"
  by (auto simp: delete_user_def res_simps)

lemma set_active_InrD:
  assumes "set_active s actor u active = Inr (t, r)"
  shows "t = s \<and> get_user s u = None \<or> (\<exists>w. repo_update_user s u (\<not> active) w = Inr (t, r))"
  using assms by (auto simp: set_active_def res_simps split: if_splits)

lemma user_step_stale:
  assumes "user_step s t" and st: "stale s u v"
  shows "stale t u v"
  using assms(1)
proof cases
  case (rbac_step actor)
  with st rbac_op_users [OF rbac_step] rbac_op_next_user [OF rbac_step] show ?thesis by (simp add: stale_def)
next
  case (account_step actor)
  then show ?thesis
  proof cases
    case (op_create_user hash n pw active x)
    then show ?thesis by (auto simp: create_user_def res_simps intro: create_user_stale [OF st])
  next
    case (op_update_user hash i n pw active r)
    show ?thesis by (rule stale_update_user [OF st update_user_InrD(1) [OF op_update_user]])
  next
    case (op_delete_user cleanup i b)
    with st show ?thesis
      by (auto simp: stale_def repo_delete_user_def dest!: delete_user_InrD split: option.splits)
  next
    case (op_set_active i active r)
    with st stale_update_user [OF st] show ?thesis by (auto dest!: set_active_InrD)
  qed
next
  case (bump_step i)
  then show ?thesis by (auto simp: bump_token_version_def res_simps intro: stale_update_user [OF st])
next
  case (password_step env x cur new r)
  from change_password_InrD [OF password_step] show ?thesis using stale_update_user [OF st] by blast
next
  case (initial_step env recover r)
  then show ?thesis using st
    by (auto simp: ensure_initial_admin_def intro: create_user_stale split: option.splits if_splits sum.splits)
qed

lemma revokes_stale:
  assumes "revokes u s t" and "u < next_user s" and "\<And>r. r \<in> set (users s) \<Longrightarrow> user_id r = u \<Longrightarrow> v \<le> token_version r"
  shows "stale t u v"
proof -
  have bumped: "stale t u v" if r: "repo_update_user s u True w = Inr (t, r)" for w r
  proof -
    have "next_user t = next_user s" using update_user_users [OF r] by auto
    moreover have "v < token_version x" if "x \<in> set (users t)" "user_id x = u" for x
      using repo_update_user_versions [OF r that(1)] assms(3) that(2) by fastforce
    ultimately show ?thesis using assms(2) by (simp add: stale_def)
  qed
  have gone: "stale s u v" if "get_user s u = None"
    using that assms(2) by (auto simp: stale_def get_user_def find_None_iff)
  from assms(1) show ?thesis
  proof cases
    case logout
    then show ?thesis by (auto simp: bump_token_version_def res_simps intro: bumped)
  next
    case (password_changed env r cur new r')
    from change_password_InrD [OF password_changed(2)] show ?thesis using bumped password_changed(1) by blast
  next
    case (password_reset hash actor n pw active r)
    note r = update_user_InrD(1) [OF password_reset(1)]
    show ?thesis
    proof (cases "get_user s u")
      case None
      then have "t = s" using update_user_users [OF r] r by (auto simp: repo_update_user_def)
      with gone [OF None] show ?thesis by simp
    next
      case (Some x)
      with r password_reset(2) show ?thesis by (intro bumped) auto
    qed
  next
    case (deactivated actor r)
    with gone bumped show ?thesis by (auto dest!: set_active_InrD)
  next
    case (deleted cleanup actor b)
    with gone assms(2) show ?thesis
      by (auto simp: stale_def repo_delete_user_def dest!: delete_user_InrD split: option.splits)
  qed
qed

text \<open>C29. Revoked tokens stay revoked: once a user logs out, changes or is given a password or name, is
  deactivated or is deleted, every token minted for him before is rejected, whatever
  happens to the user table afterwards (his reactivation and new accounts included).\<close>

theorem revoked_tokens_rejected:
  assumes "create_access_token env now jti r sid = Inr (p, e)" and "get_user s (user_id r) = Some r" and "rbac_ok s"
    and "revokes (user_id r) s s'" and "user_step\<^sup>*\<^sup>* s' t"
  shows "load_active_user env' t now' p = Inl invalid_token"
proof -
  let ?u = "user_id r" and ?v = "token_version r"
  have r: "r \<in> set (users s)" using get_user_SomeD [OF assms(2)] by blast
  have "?u < next_user s" using r assms(3) by (auto simp: rbac_ok_def)
  moreover have "?v \<le> token_version x" if "x \<in> set (users s)" "user_id x = ?u" for x
    using that r assms(3) by (auto simp: rbac_ok_def dest: distinct_map_eq)
  ultimately have "stale s' ?u ?v" by (rule revokes_stale [OF assms(4)])
  with assms(5) have st: "stale t ?u ?v"
    by (induction rule: rtranclp_induct) (auto intro: user_step_stale)
  show ?thesis
  proof (cases "get_user t ?u")
    case None
    then show ?thesis using create_access_token_claims(3) [OF assms(1)]
      by (simp add: load_active_user_def as_int_def lookup_user_def)
  next
    case (Some x)
    with st have "?v \<noteq> token_version x" by (auto simp: stale_def dest!: get_user_SomeD)
    with Some show ?thesis using create_access_token_claims(2,3) [OF assms(1)]
      by (simp add: load_active_user_def as_int_def lookup_user_def strict_int_def)
  qed
qed

definition demo_logged_out :: rbac where
  "demo_logged_out = (case bump_token_version demo_rbac 3 of Inr t \<Rightarrow> t | Inl _ \<Rightarrow> demo_rbac)"

theorem revoked_tokens_rejected_witness:
  "load_active_user demo_auth demo_logged_out 6000000 demo_claims = Inl invalid_token
    \<and> \<not> isl (load_active_user demo_auth demo_rbac 6000000 demo_claims)"
proof -
  have c: "create_access_token demo_auth 5000000 ''j'' (demo_user 3 ''bob'') None = Inr (demo_claims, 3600)" by code_simp
  have "bump_token_version demo_rbac 3 = Inr demo_logged_out" by code_simp
  then have "revokes 3 demo_rbac demo_logged_out" by (rule logout)
  then have "revokes (user_id (demo_user 3 ''bob'')) demo_rbac demo_logged_out" by (simp add: demo_user_def)
  moreover have "get_user demo_rbac (user_id (demo_user 3 ''bob'')) = Some (demo_user 3 ''bob'')" by code_simp
  ultimately have "load_active_user demo_auth demo_logged_out 6000000 demo_claims = Inl invalid_token"
    using revoked_tokens_rejected [OF c _ demo_rbac_ok] by blast
  moreover have "\<not> isl (load_active_user demo_auth demo_rbac 6000000 demo_claims)" by code_simp
  ultimately show ?thesis by blast
qed

end
