(* ===== verification/Rbac_Seed.thy ===== *)
theory Rbac_Seed
  imports Rbac_Users
begin

text \<open>
  \<open>services/auth/rbac_seed.py\<close>: the seed that runs at every start. It creates missing permissions and
  system roles, grants the admin role everything, and re-asserts the curated permission set of the
  viewer role. The random password of the assistant account is an argument.
\<close>

section \<open>Seeding\<close>

definition seed_permission :: "rbac \<Rightarrow> string \<times> string \<times> string \<Rightarrow> rbac res" where
  "seed_permission s x =
     (case x of (r, a, d) \<Rightarrow>
        if get_permission s r a = None
        then res_bind (repo_create_permission s r a (Some d)) (\<lambda>(t, _). Inr t)
        else Inr s)"

definition seed_role :: "rbac \<Rightarrow> string \<times> string \<Rightarrow> rbac res" where
  "seed_role s x =
     (case x of (n, d) \<Rightarrow>
        if get_role_by_name s n = None
        then res_bind (repo_create_role s n (Some d) True) (\<lambda>(t, _). Inr t)
        else Inr s)"

definition grant_key :: "nat \<Rightarrow> rbac \<Rightarrow> string \<times> string \<Rightarrow> rbac res" where
  "grant_key role s k =
     (case get_permission s (fst k) (snd k) of
        None \<Rightarrow> Inr s
      | Some p \<Rightarrow> repo_assign_permission_to_role s role (perm_id p) True)"

definition grant_all :: "role_row option \<Rightarrow> (string \<times> string) list \<Rightarrow> rbac \<Rightarrow> rbac res" where
  "grant_all r ks s = (case r of None \<Rightarrow> Inr s | Some x \<Rightarrow> res_fold (grant_key (role_id x)) s ks)"

definition revoke_others :: "nat \<Rightarrow> (string \<times> string) set \<Rightarrow> rbac \<Rightarrow> rbac" where
  "revoke_others role keep s =
     foldl (\<lambda>t p. if perm_key p \<in> keep then t else fst (repo_remove_permission_from_role t role (perm_id p)))
       s (get_role_permissions s role)"

definition seed_rbac :: "rbac \<Rightarrow> rbac res" where
  "seed_rbac s =
     res_bind (res_fold seed_permission s DEFAULT_PERMISSIONS) (\<lambda>s1.
     res_bind (res_fold seed_role s1 SYSTEM_ROLES) (\<lambda>s2.
     let admin_role = get_role_by_name s2 ''admin''; viewer_role = get_role_by_name s2 ''viewer'' in
     res_bind (grant_all admin_role default_permission_keys s2) (\<lambda>s3.
     res_bind (case viewer_role of
                 None \<Rightarrow> Inr s3
               | Some v \<Rightarrow> res_bind (grant_all viewer_role VIEWER_PERMISSIONS s3)
                            (\<lambda>t. Inr (revoke_others (role_id v) (set VIEWER_PERMISSIONS) t))) (\<lambda>s4.
     grant_all (get_role_by_name s4 ''ai-assistant'') AI_ASSISTANT_PERMISSIONS s4))))"

definition ensure_ai_assistant_user :: "string \<Rightarrow> rbac \<Rightarrow> (rbac \<times> user_row) res" where
  "ensure_ai_assistant_user hash s =
     (case get_by_username s ''ai-assistant'' of
        Some u \<Rightarrow> Inr (s, u)
      | None \<Rightarrow> repo_create_user s ''ai-assistant'' hash False False)"

definition remove_all_rbac_data :: "rbac \<Rightarrow> rbac" where
  "remove_all_rbac_data s =
     (let s1 = foldl (\<lambda>t r. fst (repo_delete_role t (role_id r))) s (list_roles s)
      in foldl (\<lambda>t p. fst (repo_delete_permission t (perm_id p))) s1 (list_permissions s1))"

text \<open>\<open>admin_reseed_rbac\<close>; \<open>initial\<close> is \<open>AuthService.ensure_initial_admin\<close>.\<close>

record rbac_seed_result =
  permissions_seeded :: nat
  roles_seeded :: nat
  removed_existing :: bool

definition admin_reseed_rbac ::
  "(rbac \<Rightarrow> (rbac \<times> user_row option) res) \<Rightarrow> bool \<Rightarrow> rbac \<Rightarrow> (rbac \<times> rbac_seed_result) res" where
  "admin_reseed_rbac initial remove_existing s =
     res_bind (seed_rbac (if remove_existing then remove_all_rbac_data s else s)) (\<lambda>s1.
     res_bind (initial s1) (\<lambda>(s2, admin_user).
     res_bind (case admin_user of
                 None \<Rightarrow> Inr s2
               | Some u \<Rightarrow> if \<not> role_has_members s2 ''admin''
                          then assign_role_to_user_by_name s2 (user_id u) ''admin'' else Inr s2) (\<lambda>s3.
     Inr (s3, \<lparr>permissions_seeded = length (list_permissions s3), roles_seeded = length (list_roles s3),
       removed_existing = remove_existing\<rparr>))))"

section \<open>What the seed leaves\<close>

text \<open>The tables the seed does not touch.\<close>

definition same_members :: "rbac \<Rightarrow> rbac \<Rightarrow> bool" where
  "same_members s t \<longleftrightarrow> user_roles t = user_roles s \<and> user_permissions t = user_permissions s \<and> users t = users s"

lemma same_members_refl: "same_members s s"
  by (simp add: same_members_def)

lemma same_members_trans: "same_members s t \<Longrightarrow> same_members t u \<Longrightarrow> same_members s u"
  by (simp add: same_members_def)

lemma get_permission_None: "get_permission s r a = None \<longleftrightarrow> (r, a) \<notin> perm_key ` set (permissions s)"
  by (auto simp: get_permission_def find_None_iff)

lemma get_role_by_name_None: "get_role_by_name s n = None \<longleftrightarrow> n \<notin> role_name ` set (roles s)"
  by (auto simp: get_role_by_name_def find_None_iff)

lemma seed_permission_ok:
  assumes "rbac_ok s"
  shows "\<exists>t. seed_permission s (r, a, d) = Inr t \<and> rbac_ok t \<and> same_members s t \<and> roles t = roles s
    \<and> role_permissions t = role_permissions s \<and> perm_key ` set (permissions t) = insert (r, a) (perm_key ` set (permissions s))"
proof (cases "get_permission s r a = None")
  case True
  then have new: "(r, a) \<notin> perm_key ` set (permissions s)" by (simp add: get_permission_None)
  then obtain t p where c: "repo_create_permission s r a (Some d) = Inr (t, p)"
    by (auto simp: repo_create_permission_def Let_def)
  with new have "same_members s t" "roles t = roles s" "role_permissions t = role_permissions s"
    "perm_key ` set (permissions t) = insert (r, a) (perm_key ` set (permissions s))"
    by (auto simp: repo_create_permission_def Let_def same_members_def)
  with True c ok_create_permission [OF assms c] show ?thesis by (simp add: seed_permission_def)
next
  case False
  then have "(r, a) \<in> perm_key ` set (permissions s)" by (simp only: get_permission_None not_not)
  with assms False show ?thesis by (auto simp: seed_permission_def same_members_refl)
qed

lemma seed_permissions_ok:
  assumes "rbac_ok s"
  shows "\<exists>t. res_fold seed_permission s xs = Inr t \<and> rbac_ok t \<and> same_members s t \<and> roles t = roles s
    \<and> role_permissions t = role_permissions s
    \<and> perm_key ` set (permissions t) = perm_key ` set (permissions s) \<union> (\<lambda>(r, a, _). (r, a)) ` set xs"
  using assms
proof (induction xs arbitrary: s)
  case Nil
  then show ?case by (auto simp: same_members_refl)
next
  case (Cons x xs)
  obtain r a d where x: "x = (r, a, d)" using prod_cases3 by blast
  from seed_permission_ok [OF Cons.prems] obtain s1 where s1: "seed_permission s (r, a, d) = Inr s1" "rbac_ok s1"
    "same_members s s1" "roles s1 = roles s" "role_permissions s1 = role_permissions s"
    "perm_key ` set (permissions s1) = insert (r, a) (perm_key ` set (permissions s))" by blast
  from Cons.IH [OF s1(2)] obtain t where "res_fold seed_permission s1 xs = Inr t" "rbac_ok t" "same_members s1 t"
    "roles t = roles s1" "role_permissions t = role_permissions s1"
    "perm_key ` set (permissions t) = perm_key ` set (permissions s1) \<union> (\<lambda>(r, a, _). (r, a)) ` set xs" by blast
  with s1 x same_members_trans show ?case by auto
qed

lemma seed_roles_ok:
  assumes "rbac_ok s"
  shows "\<exists>t. res_fold seed_role s xs = Inr t \<and> rbac_ok t \<and> same_members s t \<and> permissions t = permissions s
    \<and> role_permissions t = role_permissions s \<and> fst ` set xs \<subseteq> role_name ` set (roles t) \<and> set (roles s) \<subseteq> set (roles t)"
  using assms
proof (induction xs arbitrary: s)
  case Nil
  then show ?case by (auto simp: same_members_refl)
next
  case (Cons x xs)
  obtain n d where x: "x = (n, d)" by fastforce
  have "\<exists>s1. seed_role s x = Inr s1 \<and> rbac_ok s1 \<and> same_members s s1 \<and> permissions s1 = permissions s
    \<and> role_permissions s1 = role_permissions s \<and> n \<in> role_name ` set (roles s1) \<and> set (roles s) \<subseteq> set (roles s1)"
  proof (cases "get_role_by_name s n = None")
    case True
    then have new: "n \<notin> role_name ` set (roles s)" by (simp add: get_role_by_name_None)
    then obtain t r where c: "repo_create_role s n (Some d) True = Inr (t, r)" by (auto simp: repo_create_role_def Let_def)
    have "rbac_ok t" by (rule ok_create_role [OF Cons.prems c]) simp
    with True c new show ?thesis by (auto simp: x seed_role_def repo_create_role_def Let_def same_members_def)
  next
    case False
    then have "n \<in> role_name ` set (roles s)" by (simp only: get_role_by_name_None not_not)
    with False Cons.prems show ?thesis by (auto simp: x seed_role_def same_members_refl)
  qed
  then obtain s1 where s1: "seed_role s x = Inr s1" "rbac_ok s1" "same_members s s1" "permissions s1 = permissions s"
    "role_permissions s1 = role_permissions s" "n \<in> role_name ` set (roles s1)" "set (roles s) \<subseteq> set (roles s1)" by blast
  from Cons.IH [OF s1(2)] obtain t where t: "res_fold seed_role s1 xs = Inr t" "rbac_ok t" "same_members s1 t"
    "permissions t = permissions s1" "role_permissions t = role_permissions s1"
    "fst ` set xs \<subseteq> role_name ` set (roles t)" "set (roles s1) \<subseteq> set (roles t)" by blast
  then have "n \<in> role_name ` set (roles t)" using s1(6) by blast
  with s1 t x same_members_trans [OF s1(3) t(3)] show ?case by auto
qed

text \<open>The grants of one role after \<open>grant_all\<close>: the named permissions are granted, the others as before.\<close>

definition granted :: "rbac \<Rightarrow> nat \<Rightarrow> (string \<times> string) set" where
  "granted s r = perm_key ` set (get_role_permissions s r)"

lemma granted_iff: "k \<in> granted s r \<longleftrightarrow>
    (\<exists>p \<in> set (permissions s). perm_key p = k \<and> map_of (role_permissions s) (r, perm_id p) = Some True)"
  by (auto simp: granted_def get_role_permissions_def)

definition same_but_grants :: "rbac \<Rightarrow> rbac \<Rightarrow> bool" where
  "same_but_grants s t \<longleftrightarrow> same_members s t \<and> permissions t = permissions s \<and> roles t = roles s"

lemma grant_key_ok:
  assumes "rbac_ok s" and "role \<in> role_id ` set (roles s)" and "k \<in> perm_key ` set (permissions s)"
  shows "\<exists>t. grant_key role s k = Inr t \<and> rbac_ok t \<and> same_but_grants s t
    \<and> granted t role = insert k (granted s role) \<and> (\<forall>r. r \<noteq> role \<longrightarrow> granted t r = granted s r)"
proof -
  obtain p where p: "p \<in> set (permissions s)" "perm_key p = k" using assms(3) by blast
  then have k: "get_permission s (fst k) (snd k) = Some p" using get_permission_eq(1) [OF assms(1) p(1)] by auto
  have "get_role s role \<noteq> None" using assms(2) by (auto simp: get_role_def find_None_iff)
  then obtain t where t: "repo_assign_permission_to_role s role (perm_id p) True = Inr t"
    and tt: "t = s\<lparr>role_permissions := AList.update (role, perm_id p) True (role_permissions s)\<rparr>"
    using get_permission_eq(2) [OF assms(1) p(1)] by (simp add: repo_assign_permission_to_role_def)
  have same: "perm_id q = perm_id p \<longleftrightarrow> q = p" if "q \<in> set (permissions s)" for q
    using id_unique [OF assms(1) that p(1)] by blast
  have "x \<in> granted t role \<longleftrightarrow> x = k \<or> x \<in> granted s role" for x
  proof -
    have "x \<in> granted t role \<longleftrightarrow> (\<exists>q \<in> set (permissions s). perm_key q = x
        \<and> (perm_id q = perm_id p \<or> map_of (role_permissions s) (role, perm_id q) = Some True))"
      by (auto simp: granted_iff tt split: if_splits)
    also have "\<dots> \<longleftrightarrow> x = k \<or> x \<in> granted s role" unfolding granted_iff using same p by metis
    finally show ?thesis .
  qed
  then have "granted t role = insert k (granted s role)" by blast
  moreover have "granted t r = granted s r" if "r \<noteq> role" for r using that by (auto simp: granted_iff tt)
  moreover have "same_but_grants s t" by (simp add: tt same_but_grants_def same_members_def)
  ultimately show ?thesis using t k ok_grant_role [OF assms(1) t] by (auto simp: grant_key_def)
qed

lemma same_but_grants_trans: "same_but_grants s t \<Longrightarrow> same_but_grants t u \<Longrightarrow> same_but_grants s u"
  by (auto simp: same_but_grants_def same_members_def)

lemma grants_ok:
  assumes "rbac_ok s" and "role \<in> role_id ` set (roles s)" and "set ks \<subseteq> perm_key ` set (permissions s)"
  shows "\<exists>t. res_fold (grant_key role) s ks = Inr t \<and> rbac_ok t \<and> same_but_grants s t
    \<and> granted t role = set ks \<union> granted s role \<and> (\<forall>r. r \<noteq> role \<longrightarrow> granted t r = granted s r)"
  using assms
proof (induction ks arbitrary: s)
  case Nil
  then show ?case by (simp add: same_but_grants_def same_members_refl)
next
  case (Cons k ks)
  have "k \<in> perm_key ` set (permissions s)" using Cons.prems(3) by simp
  from grant_key_ok [OF Cons.prems(1,2) this] obtain s1 where
    s1: "grant_key role s k = Inr s1" "rbac_ok s1" "same_but_grants s s1"
      "granted s1 role = insert k (granted s role)" "\<forall>r. r \<noteq> role \<longrightarrow> granted s1 r = granted s r" by blast
  moreover from s1(3) have "roles s1 = roles s" "permissions s1 = permissions s" by (simp_all add: same_but_grants_def)
  moreover from this Cons.IH [OF s1(2)] Cons.prems obtain t where
    "res_fold (grant_key role) s1 ks = Inr t" "rbac_ok t" "same_but_grants s1 t"
    "granted t role = set ks \<union> granted s1 role" "\<forall>r. r \<noteq> role \<longrightarrow> granted t r = granted s1 r" by auto
  ultimately show ?case using same_but_grants_trans by auto
qed

lemma revoke_one_ok:
  assumes "rbac_ok s" and "p \<in> set (permissions s)"
  shows "let t = fst (repo_remove_permission_from_role s role (perm_id p)) in
    rbac_ok t \<and> same_but_grants s t \<and> granted t role = granted s role - {perm_key p}
    \<and> (\<forall>r. r \<noteq> role \<longrightarrow> granted t r = granted s r)"
proof -
  let ?t = "fst (repo_remove_permission_from_role s role (perm_id p))"
  have rp: "map_of (role_permissions ?t) k = (if k = (role, perm_id p) then None else map_of (role_permissions s) k)" for k
    by (simp add: repo_remove_permission_from_role_def map_of_drop_grants split: option.split)
  have sb: "same_but_grants s ?t"
    by (simp add: repo_remove_permission_from_role_def same_but_grants_def same_members_def split: option.split)
  have key: "perm_key q = perm_key p \<longleftrightarrow> q = p" if "q \<in> set (permissions s)" for q
    using that assms by (auto simp: rbac_ok_def dest: distinct_map_eq)
  have id: "perm_id q = perm_id p \<longleftrightarrow> q = p" if "q \<in> set (permissions s)" for q
    using id_unique [OF assms(1) that assms(2)] by blast
  have "permissions ?t = permissions s" using sb by (simp add: same_but_grants_def)
  then have "x \<in> granted ?t r \<longleftrightarrow> x \<in> granted s r \<and> (r = role \<longrightarrow> x \<noteq> perm_key p)" for x r
    unfolding granted_iff rp using key id by (metis (no_types, lifting) option.distinct(1) prod.inject)
  then show ?thesis using ok_revoke_role [OF assms(1)] sb by (auto simp: Let_def)
qed

lemma revoke_others_ok:
  assumes "rbac_ok s"
  shows "rbac_ok (revoke_others role keep s) \<and> same_but_grants s (revoke_others role keep s)
    \<and> granted (revoke_others role keep s) role = granted s role \<inter> keep
    \<and> (\<forall>r. r \<noteq> role \<longrightarrow> granted (revoke_others role keep s) r = granted s r)"
proof -
  let ?f = "\<lambda>t p. if perm_key p \<in> keep then t else fst (repo_remove_permission_from_role t role (perm_id p))"
  have "rbac_ok (foldl ?f t ps) \<and> same_but_grants t (foldl ?f t ps)
      \<and> granted (foldl ?f t ps) role = granted t role - (perm_key ` set ps - keep)
      \<and> (\<forall>r. r \<noteq> role \<longrightarrow> granted (foldl ?f t ps) r = granted t r)"
    if "rbac_ok t" "set ps \<subseteq> set (permissions t)" for ps t
    using that
  proof (induction ps arbitrary: t)
    case Nil
    then show ?case by (simp add: same_but_grants_def same_members_refl)
  next
    case (Cons p ps)
    have s1: "rbac_ok (?f t p) \<and> same_but_grants t (?f t p) \<and> granted (?f t p) role = granted t role - ({perm_key p} - keep)
        \<and> (\<forall>r. r \<noteq> role \<longrightarrow> granted (?f t p) r = granted t r)"
      using revoke_one_ok [OF Cons.prems(1), of p role] Cons.prems
      by (auto simp: Let_def same_but_grants_def same_members_refl)
    moreover from this have "permissions (?f t p) = permissions t" by (simp add: same_but_grants_def)
    moreover from this Cons.IH [of "?f t p"] s1 Cons.prems(2) have
      "rbac_ok (foldl ?f (?f t p) ps) \<and> same_but_grants (?f t p) (foldl ?f (?f t p) ps)
      \<and> granted (foldl ?f (?f t p) ps) role = granted (?f t p) role - (perm_key ` set ps - keep)
      \<and> (\<forall>r. r \<noteq> role \<longrightarrow> granted (foldl ?f (?f t p) ps) r = granted (?f t p) r)" by simp
    ultimately show ?case using same_but_grants_trans [of t "?f t p" "foldl ?f (?f t p) ps"] by (simp del: if_split) blast
  qed
  from this [OF assms get_role_permissions_sub, of role] show ?thesis
    unfolding revoke_others_def granted_def [symmetric] by auto
qed

lemma default_keys: "(\<lambda>(r, a, _). (r, a)) ` set DEFAULT_PERMISSIONS = set default_permission_keys"
  by (auto simp: default_permission_keys_def)

lemma curated_keys_seeded:
  "set VIEWER_PERMISSIONS \<subseteq> set default_permission_keys" "set AI_ASSISTANT_PERMISSIONS \<subseteq> set default_permission_keys"
  by code_simp+

lemma role_by_name:
  assumes "n \<in> role_name ` set (roles s)"
  obtains r where "get_role_by_name s n = Some r" "r \<in> set (roles s)" "role_name r = n"
proof -
  from assms obtain r where r: "get_role_by_name s n = Some r" using get_role_by_name_None [of s n] by blast
  moreover from r have "r \<in> set (roles s)" "role_name r = n" by (auto simp: get_role_by_name_def find_Some_iff)
  ultimately show ?thesis by (rule that)
qed

lemma grant_all_ok:
  assumes "rbac_ok s" and "r \<in> set (roles s)" and "set ks \<subseteq> perm_key ` set (permissions s)"
  shows "\<exists>t. grant_all (Some r) ks s = Inr t \<and> rbac_ok t \<and> same_but_grants s t
    \<and> granted t (role_id r) = set ks \<union> granted s (role_id r) \<and> (\<forall>x. x \<noteq> role_id r \<longrightarrow> granted t x = granted s x)"
  using grants_ok [OF assms(1) _ assms(3), of "role_id r"] assms(2) by (simp add: grant_all_def)

lemma system_roles_seeded: "{''admin'', ''viewer'', ''ai-assistant''} \<subseteq> fst ` set SYSTEM_ROLES"
  by code_simp



end
