(* ===== verification/Rate_Limiter.thy ===== *)
theory Rate_Limiter
  imports Prelude
begin

text \<open>
  \<open>services/auth/login_rate_limiter.py\<close>: the sliding-window limiter over a Redis sorted set per key,
  with an in-process deque per key when Redis is unreachable. A sorted set is a list of
  members with distinct names and their scores; the Lua script of the source runs as one step. Whether
  Redis answers, the two clocks and the fresh member name are arguments. \<open>EXPIRE\<close> removes a key only
  after all its entries left the window, so it does not change any count.
\<close>

record limiter_config =
  fail_closed :: bool
  attempts :: nat
  window_seconds :: int

record limiter =
  zsets :: "(string, (string \<times> int) list) dict"
  fallback_attempts :: "(string, (int \<times> string) list) dict"

text \<open>One call: Redis availability, wall clock, monotonic clock, member name.\<close>

record call =
  redis_up :: bool
  wall :: int
  mono :: int
  member :: string

definition rate_limit_exceeded :: "string \<Rightarrow> py_exn" where
  "rate_limit_exceeded key = OtherError (''RateLimitExceededError '' @ key)"

section \<open>Redis\<close>

definition zremrangebyscore :: "int \<Rightarrow> int \<Rightarrow> (string \<times> int) list \<Rightarrow> (string \<times> int) list" where
  "zremrangebyscore lo hi z = filter (\<lambda>(_, sc). \<not> (lo \<le> sc \<and> sc \<le> hi)) z"

definition zadd :: "string \<Rightarrow> int \<Rightarrow> (string \<times> int) list \<Rightarrow> (string \<times> int) list" where
  "zadd m sc z = AList.update m sc z"

definition lua_check_and_record ::
  "limiter_config \<Rightarrow> int \<Rightarrow> string \<Rightarrow> (string \<times> int) list \<Rightarrow> (string \<times> int) list \<times> bool" where
  "lua_check_and_record cfg now m z =
     (let kept = zremrangebyscore 0 (now - window_seconds cfg) z in
      if length kept \<ge> attempts cfg then (kept, False) else (zadd m now kept, True))"

definition check_and_record_redis :: "limiter_config \<Rightarrow> call \<Rightarrow> string \<Rightarrow> limiter \<Rightarrow> limiter \<times> bool" where
  "check_and_record_redis cfg c key s =
     (let (z, ok) = lua_check_and_record cfg (wall c) (member c) (dget (zsets s) key [])
      in (s\<lparr>zsets := AList.update key z (zsets s)\<rparr>, ok))"

definition count_redis :: "limiter_config \<Rightarrow> call \<Rightarrow> string \<Rightarrow> limiter \<Rightarrow> limiter \<times> nat" where
  "count_redis cfg c key s =
     (let kept = zremrangebyscore 0 (wall c - window_seconds cfg) (dget (zsets s) key [])
      in (s\<lparr>zsets := AList.update key kept (zsets s)\<rparr>, length kept))"

definition record_redis :: "call \<Rightarrow> string \<Rightarrow> limiter \<Rightarrow> limiter" where
  "record_redis c key s =
     s\<lparr>zsets := AList.update key (zadd (member c) (wall c) (dget (zsets s) key [])) (zsets s)\<rparr>"

section \<open>In-process fallback\<close>

definition trim_fallback :: "limiter_config \<Rightarrow> int \<Rightarrow> (int \<times> string) list \<Rightarrow> (int \<times> string) list" where
  "trim_fallback cfg now q = dropWhile (\<lambda>(t, _). now - t > window_seconds cfg) q"

definition count_fallback :: "limiter_config \<Rightarrow> call \<Rightarrow> string \<Rightarrow> limiter \<Rightarrow> limiter \<times> nat" where
  "count_fallback cfg c key s =
     (let q = trim_fallback cfg (mono c) (dget (fallback_attempts s) key [])
      in (s\<lparr>fallback_attempts := AList.update key q (fallback_attempts s)\<rparr>, length q))"

definition record_fallback :: "call \<Rightarrow> string \<Rightarrow> limiter \<Rightarrow> limiter" where
  "record_fallback c key s =
     s\<lparr>fallback_attempts := AList.update key (dget (fallback_attempts s) key [] @ [(mono c, member c)])
         (fallback_attempts s)\<rparr>"

definition check_and_record_fallback :: "limiter_config \<Rightarrow> call \<Rightarrow> string \<Rightarrow> limiter \<Rightarrow> limiter \<times> bool" where
  "check_and_record_fallback cfg c key s =
     (let (s1, n) = count_fallback cfg c key s in
      if n \<ge> attempts cfg then (s1, False) else (record_fallback c key s1, True))"

section \<open>Operations\<close>

text \<open>\<open>check\<close> and \<open>reserve\<close> differ only in the member name \<open>reserve\<close> returns.\<close>

definition check :: "limiter_config \<Rightarrow> call \<Rightarrow> string \<Rightarrow> limiter \<Rightarrow> limiter \<times> unit res" where
  "check cfg c key s =
     (if \<not> redis_up c \<and> fail_closed cfg then (s, Inl (rate_limit_exceeded key))
      else let (t, allowed) = (if redis_up c then check_and_record_redis cfg c key s
                               else check_and_record_fallback cfg c key s)
           in (t, if allowed then Inr () else Inl (rate_limit_exceeded key)))"

definition reserve :: "limiter_config \<Rightarrow> call \<Rightarrow> string \<Rightarrow> limiter \<Rightarrow> limiter \<times> string res" where
  "reserve cfg c key s = (let (t, r) = check cfg c key s in (t, res_bind r (\<lambda>_. Inr (member c))))"

definition release :: "call \<Rightarrow> string \<Rightarrow> string \<Rightarrow> limiter \<Rightarrow> limiter" where
  "release c key m s =
     (let s1 = (if redis_up c
                then s\<lparr>zsets := AList.update key (AList.delete m (dget (zsets s) key [])) (zsets s)\<rparr> else s);
          q = dget (fallback_attempts s1) key []
      in if q = [] then s1
         else s1\<lparr>fallback_attempts := AList.update key (filter (\<lambda>e. snd e \<noteq> m) q) (fallback_attempts s1)\<rparr>)"

definition assert_allowed :: "limiter_config \<Rightarrow> call \<Rightarrow> string \<Rightarrow> limiter \<Rightarrow> limiter \<times> unit res" where
  "assert_allowed cfg c key s =
     (if \<not> redis_up c \<and> fail_closed cfg then (s, Inl (rate_limit_exceeded key))
      else let (t, n) = (if redis_up c then count_redis cfg c key s else count_fallback cfg c key s)
           in (t, if n \<ge> attempts cfg then Inl (rate_limit_exceeded key) else Inr ()))"

definition record_attempt :: "call \<Rightarrow> string \<Rightarrow> limiter \<Rightarrow> limiter" where
  "record_attempt c key s = (if redis_up c then record_redis c key s else record_fallback c key s)"

definition clear_key :: "call \<Rightarrow> string \<Rightarrow> limiter \<Rightarrow> limiter" where
  "clear_key c key s =
     (let s1 = (if redis_up c then s\<lparr>zsets := AList.delete key (zsets s)\<rparr> else s)
      in s1\<lparr>fallback_attempts := AList.delete key (fallback_attempts s1)\<rparr>)"

section \<open>The sliding window\<close>

text \<open>Serving calls in order: the times of the accepted ones.\<close>

fun serve :: "('m \<Rightarrow> int \<Rightarrow> 's \<Rightarrow> 's \<times> bool) \<Rightarrow> ('m \<times> int) list \<Rightarrow> 's \<Rightarrow> int list" where
  "serve attempt [] s = []"
| "serve attempt ((m, now) # cs) s =
     (let (s1, ok) = attempt m now s in (if ok then [now] else []) @ serve attempt cs s1)"

text \<open>The contract of a sliding-window log. An attempt counts the logged times that are still live; if
  there are fewer than the limit it is accepted and logged. A time once out of the window stays
  out.\<close>

locale sliding_window =
  fixes attempt :: "'m \<Rightarrow> int \<Rightarrow> 's \<Rightarrow> 's \<times> bool"
    and log :: "'s \<Rightarrow> int list"
    and names :: "'s \<Rightarrow> 'm set"
    and limit :: nat
    and live :: "int \<Rightarrow> int \<Rightarrow> bool"
  assumes accepted: "attempt m now s = (t, True) \<Longrightarrow> m \<notin> names s \<Longrightarrow> sorted (log s) \<Longrightarrow>
      length (filter (live now) (log s)) < limit \<and> log t = filter (live now) (log s) @ [now]"
    and refused: "attempt m now s = (t, False) \<Longrightarrow> sorted (log s) \<Longrightarrow> log t = filter (live now) (log s)"
    and names_step: "names (fst (attempt m now s)) \<subseteq> insert m (names s)"
    and live_mono: "live now' x \<Longrightarrow> now \<le> now' \<Longrightarrow> live now x"
begin

lemma live_twice: "now \<le> z \<Longrightarrow> filter (live z) (filter (live now) xs) = filter (live z) xs"
  by (auto simp: filter_filter intro!: filter_cong dest: live_mono)

text \<open>From the last call at \<open>T\<close> on, the live part of the accepted times is the live part of the log.\<close>

lemma serve_bounded:
  assumes "sorted (T # map snd cs)" and "distinct (map fst cs)" and "fst ` set cs \<inter> names s = {}"
    and "sorted (log s)" and "\<forall>x \<in> set past \<union> set (log s). x \<le> T"
    and "\<forall>y \<ge> T. filter (live y) past = filter (live y) (log s)"
    and "\<forall>y. length (filter (\<lambda>x. x \<le> y \<and> live y x) past) \<le> limit"
  shows "length (filter (\<lambda>x. x \<le> y \<and> live y x) (past @ serve attempt cs s)) \<le> limit"
  using assms
proof (induction cs arbitrary: s past T)
  case Nil
  then show ?case by simp
next
  case (Cons c cs)
  obtain m now where c: "c = (m, now)" by fastforce
  obtain s1 ok where a: "attempt m now s = (s1, ok)" by fastforce
  have T: "T \<le> now" and rest: "sorted (now # map snd cs)" "distinct (map fst cs)" using Cons.prems(1,2) c by auto
  have fresh: "m \<notin> names s" "fst ` set cs \<inter> names s1 = {}"
    using Cons.prems(2,3) c names_step [of m now s] a by auto
  have old: "\<forall>x \<in> set past \<union> set (log s). x \<le> now" using Cons.prems(5) T by (meson order_trans)
  have live: "filter (live z) past = filter (live z) (filter (live now) (log s))" if "now \<le> z" for z
    using Cons.prems(6) live_twice [OF that] T that by simp
  have sorted': "sorted (filter (live now) (log s))" using Cons.prems(4) by (rule sorted_wrt_filter)
  show ?case
  proof (cases ok)
    case False
    with a have l: "log s1 = filter (live now) (log s)" using refused Cons.prems(4) by simp
    have "length (filter (\<lambda>x. x \<le> y \<and> live y x) (past @ serve attempt cs s1)) \<le> limit"
      by (rule Cons.IH [OF rest fresh(2)]) (use l sorted' old live Cons.prems(7) in auto)
    with False a c show ?thesis by simp
  next
    case True
    with a have "attempt m now s = (s1, True)" by simp
    from accepted [OF this fresh(1) Cons.prems(4)] have few: "length (filter (live now) (log s)) < limit"
      and l: "log s1 = filter (live now) (log s) @ [now]" by blast+
    have "length (filter (\<lambda>x. x \<le> z \<and> live z x) (past @ [now])) \<le> limit" for z
    proof (cases "now \<le> z")
      case True
      have "filter (\<lambda>x. x \<le> z \<and> live z x) past = filter (live z) past"
        using old True by (intro filter_cong refl) (meson UnI1 order_trans)
      also have "length \<dots> \<le> length (filter (live now) (log s))" using live [OF True] length_filter_le by metis
      finally show ?thesis using few by simp
    next
      case False
      with Cons.prems(7) show ?thesis by simp
    qed
    then have "length (filter (\<lambda>x. x \<le> y \<and> live y x) ((past @ [now]) @ serve attempt cs s1)) \<le> limit"
      by (intro Cons.IH [OF rest fresh(2)])
        (use l sorted' old live in \<open>auto simp: sorted_append\<close>)
    with True a c show ?thesis by simp
  qed
qed

lemma burst_bounded:
  assumes "sorted (map snd cs)" and "distinct (map fst cs)" and "fst ` set cs \<inter> names s = {}" and "log s = []"
  shows "length (filter (\<lambda>x. x \<le> y \<and> live y x) (serve attempt cs s)) \<le> limit"
proof (cases cs)
  case (Cons c cs')
  with assms(1) have "sorted (snd c # map snd cs)" by simp
  from serve_bounded [OF this assms(2,3), of "[]"] assms(4) show ?thesis by simp
qed simp

end

section \<open>Both stores are sliding windows\<close>

text \<open>Calls with Redis up, and calls on the in-process window, for one key.\<close>

definition check_redis_call :: "limiter_config \<Rightarrow> string \<Rightarrow> string \<Rightarrow> int \<Rightarrow> limiter \<Rightarrow> limiter \<times> bool" where
  "check_redis_call cfg key m now s =
     (let (t, r) = check cfg \<lparr>redis_up = True, wall = now, mono = 0, member = m\<rparr> key s in (t, \<not> isl r))"

definition check_fallback_call :: "limiter_config \<Rightarrow> string \<Rightarrow> string \<Rightarrow> int \<Rightarrow> limiter \<Rightarrow> limiter \<times> bool" where
  "check_fallback_call cfg key m now s =
     (let (t, r) = check cfg \<lparr>redis_up = False, wall = 0, mono = now, member = m\<rparr> key s in (t, \<not> isl r))"

definition zset_of :: "string \<Rightarrow> limiter \<Rightarrow> (string \<times> int) list" where
  "zset_of key s = dget (zsets s) key []"

definition queue_of :: "string \<Rightarrow> limiter \<Rightarrow> (int \<times> string) list" where
  "queue_of key s = dget (fallback_attempts s) key []"

lemma check_redis_call_eq:
  "check_redis_call cfg key m now s =
     (let (z, ok) = lua_check_and_record cfg now m (zset_of key s) in (s\<lparr>zsets := AList.update key z (zsets s)\<rparr>, ok))"
  by (simp add: check_redis_call_def check_def check_and_record_redis_def zset_of_def Let_def split: prod.splits)

lemma filter_map_snd: "map snd (filter (\<lambda>(_, sc). P sc) z) = filter P (map snd z)"
  by (induction z) auto

interpretation redis_window: sliding_window "check_redis_call cfg key" "\<lambda>s. map snd (zset_of key s)"
  "\<lambda>s. fst ` set (zset_of key s)" "attempts cfg" "\<lambda>now x. \<not> (0 \<le> x \<and> x \<le> now - window_seconds cfg)"
  for cfg key
proof
  fix m now s t
  let ?kept = "zremrangebyscore 0 (now - window_seconds cfg) (zset_of key s)"
  have kept: "map snd ?kept = filter (\<lambda>x. \<not> (0 \<le> x \<and> x \<le> now - window_seconds cfg)) (map snd (zset_of key s))"
    unfolding zremrangebyscore_def by (rule filter_map_snd)
  then have len: "length ?kept = length (filter (\<lambda>x. \<not> (0 \<le> x \<and> x \<le> now - window_seconds cfg)) (map snd (zset_of key s)))"
    by (metis length_map)
  have sub: "fst ` set ?kept \<subseteq> fst ` set (zset_of key s)" by (auto simp: zremrangebyscore_def)
  show "length (filter (\<lambda>x. \<not> (0 \<le> x \<and> x \<le> now - window_seconds cfg)) (map snd (zset_of key s))) < attempts cfg
      \<and> map snd (zset_of key t) =
        filter (\<lambda>x. \<not> (0 \<le> x \<and> x \<le> now - window_seconds cfg)) (map snd (zset_of key s)) @ [now]"
    if "check_redis_call cfg key m now s = (t, True)" "m \<notin> fst ` set (zset_of key s)"
  proof -
    from that(1) have "length ?kept < attempts cfg" and t: "t = s\<lparr>zsets := AList.update key (zadd m now ?kept) (zsets s)\<rparr>"
      by (auto simp: check_redis_call_eq lua_check_and_record_def Let_def split: if_splits)
    moreover have "zadd m now ?kept = ?kept @ [(m, now)]" unfolding zadd_def using that(2) sub by (intro update_fresh) blast
    ultimately show ?thesis using kept len by (simp add: zset_of_def)
  qed
  show "map snd (zset_of key t) = filter (\<lambda>x. \<not> (0 \<le> x \<and> x \<le> now - window_seconds cfg)) (map snd (zset_of key s))"
    if "check_redis_call cfg key m now s = (t, False)"
  proof -
    from that have "t = s\<lparr>zsets := AList.update key ?kept (zsets s)\<rparr>"
      by (auto simp: check_redis_call_eq lua_check_and_record_def Let_def split: if_splits)
    then show ?thesis using kept by (simp add: zset_of_def)
  qed
  show "fst ` set (zset_of key (fst (check_redis_call cfg key m now s))) \<subseteq> insert m (fst ` set (zset_of key s))"
    using sub by (auto simp: check_redis_call_eq lua_check_and_record_def Let_def zset_of_def zadd_def)
qed auto

lemma dropWhile_sorted:
  fixes now w :: int
  assumes "sorted (map fst q)"
  shows "map fst (dropWhile (\<lambda>(t, _). now - t > w) q) = filter (\<lambda>t. now - t \<le> w) (map fst q)"
  using assms
proof (induction q)
  case (Cons e q)
  obtain t m where e: "e = (t, m)" by fastforce
  show ?case
  proof (cases "now - t > w")
    case False
    have "\<forall>x \<in> set (map fst q). t \<le> x" using Cons.prems e by simp
    then have "\<forall>x \<in> set (map fst q). now - x \<le> w" using False by fastforce
    with False e show ?thesis by (simp add: filter_id_conv)
  qed (use Cons e in simp)
qed simp

lemma check_fallback_call_eq:
  assumes "\<not> fail_closed cfg"
  shows "check_fallback_call cfg key m now s =
    (let q = trim_fallback cfg now (queue_of key s) in
     if length q \<ge> attempts cfg then (s\<lparr>fallback_attempts := AList.update key q (fallback_attempts s)\<rparr>, False)
     else (s\<lparr>fallback_attempts := AList.update key (q @ [(now, m)]) (AList.update key q (fallback_attempts s))\<rparr>, True))"
  using assms by (simp add: check_fallback_call_def check_def check_and_record_fallback_def count_fallback_def
      record_fallback_def queue_of_def Let_def)

lemma fallback_window:
  assumes "\<not> fail_closed cfg"
  shows "sliding_window (check_fallback_call cfg key) (\<lambda>s. map fst (queue_of key s)) (\<lambda>_. {}) (attempts cfg)
    (\<lambda>now x. now - x \<le> window_seconds cfg)"
proof
  fix m now s t
  let ?q = "trim_fallback cfg now (queue_of key s)"
  have q: "map fst ?q = filter (\<lambda>x. now - x \<le> window_seconds cfg) (map fst (queue_of key s))"
    if "sorted (map fst (queue_of key s))" unfolding trim_fallback_def by (rule dropWhile_sorted [OF that])
  then have len: "length ?q = length (filter (\<lambda>x. now - x \<le> window_seconds cfg) (map fst (queue_of key s)))"
    if "sorted (map fst (queue_of key s))" using that by (metis length_map)
  show "length (filter (\<lambda>x. now - x \<le> window_seconds cfg) (map fst (queue_of key s))) < attempts cfg
      \<and> map fst (queue_of key t) = filter (\<lambda>x. now - x \<le> window_seconds cfg) (map fst (queue_of key s)) @ [now]"
    if "check_fallback_call cfg key m now s = (t, True)" "sorted (map fst (queue_of key s))"
    using that(1) q [OF that(2)] len [OF that(2)]
    by (auto simp: check_fallback_call_eq [OF assms] Let_def queue_of_def split: if_splits)
  show "map fst (queue_of key t) = filter (\<lambda>x. now - x \<le> window_seconds cfg) (map fst (queue_of key s))"
    if "check_fallback_call cfg key m now s = (t, False)" "sorted (map fst (queue_of key s))"
    using that(1) q [OF that(2)]
    by (auto simp: check_fallback_call_eq [OF assms] Let_def queue_of_def split: if_splits)
qed auto

text \<open>C30. The attempt budget holds in every window: however a burst of calls for one key is spaced, at
  most \<open>attempts\<close> of them are let through within any window of \<open>window_seconds\<close>, both with Redis and on
  the in-process fallback; and a limiter that fails closed lets nothing through while Redis is down.\<close>

theorem rate_limit_bounded:
  assumes "sorted (map snd cs)" and "distinct (map fst cs)" and "zset_of key s = []" and "queue_of key s = []"
  shows "length (filter (\<lambda>x. y - window_seconds cfg < x \<and> x \<le> y) (serve (check_redis_call cfg key) cs s)) \<le> attempts cfg
    \<and> length (filter (\<lambda>x. y - window_seconds cfg < x \<and> x \<le> y) (serve (check_fallback_call cfg key) cs s)) \<le> attempts cfg
    \<and> (fail_closed cfg \<longrightarrow> serve (check_fallback_call cfg key) cs s = [])"
proof -
  have closed': "serve (check_fallback_call cfg key) cs s = []" if "fail_closed cfg"
    using that by (induction cs) (auto simp: check_fallback_call_def check_def)
  have fewer: "length (filter P xs) \<le> n" if "length (filter Q xs) \<le> n" "\<And>x. P x \<Longrightarrow> Q x" for P Q n and xs :: "int list"
  proof -
    have "filter P xs = filter P (filter Q xs)" using that(2) by (auto simp: filter_filter intro: filter_cong)
    then have "length (filter P xs) \<le> length (filter Q xs)" by (metis length_filter_le)
    with that(1) show ?thesis by simp
  qed
  have "length (filter (\<lambda>x. y - window_seconds cfg < x \<and> x \<le> y) (serve (check_redis_call cfg key) cs s)) \<le> attempts cfg"
    by (rule fewer [OF redis_window.burst_bounded [OF assms(1,2)]]) (use assms(3) in auto)
  moreover have "length (filter (\<lambda>x. y - window_seconds cfg < x \<and> x \<le> y) (serve (check_fallback_call cfg key) cs s)) \<le> attempts cfg"
  proof (cases "fail_closed cfg")
    case False
    show ?thesis
      by (rule fewer [OF sliding_window.burst_bounded [OF fallback_window [OF False] assms(1,2)]]) (use assms(4) in auto)
  qed (simp add: closed')
  ultimately show ?thesis using closed' by blast
qed

definition demo_limiter :: limiter_config where
  "demo_limiter = \<lparr>fail_closed = False, attempts = 2, window_seconds = 60\<rparr>"

definition demo_burst :: "(string \<times> int) list" where
  "demo_burst = [(''a'', 1), (''b'', 2), (''c'', 3), (''d'', 70)]"

theorem rate_limit_bounded_witness:
  "length (filter (\<lambda>x. 3 - window_seconds demo_limiter < x \<and> x \<le> 3)
     (serve (check_redis_call demo_limiter ''k'') demo_burst \<lparr>zsets = [], fallback_attempts = []\<rparr>)) \<le> 2
   \<and> serve (check_redis_call demo_limiter ''k'') demo_burst \<lparr>zsets = [], fallback_attempts = []\<rparr> = [1, 2, 70]"
proof -
  have "sorted (map snd demo_burst)" "distinct (map fst demo_burst)" by code_simp+
  from rate_limit_bounded [OF this, of "''k''" "\<lparr>zsets = [], fallback_attempts = []\<rparr>" 3 demo_limiter]
  have "length (filter (\<lambda>x. 3 - window_seconds demo_limiter < x \<and> x \<le> 3)
     (serve (check_redis_call demo_limiter ''k'') demo_burst \<lparr>zsets = [], fallback_attempts = []\<rparr>)) \<le> 2"
    by (simp add: zset_of_def queue_of_def dget_def demo_limiter_def)
  moreover have "serve (check_redis_call demo_limiter ''k'') demo_burst \<lparr>zsets = [], fallback_attempts = []\<rparr> = [1, 2, 70]"
    by code_simp
  ultimately show ?thesis by blast
qed

end
