(* ===== verification/Secret_Fields.thy ===== *)
theory Secret_Fields
  imports Json
begin

text \<open>
  \<open>services/workflow_context/secret_fields.py\<close> and \<open>core/crypto.py\<close>: sealing, unwrapping and
  redacting the secrets that travel in attribute bags and run inputs. Data are JSON documents; the
  in-place redaction of the private copy is a function on documents. The registry of cleartext
  secrets of a run segment is a list; its order does not matter (the spans of all secrets are merged).

  Fernet and PBKDF2 are arguments (\<open>fernet_lib\<close>).
\<close>

section \<open>Encryption at rest\<close>

definition KDF_ITERATIONS_FLOOR :: nat where
  "KDF_ITERATIONS_FLOOR = 600000"

definition KDF_ITERATIONS_CEILING :: nat where
  "KDF_ITERATIONS_CEILING = 5000000"

definition PREFIX :: string where
  "PREFIX = ''AMS2''"

record fernet_lib =
  build_key :: "string \<Rightarrow> nat \<Rightarrow> string"
  fernet_encrypt :: "string \<Rightarrow> string \<Rightarrow> string"
  fernet_decrypt :: "string \<Rightarrow> string \<Rightarrow> string option"

record encryption_service =
  enc_lib :: fernet_lib
  enc_secret :: string
  enc_iterations :: nat

definition decrypt_error :: py_exn where
  "decrypt_error = ValueError ''Failed to decrypt stored credential (values stored by an older version must be entered again)''"

definition encrypt :: "encryption_service \<Rightarrow> string \<Rightarrow> string" where
  "encrypt svc plaintext =
     PREFIX @ ''.'' @ nat_str (enc_iterations svc) @ ''.'' @
     fernet_encrypt (enc_lib svc) (build_key (enc_lib svc) (enc_secret svc) (enc_iterations svc)) plaintext"

definition decrypt :: "encryption_service \<Rightarrow> string \<Rightarrow> string res" where
  "decrypt svc token =
     (case split_once (CHR ''.'') token of
        None \<Rightarrow> Inl decrypt_error
      | Some (prefix, rest) \<Rightarrow>
     (case split_once (CHR ''.'') rest of
        None \<Rightarrow> Inl decrypt_error
      | Some (iterations_text, body) \<Rightarrow>
          if iterations_text \<noteq> [] \<and> list_all is_digit iterations_text then
            (case py_nat iterations_text of
               None \<Rightarrow> Inl decrypt_error
             | Some iterations \<Rightarrow>
                 if prefix \<noteq> PREFIX \<or> \<not> (KDF_ITERATIONS_FLOOR \<le> iterations \<and> iterations \<le> KDF_ITERATIONS_CEILING)
                 then Inl decrypt_error
                 else (case fernet_decrypt (enc_lib svc) (build_key (enc_lib svc) (enc_secret svc) iterations) body of
                         None \<Rightarrow> Inl decrypt_error
                       | Some text \<Rightarrow> Inr text))
          else Inl decrypt_error))"

section \<open>Sealed envelopes\<close>

definition SEALED_MARKER :: string where
  "SEALED_MARKER = ''__am_sealed__''"

definition REDACTED_PLACEHOLDER :: string where
  "REDACTED_PLACEHOLDER = ''***REDACTED***''"

definition MIN_TRACKED_SECRET_LENGTH :: nat where
  "MIN_TRACKED_SECRET_LENGTH = 8"

definition register_secret_value :: "string list option \<Rightarrow> string option \<Rightarrow> string list option" where
  "register_secret_value registry value =
     (case (registry, value) of
        (Some known, Some v) \<Rightarrow> Some (if v \<noteq> [] \<and> MIN_TRACKED_SECRET_LENGTH \<le> length v then List.insert v known else known)
      | _ \<Rightarrow> registry)"

definition seal_secret :: "encryption_service \<Rightarrow> string \<Rightarrow> json" where
  "seal_secret svc plaintext = JObj [(SEALED_MARKER, JBool True), (''v'', JInt 2), (''ct'', JStr (encrypt svc plaintext))]"

definition is_sealed_secret :: "json \<Rightarrow> bool" where
  "is_sealed_secret value =
     (case value of JObj d \<Rightarrow> map_of d SEALED_MARKER = Some (JBool True) \<and> map_of d ''ct'' \<noteq> None | _ \<Rightarrow> False)"

text \<open>\<open>str(value["ct"])\<close>: a string by construction; the text of another value is \<open>to_text\<close>.\<close>

definition envelope_token :: "(json \<Rightarrow> string) \<Rightarrow> jdict \<Rightarrow> string" where
  "envelope_token to_text d = (case map_of d ''ct'' of Some (JStr t) \<Rightarrow> t | Some v \<Rightarrow> to_text v | None \<Rightarrow> '''')"

definition unwrap_secret :: "(json \<Rightarrow> string) \<Rightarrow> encryption_service \<Rightarrow> string list option \<Rightarrow> json \<Rightarrow>
    (string list option \<times> string option) res" where
  "unwrap_secret to_text svc registry value =
     (case value of
        JNull \<Rightarrow> Inr (registry, None)
      | JObj d \<Rightarrow>
          if is_sealed_secret value then
            (if \<not> py_eq (dget d ''v'' JNull) (JInt 2)
             then Inl (ValueError ''Sealed secret was made by an older version and must be entered again'')
             else res_bind (decrypt svc (envelope_token to_text d)) (\<lambda>cleartext.
                    Inr (register_secret_value registry (Some cleartext), Some cleartext)))
          else Inr (registry, None)
      | JStr s \<Rightarrow>
          (let stripped = py_strip s in
           Inr (register_secret_value registry (Some stripped), if stripped = [] then None else Some stripped))
      | _ \<Rightarrow> Inr (registry, None))"

definition secret_is_present :: "json \<Rightarrow> bool" where
  "secret_is_present value \<longleftrightarrow> is_sealed_secret value \<or> (case value of JStr s \<Rightarrow> py_strip s \<noteq> [] | _ \<Rightarrow> False)"

fun contains_sealed_secret :: "json \<Rightarrow> bool"
  and contains_sealed_list :: "json list \<Rightarrow> bool"
  and contains_sealed_fields :: "(string \<times> json) list \<Rightarrow> bool" where
  "contains_sealed_secret (JObj d) = (is_sealed_secret (JObj d) \<or> contains_sealed_fields d)"
| "contains_sealed_secret (JList xs) = contains_sealed_list xs"
| "contains_sealed_secret _ = False"
| "contains_sealed_list [] = False"
| "contains_sealed_list (x # xs) = (contains_sealed_secret x \<or> contains_sealed_list xs)"
| "contains_sealed_fields [] = False"
| "contains_sealed_fields ((k, v) # d) = (contains_sealed_secret v \<or> contains_sealed_fields d)"

fun unwrap_all_secrets :: "(json \<Rightarrow> string) \<Rightarrow> encryption_service \<Rightarrow> string list option \<Rightarrow> json \<Rightarrow>
    (string list option \<times> json) res"
  and unwrap_all_list :: "(json \<Rightarrow> string) \<Rightarrow> encryption_service \<Rightarrow> string list option \<Rightarrow> json list \<Rightarrow>
    (string list option \<times> json list) res"
  and unwrap_all_fields :: "(json \<Rightarrow> string) \<Rightarrow> encryption_service \<Rightarrow> string list option \<Rightarrow> (string \<times> json) list \<Rightarrow>
    (string list option \<times> (string \<times> json) list) res" where
  "unwrap_all_secrets tt svc r (JObj d) =
     (if is_sealed_secret (JObj d)
      then res_bind (unwrap_secret tt svc r (JObj d)) (\<lambda>(r', c). Inr (r', case c of None \<Rightarrow> JNull | Some t \<Rightarrow> JStr t))
      else res_bind (unwrap_all_fields tt svc r d) (\<lambda>(r', d'). Inr (r', JObj d')))"
| "unwrap_all_secrets tt svc r (JList xs) = res_bind (unwrap_all_list tt svc r xs) (\<lambda>(r', ys). Inr (r', JList ys))"
| "unwrap_all_secrets tt svc r v = Inr (r, v)"
| "unwrap_all_list tt svc r [] = Inr (r, [])"
| "unwrap_all_list tt svc r (x # xs) =
     res_bind (unwrap_all_secrets tt svc r x) (\<lambda>(r1, y).
     res_bind (unwrap_all_list tt svc r1 xs) (\<lambda>(r2, ys). Inr (r2, y # ys)))"
| "unwrap_all_fields tt svc r [] = Inr (r, [])"
| "unwrap_all_fields tt svc r ((k, v) # d) =
     res_bind (unwrap_all_secrets tt svc r v) (\<lambda>(r1, w).
     res_bind (unwrap_all_fields tt svc r1 d) (\<lambda>(r2, e). Inr (r2, (k, w) # e)))"

section \<open>Scrubbing cleartext\<close>

text \<open>\<open>text.find(secret, start)\<close>\<close>

definition occurs_at :: "string \<Rightarrow> string \<Rightarrow> nat \<Rightarrow> bool" where
  "occurs_at text secret i \<longleftrightarrow> i + length secret \<le> length text \<and> take (length secret) (drop i text) = secret"

definition find_from :: "string \<Rightarrow> string \<Rightarrow> nat \<Rightarrow> nat option" where
  "find_from text secret start = List.find (occurs_at text secret) [start..<Suc (length text)]"

lemma find_from_Some: "find_from text secret start = Some i \<Longrightarrow> start \<le> i \<and> i \<le> length text \<and> occurs_at text secret i"
  unfolding find_from_def by (drule find_SomeD) auto

function secret_spans :: "string \<Rightarrow> string \<Rightarrow> nat \<Rightarrow> (nat \<times> nat) list" where
  "secret_spans text secret start =
     (case find_from text secret start of
        None \<Rightarrow> []
      | Some i \<Rightarrow> (i, i + length secret) # secret_spans text secret (Suc i))"
  by pat_completeness auto
termination
  by (relation "measure (\<lambda>(text, _, start). Suc (length text) - start)") (auto dest!: find_from_Some)

declare secret_spans.simps [simp del]

fun merge_spans :: "nat \<times> nat \<Rightarrow> (nat \<times> nat) list \<Rightarrow> (nat \<times> nat) list" where
  "merge_spans sp [] = [sp]"
| "merge_spans (last_begin, last_end) ((b, e) # rest) =
     (if b \<le> last_end then merge_spans (last_begin, max last_end e) rest
      else (last_begin, last_end) # merge_spans (b, e) rest)"

fun splice :: "string \<Rightarrow> nat \<Rightarrow> (nat \<times> nat) list \<Rightarrow> string" where
  "splice text cursor [] = drop cursor text"
| "splice text cursor ((b, e) # rest) = drop cursor (take b text) @ REDACTED_PLACEHOLDER @ splice text e rest"

definition scrub_string :: "string \<Rightarrow> string list \<Rightarrow> string" where
  "scrub_string text secrets =
     (case sort_key fst (sort_key snd (concat (map (\<lambda>s. secret_spans text s 0) secrets))) of
        [] \<Rightarrow> text
      | sp # rest \<Rightarrow> splice text 0 (merge_spans sp rest))"

fun scrub_known_values :: "json \<Rightarrow> string list \<Rightarrow> json"
  and scrub_list :: "json list \<Rightarrow> string list \<Rightarrow> json list"
  and scrub_fields :: "(string \<times> json) list \<Rightarrow> string list \<Rightarrow> (string \<times> json) list" where
  "scrub_known_values (JStr s) secrets = JStr (scrub_string s secrets)"
| "scrub_known_values (JObj d) secrets = JObj (scrub_fields d secrets)"
| "scrub_known_values (JList xs) secrets = JList (scrub_list xs secrets)"
| "scrub_known_values v secrets = v"
| "scrub_list [] secrets = []"
| "scrub_list (x # xs) secrets = scrub_known_values x secrets # scrub_list xs secrets"
| "scrub_fields [] secrets = []"
| "scrub_fields ((k, v) # d) secrets = (k, scrub_known_values v secrets) # scrub_fields d secrets"

text \<open>\<open>sorted(known, key=len, reverse=True)\<close>\<close>

definition longest_first :: "string list \<Rightarrow> string list" where
  "longest_first known = sort_key (\<lambda>s. - int (length s)) known"

definition scrub_known_secrets :: "string list option \<Rightarrow> json \<Rightarrow> json" where
  "scrub_known_secrets registry data =
     (case registry of
        Some (x # xs) \<Rightarrow> scrub_known_values data (longest_first (x # xs))
      | _ \<Rightarrow> data)"

section \<open>Redaction\<close>

definition SECRET_BAG_PATHS :: "string list list" where
  "SECRET_BAG_PATHS = [[''tacacs'', ''shared_secret''], [''ise'', ''tacacsSettings'', ''sharedSecret''],
     [''pyats_testbed'', ''password'']]"

definition SECRET_BAG_SUBTREES :: "string list list" where
  "SECRET_BAG_SUBTREES = [[''nautobot'', ''config_context''], [''nautobot'', ''local_config_context_data'']]"

definition SECRET_KEY_NAMES :: "string set" where
  "SECRET_KEY_NAMES = {''password'', ''secret'', ''token'', ''community'', ''shared_secret'', ''sharedsecret'',
     ''passphrase'', ''api_key'', ''apikey'', ''enable_secret'', ''snmp_community'', ''secret_key'',
     ''private_key'', ''auth_key'', ''shared_key'', ''tacacs_key'', ''db_pw''}"

definition SECRET_KEY_SUFFIXES :: "string list" where
  "SECRET_KEY_SUFFIXES = [''_password'', ''_secret'', ''_token'', ''_passphrase'', ''_key'', ''_pw'', ''_pass'',
     ''_passwd'', ''_psk'', ''_community'']"

definition key_is_secret_name :: "string \<Rightarrow> bool" where
  "key_is_secret_name key =
     (let lowered = py_lower (replace_char (CHR ''-'') (CHR ''_'') key) in
      lowered \<in> SECRET_KEY_NAMES \<or> list_ex (endswith lowered) SECRET_KEY_SUFFIXES)"

fun redact_leaves :: "json \<Rightarrow> json"
  and redact_leaves_list :: "json list \<Rightarrow> json list"
  and redact_leaves_fields :: "(string \<times> json) list \<Rightarrow> (string \<times> json) list" where
  "redact_leaves (JObj d) = JObj (redact_leaves_fields d)"
| "redact_leaves (JList xs) = JList (redact_leaves_list xs)"
| "redact_leaves JNull = JNull"
| "redact_leaves v = JStr REDACTED_PLACEHOLDER"
| "redact_leaves_list [] = []"
| "redact_leaves_list (x # xs) = redact_leaves x # redact_leaves_list xs"
| "redact_leaves_fields [] = []"
| "redact_leaves_fields ((k, v) # d) = (k, redact_leaves v) # redact_leaves_fields d"

text \<open>The cursor loops: the value at the end of a path of dictionaries is replaced by \<open>f\<close> of it.\<close>

fun modify_path :: "string list \<Rightarrow> (json \<Rightarrow> json) \<Rightarrow> jdict \<Rightarrow> jdict" where
  "modify_path [] f d = d"
| "modify_path [k] f d = dmodify k f d"
| "modify_path (k # p) f d = dmodify k (\<lambda>v. case v of JObj d' \<Rightarrow> JObj (modify_path p f d') | _ \<Rightarrow> v) d"

definition redact_bag_subtrees :: "jdict \<Rightarrow> jdict" where
  "redact_bag_subtrees bags = foldl (\<lambda>d path. modify_path path redact_leaves d) bags SECRET_BAG_SUBTREES"

definition redact_bag_leaf :: "json \<Rightarrow> json" where
  "redact_bag_leaf leaf = (if secret_is_present leaf then JStr REDACTED_PLACEHOLDER else leaf)"

definition redact_bag_paths :: "jdict \<Rightarrow> jdict" where
  "redact_bag_paths bags =
     foldl (\<lambda>d path. modify_path path redact_bag_leaf d) (redact_bag_subtrees bags) SECRET_BAG_PATHS"

definition redact_bags :: "string \<Rightarrow> json \<Rightarrow> json" where
  "redact_bags key value =
     (case value of JObj bags \<Rightarrow> if key = ''attribute_bags'' then JObj (redact_bag_paths bags) else value | _ \<Rightarrow> value)"

text \<open>The number of values in a document: redaction never adds any.\<close>

fun json_size :: "json \<Rightarrow> nat"
  and json_size_list :: "json list \<Rightarrow> nat"
  and json_size_fields :: "(string \<times> json) list \<Rightarrow> nat" where
  "json_size (JObj d) = Suc (json_size_fields d)"
| "json_size (JList xs) = Suc (json_size_list xs)"
| "json_size _ = 1"
| "json_size_list [] = 0"
| "json_size_list (x # xs) = Suc (json_size x + json_size_list xs)"
| "json_size_fields [] = 0"
| "json_size_fields ((k, v) # d) = Suc (json_size v + json_size_fields d)"

lemma json_size_pos: "0 < json_size v"
  by (cases v) simp_all

lemma redact_leaves_size [simp]:
  "json_size (redact_leaves v) = json_size v"
  "json_size_list (redact_leaves_list xs) = json_size_list xs"
  "json_size_fields (redact_leaves_fields d) = json_size_fields d"
  by (induction v and xs and d rule: redact_leaves_redact_leaves_list_redact_leaves_fields.induct) simp_all

lemma dmodify_size:
  assumes "\<And>v. json_size (f v) \<le> json_size v"
  shows "json_size_fields (dmodify k f d) \<le> json_size_fields d"
proof (induction d)
  case (Cons kv d)
  then show ?case using assms [of "snd kv"] by (cases kv) (auto simp: dmodify_def)
qed (simp add: dmodify_def)

lemma modify_path_size:
  assumes "\<And>v. json_size (f v) \<le> json_size v"
  shows "json_size_fields (modify_path p f d) \<le> json_size_fields d"
  using assms by (induction p f d rule: modify_path.induct) (auto intro!: dmodify_size split: json.split)

lemma redact_bag_leaf_size: "json_size (redact_bag_leaf v) \<le> json_size v"
  using json_size_pos [of v] by (auto simp: redact_bag_leaf_def)

lemma redact_bag_paths_size: "json_size_fields (redact_bag_paths d) \<le> json_size_fields d"
proof -
  have "json_size_fields (foldl (\<lambda>d path. modify_path path f d) d ps) \<le> json_size_fields d"
    if "\<And>v. json_size (f v) \<le> json_size v" for f d ps
    using that
  proof (induction ps arbitrary: d)
    case (Cons p ps)
    then show ?case using modify_path_size [of f p d] order_trans by fastforce
  qed simp
  from this [of redact_bag_leaf] this [of redact_leaves] show ?thesis
    unfolding redact_bag_paths_def redact_bag_subtrees_def using redact_bag_leaf_size order_trans by fastforce
qed

lemma redact_bags_size: "json_size (redact_bags k v) \<le> json_size v"
  by (auto simp: redact_bags_def redact_bag_paths_size split: json.split)

function redact_inplace :: "json \<Rightarrow> json"
  and redact_items :: "json list \<Rightarrow> json list"
  and redact_fields :: "(string \<times> json) list \<Rightarrow> (string \<times> json) list" where
  "redact_inplace (JObj d) = JObj (redact_fields d)"
| "redact_inplace (JList xs) = JList (redact_items xs)"
| "redact_inplace JNull = JNull"
| "redact_inplace (JBool b) = JBool b"
| "redact_inplace (JInt i) = JInt i"
| "redact_inplace (JFloat q) = JFloat q"
| "redact_inplace (JStr s) = JStr s"
| "redact_items [] = []"
| "redact_items (x # xs) = redact_inplace x # redact_items xs"
| "redact_fields [] = []"
| "redact_fields ((k, v) # d) =
     (let v' = redact_bags k v in
      (k, if is_sealed_secret v' then JStr REDACTED_PLACEHOLDER
          else case v' of
                 JStr s \<Rightarrow> if key_is_secret_name k then JStr REDACTED_PLACEHOLDER else JStr s
               | _ \<Rightarrow> redact_inplace v') # redact_fields d)"
  by pat_completeness auto
termination
  by (relation "measure (\<lambda>x. case x of Inl v \<Rightarrow> json_size v | Inr (Inl xs) \<Rightarrow> json_size_list xs
        | Inr (Inr d) \<Rightarrow> json_size_fields d)")
    (auto simp: json_size_pos le_imp_less_Suc redact_bags_size trans_le_add1)

definition redact_secrets_in_data :: "string list option \<Rightarrow> json \<Rightarrow> json" where
  "redact_secrets_in_data registry data = scrub_known_secrets registry (redact_inplace data)"

section \<open>Scrubbing against a reference\<close>

text \<open>The reference looks at one position at a time: a position is hidden when some occurrence of some
  secret covers it; a maximal run of hidden positions becomes one placeholder.\<close>

definition hidden :: "string \<Rightarrow> string list \<Rightarrow> nat \<Rightarrow> bool" where
  "hidden text secrets i =
     list_ex (\<lambda>s. list_ex (\<lambda>b. i < b + length s \<and> occurs_at text s b) [0..<Suc i]) secrets"

fun mask_text :: "bool \<Rightarrow> (char \<times> bool) list \<Rightarrow> string" where
  "mask_text inside [] = []"
| "mask_text inside ((c, h) # xs) =
     (if h then (if inside then [] else REDACTED_PLACEHOLDER) @ mask_text True xs else c # mask_text False xs)"

definition reference_scrub :: "string \<Rightarrow> string list \<Rightarrow> string" where
  "reference_scrub text secrets = mask_text False (map (\<lambda>i. (text ! i, hidden text secrets i)) [0..<length text])"

definition in_spans :: "(nat \<times> nat) list \<Rightarrow> nat \<Rightarrow> bool" where
  "in_spans ms i \<longleftrightarrow> (\<exists>(b, e) \<in> set ms. b \<le> i \<and> i < e)"

lemma in_spans_simps [simp]:
  "\<not> in_spans [] i" "in_spans ((b, e) # ms) i \<longleftrightarrow> b \<le> i \<and> i < e \<or> in_spans ms i"
  by (auto simp: in_spans_def)

text \<open>Spans in order, inside the text and with a gap after each.\<close>

fun gapped :: "nat \<Rightarrow> nat \<Rightarrow> (nat \<times> nat) list \<Rightarrow> bool" where
  "gapped n c [] = True"
| "gapped n c ((b, e) # ms) = (c \<le> b \<and> b < e \<and> e \<le> n \<and> gapped n (Suc e) ms)"

lemma gapped_weaken: "gapped n c ms \<Longrightarrow> c' \<le> c \<Longrightarrow> gapped n c' ms"
  by (cases ms) auto

lemma gapped_below: "gapped n c ms \<Longrightarrow> i < c \<Longrightarrow> \<not> in_spans ms i"
  by (induction n c ms rule: gapped.induct) auto

lemma mask_shown: "list_all (\<lambda>x. \<not> snd x) xs \<Longrightarrow> mask_text False (xs @ ys) = map fst xs @ mask_text False ys"
  by (induction xs) auto

lemma mask_hidden: "list_all snd xs \<Longrightarrow> mask_text True (xs @ ys) = mask_text True ys"
  by (induction xs) auto

lemma mask_run: "list_all snd xs \<Longrightarrow> xs \<noteq> [] \<Longrightarrow> mask_text False (xs @ ys) = REDACTED_PLACEHOLDER @ mask_text True ys"
  by (cases xs) (auto simp: mask_hidden)

lemma splice_mask:
  assumes "gapped (length text) c ms" and "c \<le> length text"
  shows "splice text c ms = mask_text False (map (\<lambda>i. (text ! i, in_spans ms i)) [c..<length text])"
  using assms
proof (induction "text" c ms rule: splice.induct)
  case (1 "text" c)
  have "mask_text False (map (\<lambda>i. (text ! i, False)) [c..<length text] @ []) = map (\<lambda>i. text ! i) [c..<length text]"
    by (subst mask_shown) (auto simp: list_all_iff o_def)
  moreover have "drop c text = map (\<lambda>i. text ! i) [c..<length text]" by (rule nth_equalityI) auto
  ultimately show ?case by simp
next
  case (2 "text" c b e ms)
  let ?n = "length text" and ?f = "\<lambda>i. (text ! i, in_spans ((b, e) # ms) i)"
  have be: "c \<le> b" "b < e" "e \<le> ?n" "gapped ?n (Suc e) ms" using 2(2) by simp_all
  have split: "[c..<?n] = [c..<b] @ [b..<e] @ [e..<?n]"
    using be upt_add_eq_append [of c b "?n - b"] upt_add_eq_append [of b e "?n - e"] by simp
  have before: "\<not> in_spans ((b, e) # ms) i" if "i < b" for i
    using that be gapped_below [OF be(4), of i] by simp
  have rest: "map ?f [e..<?n] = map (\<lambda>i. (text ! i, in_spans ms i)) [e..<?n]" by auto
  have "mask_text True (map (\<lambda>i. (text ! i, in_spans ms i)) [e..<?n]) = mask_text False (map (\<lambda>i. (text ! i, in_spans ms i)) [e..<?n])"
    using gapped_below [OF be(4), of e] by (cases "e < ?n") (simp_all add: upt_conv_Cons)
  moreover have "\<dots> = splice text e ms" using 2(1) [OF gapped_weaken [OF be(4)]] be by simp
  moreover have "mask_text False (map ?f [c..<?n]) = map (\<lambda>i. text ! i) [c..<b] @ mask_text False (map ?f [b..<e] @ map ?f [e..<?n])"
    unfolding split map_append by (subst mask_shown) (auto simp: before list_all_iff o_def simp del: in_spans_simps)
  moreover have "mask_text False (map ?f [b..<e] @ map ?f [e..<?n]) = REDACTED_PLACEHOLDER @ mask_text True (map ?f [e..<?n])"
    by (rule mask_run) (use be in \<open>auto simp: list_all_iff\<close>)
  moreover have "drop c (take b text) = map (\<lambda>i. text ! i) [c..<b]"
    using be by (intro nth_equalityI) auto
  ultimately show ?case unfolding rest by simp
qed

lemma merge_spans_gapped:
  assumes "lb < le" "le \<le> n" "sorted (map fst ((lb, le) # xs))" "\<forall>(b, e) \<in> set xs. b < e \<and> e \<le> n"
  shows "gapped n lb (merge_spans (lb, le) xs)"
  using assms
proof (induction xs arbitrary: lb le)
  case (Cons x xs)
  obtain b e where x: "x = (b, e)" by (cases x)
  show ?case
  proof (cases "b \<le> le")
    case True
    then show ?thesis using Cons.IH [of lb "max le e"] Cons.prems by (auto simp: x)
  next
    case False
    have "gapped n b (merge_spans (b, e) xs)" by (rule Cons.IH) (use Cons.prems in \<open>auto simp: x\<close>)
    then have "gapped n (Suc le) (merge_spans (b, e) xs)" using False by (auto elim: gapped_weaken)
    with False Cons.prems show ?thesis by (simp add: x)
  qed
qed simp

lemma merge_spans_in:
  assumes "sorted (map fst ((lb, le) # xs))"
  shows "in_spans (merge_spans (lb, le) xs) i \<longleftrightarrow> in_spans ((lb, le) # xs) i"
  using assms
proof (induction xs arbitrary: lb le)
  case (Cons x xs)
  obtain b e where x: "x = (b, e)" by (cases x)
  have "sorted (map fst ((lb, max le e) # xs))" "sorted (map fst ((b, e) # xs))" using Cons.prems by (auto simp: x)
  from this [THEN Cons.IH] show ?case using Cons.prems by (auto simp: x max_def)
qed simp

lemma find_from_None: "find_from text s start = None \<longleftrightarrow> (\<forall>i \<ge> start. \<not> occurs_at text s i)"
  by (auto simp: find_from_def find_None_iff occurs_at_def)

lemma find_from_least:
  assumes "find_from text s start = Some i" and "start \<le> j" and "j < i"
  shows "\<not> occurs_at text s j"
proof -
  obtain k where k: "k < length [start..<Suc (length text)]" "[start..<Suc (length text)] ! k = i"
    "\<forall>m < k. \<not> occurs_at text s ([start..<Suc (length text)] ! m)"
    using assms(1) unfolding find_from_def find_Some_iff by metis
  then have "i = start + k" by (simp del: upt_Suc)
  with k assms(2,3) have "j - start < k" "[start..<Suc (length text)] ! (j - start) = j" by (simp_all del: upt_Suc)
  then show ?thesis using k(3) by metis
qed

lemma set_secret_spans: "set (secret_spans text s start) = {(i, i + length s) | i. start \<le> i \<and> occurs_at text s i}"
proof (induction "text" s start rule: secret_spans.induct)
  case (1 "text" s start)
  show ?case
  proof (cases "find_from text s start")
    case None
    moreover from None have "\<forall>i \<ge> start. \<not> occurs_at text s i" by (simp only: find_from_None)
    ultimately show ?thesis by (subst secret_spans.simps) auto
  next
    case (Some i)
    have "start \<le> j \<and> occurs_at text s j \<longleftrightarrow> j = i \<or> Suc i \<le> j \<and> occurs_at text s j" for j
      using find_from_Some [OF Some] find_from_least [OF Some, of j] by (metis Suc_leD Suc_leI le_trans nat_neq_iff)
    then show ?thesis using 1 [OF Some] by (subst secret_spans.simps) (auto simp: Some)
  qed
qed

lemma hidden_iff: "hidden text secrets i \<longleftrightarrow> (\<exists>s \<in> set secrets. \<exists>b. b \<le> i \<and> i < b + length s \<and> occurs_at text s b)"
  by (simp add: hidden_def list_ex_iff less_Suc_eq_le Bex_def conj_ac del: upt_Suc)

lemma sorted_stable: "sorted (map fst (sort_key fst xs))"
  by simp

text \<open>
  C35: Scrubbing text of known secrets: the find-and-merge loop of \<open>_scrub_string\<close> equals the
  position-by-position reference, whatever the order of the secrets and however their occurrences
  overlap. So no character covered by an occurrence of a secret survives, every other character
  does, in order, and each maximal covered run is one placeholder.
\<close>

theorem scrub_string_reference:
  assumes "[] \<notin> set secrets"
  shows "scrub_string text secrets = reference_scrub text secrets"
proof -
  define sp where "sp = sort_key fst (sort_key snd (concat (map (\<lambda>s. secret_spans text s 0) secrets)))"
  have set: "set sp = {(b, b + length s) | b s. s \<in> set secrets \<and> occurs_at text s b}"
    by (auto simp: sp_def set_secret_spans)
  have ok: "b < e \<and> e \<le> length text" if "(b, e) \<in> set sp" for b e
    using that assms by (cases "length text") (auto simp: set occurs_at_def)
  have hid: "hidden text secrets i \<longleftrightarrow> in_spans sp i" for i
    by (fastforce simp: hidden_iff in_spans_def set)
  have all: "mask_text False (map (\<lambda>i. (text ! i, False)) [0..<length text] @ []) = text"
    by (subst mask_shown) (auto simp: list_all_iff o_def map_nth)
  show ?thesis
  proof (cases sp)
    case Nil
    then show ?thesis using all by (simp add: scrub_string_def sp_def [symmetric] reference_scrub_def hid)
  next
    case (Cons x xs)
    obtain b e where x: "x = (b, e)" by (cases x)
    have sorted: "sorted (map fst ((b, e) # xs))" using sorted_stable Cons unfolding sp_def x by metis
    have "gapped (length text) 0 (merge_spans (b, e) xs)"
      by (rule gapped_weaken [OF merge_spans_gapped]) (use sorted ok in \<open>auto simp: Cons x\<close>)
    then have "scrub_string text secrets = mask_text False (map (\<lambda>i. (text ! i, in_spans (merge_spans (b, e) xs) i)) [0..<length text])"
      by (simp add: scrub_string_def sp_def [symmetric] Cons x splice_mask)
    then show ?thesis by (simp only: merge_spans_in [OF sorted] reference_scrub_def hid Cons x)
  qed
qed

theorem scrub_string_reference_witness:
  "scrub_string ''xabcdefghijky'' [''abcdefgh'', ''defghijk''] = ''x***REDACTED***y''"
proof -
  have "scrub_string ''xabcdefghijky'' [''abcdefgh'', ''defghijk''] = reference_scrub ''xabcdefghijky'' [''abcdefgh'', ''defghijk'']"
    by (rule scrub_string_reference) simp
  also have "\<dots> = ''x***REDACTED***y''" by code_simp
  finally show ?thesis .
qed

end
