(* ===== verification/Secret_Redaction.thy ===== *)
theory Secret_Redaction
  imports Secret_Fields "HOL-Library.Sublist"
begin

text \<open>
  What \<open>redact_secrets_in_data\<close> guarantees about the copy it returns, and where it does not: an
  envelope that is an element of a list, or the whole document, is not replaced. Also the round trip of
  sealing and unwrapping.
\<close>

section \<open>Looking into a document\<close>

text \<open>All dictionary entries, at any depth; all scalar values; the value at the end of a path.\<close>

fun entries :: "json \<Rightarrow> (string \<times> json) list"
  and entries_list :: "json list \<Rightarrow> (string \<times> json) list"
  and entries_fields :: "(string \<times> json) list \<Rightarrow> (string \<times> json) list" where
  "entries (JObj d) = entries_fields d"
| "entries (JList xs) = entries_list xs"
| "entries _ = []"
| "entries_list [] = []"
| "entries_list (x # xs) = entries x @ entries_list xs"
| "entries_fields [] = []"
| "entries_fields ((k, v) # d) = (k, v) # entries v @ entries_fields d"

fun leaves :: "json \<Rightarrow> json set"
  and leaves_list :: "json list \<Rightarrow> json set"
  and leaves_fields :: "(string \<times> json) list \<Rightarrow> json set" where
  "leaves (JObj d) = leaves_fields d"
| "leaves (JList xs) = leaves_list xs"
| "leaves v = {v}"
| "leaves_list [] = {}"
| "leaves_list (x # xs) = leaves x \<union> leaves_list xs"
| "leaves_fields [] = {}"
| "leaves_fields ((k, v) # d) = leaves v \<union> leaves_fields d"

fun path_get :: "string list \<Rightarrow> jdict \<Rightarrow> json option" where
  "path_get [] d = None"
| "path_get [k] d = map_of d k"
| "path_get (k # p) d = (case map_of d k of Some (JObj d') \<Rightarrow> path_get p d' | _ \<Rightarrow> None)"

section \<open>One dictionary value\<close>

definition redact_value :: "string \<Rightarrow> json \<Rightarrow> json" where
  "redact_value k v =
     (let v' = redact_bags k v in
      if is_sealed_secret v' then JStr REDACTED_PLACEHOLDER
      else case v' of
             JStr s \<Rightarrow> if key_is_secret_name k then JStr REDACTED_PLACEHOLDER else JStr s
           | _ \<Rightarrow> redact_inplace v')"

lemma redact_fields_Cons [simp]: "redact_fields ((k, v) # d) = (k, redact_value k v) # redact_fields d"
  by (simp add: redact_value_def Let_def)

declare redact_fields.simps(2) [simp del]

lemma map_of_redact_fields: "map_of (redact_fields d) k = map_option (redact_value k) (map_of d k)"
  by (induction d) auto

lemma is_sealed_scalar [simp]:
  "\<not> is_sealed_secret (JStr s)" "\<not> is_sealed_secret (JList xs)" "\<not> is_sealed_secret JNull"
  "\<not> is_sealed_secret (JBool b)" "\<not> is_sealed_secret (JInt i)" "\<not> is_sealed_secret (JFloat q)"
  by (simp_all add: is_sealed_secret_def)

lemma redact_bags_scalar:
  "redact_bags k v = JStr s \<Longrightarrow> v = JStr s" "redact_bags k v = JBool b \<Longrightarrow> v = JBool b"
  by (auto simp: redact_bags_def split: json.splits if_splits)

lemma redact_inplace_scalar: "redact_inplace v = JStr s \<Longrightarrow> v = JStr s" "redact_inplace v = JBool b \<Longrightarrow> v = JBool b"
  by (cases v; simp)+

lemma sealed_redact_inplace: "is_sealed_secret (redact_inplace v) \<Longrightarrow> is_sealed_secret v"
proof (cases v)
  case (JObj d)
  assume a: "is_sealed_secret (redact_inplace v)"
  have "w = JBool True" if "redact_value k w = JBool True" for k w
    using that redact_bags_scalar(2) [of k w True]
    by (cases "redact_bags k w") (auto simp: redact_value_def Let_def split: if_splits)
  with a show ?thesis by (auto simp: JObj is_sealed_secret_def map_of_redact_fields)
qed (auto simp: is_sealed_secret_def)

lemma redact_value_cases:
  "\<not> is_sealed_secret (redact_value k v)
   \<and> (\<forall>s. redact_value k v = JStr s \<longrightarrow> (key_is_secret_name k \<longrightarrow> s = REDACTED_PLACEHOLDER)
        \<and> (s = REDACTED_PLACEHOLDER \<or> v = JStr s))"
proof (cases "is_sealed_secret (redact_bags k v)")
  case False
  then show ?thesis using sealed_redact_inplace [of "redact_bags k v"] redact_bags_scalar(1) [of k v]
    by (cases "redact_bags k v") (auto simp: redact_value_def Let_def)
qed (simp add: redact_value_def Let_def)

section \<open>Paths\<close>

lemma path_get_modify_same: "p \<noteq> [] \<Longrightarrow> path_get p (modify_path p f d) = map_option f (path_get p d)"
  by (induction p f d rule: modify_path.induct) (auto split: option.split json.split)

lemma path_get_modify_other:
  "\<not> prefix p q \<Longrightarrow> \<not> prefix q p \<Longrightarrow> path_get q (modify_path p f d) = path_get q d"
proof (induction p f d arbitrary: q rule: modify_path.induct)
  case (2 k f d)
  then show ?case by (cases "(q, d)" rule: path_get.cases) (auto split: option.split json.split)
next
  case (3 k k2 p f d)
  show ?case
  proof (cases q)
    case (Cons k' q')
    with 3(2,3) have "k' = k \<Longrightarrow> \<not> prefix (k2 # p) q' \<and> \<not> prefix q' (k2 # p)" "k' = k \<Longrightarrow> q' \<noteq> []" by auto
    then show ?thesis using 3(1) by (cases q') (auto simp: Cons split: option.split json.split)
  qed simp
qed simp

lemma path_get_redact:
  assumes "path_get q (redact_fields d) = Some w" and "''attribute_bags'' \<notin> set q"
  shows "\<exists>v. path_get q d = Some v \<and> w = redact_value (last q) v"
  using assms
proof (induction q d arbitrary: w rule: path_get.induct)
  case (3 k k2 p d)
  then obtain v d' where v: "map_of d k = Some v" "redact_value k v = JObj d'" "path_get (k2 # p) d' = Some w"
    by (auto simp: map_of_redact_fields split: option.splits json.splits)
  moreover have "redact_bags k v = v" using 3(3) by (auto simp: redact_bags_def split: json.split)
  ultimately obtain e where e: "v = JObj e" "d' = redact_fields e"
    by (cases v) (auto simp: redact_value_def Let_def split: if_splits)
  have "\<exists>u. path_get (k2 # p) e = Some u \<and> w = redact_value (last (k2 # p)) u"
    by (rule 3(1) [of "JObj e"]) (use v e 3(3) in simp_all)
  then show ?case using v(1) e(1) by simp
qed (auto simp: map_of_redact_fields)

lemma bag_paths_apart:
  "p \<in> set SECRET_BAG_SUBTREES \<Longrightarrow> q \<in> set SECRET_BAG_PATHS \<Longrightarrow> \<not> prefix p q \<and> \<not> prefix q p"
  "p \<in> set SECRET_BAG_PATHS \<Longrightarrow> q \<in> set SECRET_BAG_PATHS \<Longrightarrow> p = q \<or> \<not> prefix p q \<and> \<not> prefix q p"
  "p \<in> set SECRET_BAG_SUBTREES \<Longrightarrow> q \<in> set SECRET_BAG_SUBTREES \<Longrightarrow> p = q \<or> \<not> prefix p q \<and> \<not> prefix q p"
proof -
  have "list_all (\<lambda>p. list_all (\<lambda>q. \<not> prefix p q \<and> \<not> prefix q p) SECRET_BAG_PATHS) SECRET_BAG_SUBTREES" by code_simp
  then show "p \<in> set SECRET_BAG_SUBTREES \<Longrightarrow> q \<in> set SECRET_BAG_PATHS \<Longrightarrow> \<not> prefix p q \<and> \<not> prefix q p"
    by (simp add: list_all_iff)
  have "list_all (\<lambda>p. list_all (\<lambda>q. p = q \<or> \<not> prefix p q \<and> \<not> prefix q p) SECRET_BAG_PATHS) SECRET_BAG_PATHS" by code_simp
  then show "p \<in> set SECRET_BAG_PATHS \<Longrightarrow> q \<in> set SECRET_BAG_PATHS \<Longrightarrow> p = q \<or> \<not> prefix p q \<and> \<not> prefix q p"
    by (simp add: list_all_iff)
  have "list_all (\<lambda>p. list_all (\<lambda>q. p = q \<or> \<not> prefix p q \<and> \<not> prefix q p) SECRET_BAG_SUBTREES) SECRET_BAG_SUBTREES" by code_simp
  then show "p \<in> set SECRET_BAG_SUBTREES \<Longrightarrow> q \<in> set SECRET_BAG_SUBTREES \<Longrightarrow> p = q \<or> \<not> prefix p q \<and> \<not> prefix q p"
    by (simp add: list_all_iff)
qed

lemma path_get_bags:
  "q \<in> set SECRET_BAG_PATHS \<Longrightarrow> path_get q (redact_bag_paths d) = map_option redact_bag_leaf (path_get q d)"
  "q \<in> set SECRET_BAG_SUBTREES \<Longrightarrow> path_get q (redact_bag_paths d) = map_option redact_leaves (path_get q d)"
proof -
  have keep: "path_get q (foldl (\<lambda>d p. modify_path p f d) d ps) = path_get q d"
    if "\<forall>p \<in> set ps. \<not> prefix p q \<and> \<not> prefix q p" for f d ps and q :: "string list"
    using that by (induction ps arbitrary: d) (auto simp: path_get_modify_other)
  have hit: "path_get q (foldl (\<lambda>d p. modify_path p f d) d ps) = map_option f (path_get q d)"
    if "q \<in> set ps" "distinct ps" "q \<noteq> []" "\<forall>p \<in> set ps. p = q \<or> \<not> prefix p q \<and> \<not> prefix q p" for f d ps and q :: "string list"
    using that
  proof (induction ps arbitrary: d)
    case (Cons p ps)
    show ?case
    proof (cases "p = q")
      case True
      then have "\<forall>p \<in> set ps. \<not> prefix p q \<and> \<not> prefix q p" using Cons.prems by auto
      with True keep [OF this] Cons.prems show ?thesis by (simp add: path_get_modify_same)
    next
      case False
      with Cons path_get_modify_other [of p q] show ?thesis by auto
    qed
  qed simp
  have dist: "distinct SECRET_BAG_PATHS" "distinct SECRET_BAG_SUBTREES" "[] \<notin> set SECRET_BAG_PATHS" "[] \<notin> set SECRET_BAG_SUBTREES"
    by (auto simp: SECRET_BAG_PATHS_def SECRET_BAG_SUBTREES_def)
  { assume q: "q \<in> set SECRET_BAG_PATHS"
    have "path_get q (redact_bag_paths d) = map_option redact_bag_leaf (path_get q (redact_bag_subtrees d))"
      unfolding redact_bag_paths_def by (rule hit) (use q dist bag_paths_apart(2) in blast)+
    moreover have "path_get q (redact_bag_subtrees d) = path_get q d"
      unfolding redact_bag_subtrees_def by (rule keep) (use q bag_paths_apart(1) in blast)
    ultimately show "path_get q (redact_bag_paths d) = map_option redact_bag_leaf (path_get q d)" by simp }
  { assume q: "q \<in> set SECRET_BAG_SUBTREES"
    have "path_get q (redact_bag_paths d) = path_get q (redact_bag_subtrees d)"
      unfolding redact_bag_paths_def by (rule keep) (use q bag_paths_apart(1) in blast)
    moreover have "path_get q (redact_bag_subtrees d) = map_option redact_leaves (path_get q d)"
      unfolding redact_bag_subtrees_def by (rule hit) (use q dist bag_paths_apart(3) in blast)+
    ultimately show "path_get q (redact_bag_paths d) = map_option redact_leaves (path_get q d)" by simp }
qed

section \<open>Leaves\<close>

lemma leaves_redact_leaves:
  "leaves (redact_leaves v) \<subseteq> {JNull, JStr REDACTED_PLACEHOLDER}"
  "leaves_list (redact_leaves_list xs) \<subseteq> {JNull, JStr REDACTED_PLACEHOLDER}"
  "leaves_fields (redact_leaves_fields d) \<subseteq> {JNull, JStr REDACTED_PLACEHOLDER}"
  by (induction v and xs and d rule: redact_leaves_redact_leaves_list_redact_leaves_fields.induct) auto

lemma leaves_dmodify:
  assumes "\<And>v. leaves (f v) \<subseteq> insert (JStr REDACTED_PLACEHOLDER) (insert JNull (leaves v))"
  shows "leaves_fields (dmodify k f d) \<subseteq> insert (JStr REDACTED_PLACEHOLDER) (insert JNull (leaves_fields d))"
proof (induction d)
  case (Cons kv d)
  then show ?case using assms [of "snd kv"] by (cases kv) (auto simp: dmodify_def)
qed (simp add: dmodify_def)

lemma leaves_modify_path:
  assumes "\<And>v. leaves (f v) \<subseteq> insert (JStr REDACTED_PLACEHOLDER) (insert JNull (leaves v))"
  shows "leaves_fields (modify_path p f d) \<subseteq> insert (JStr REDACTED_PLACEHOLDER) (insert JNull (leaves_fields d))"
  using assms
proof (induction p f d rule: modify_path.induct)
  case (3 k k2 p f d)
  show ?case unfolding modify_path.simps
  proof (rule leaves_dmodify)
    show "leaves (case v of JObj d' \<Rightarrow> JObj (modify_path (k2 # p) f d') | _ \<Rightarrow> v)
        \<subseteq> insert (JStr REDACTED_PLACEHOLDER) (insert JNull (leaves v))" for v
      using 3 by (cases v) auto
  qed
qed (use leaves_dmodify in auto)

lemma leaves_redact_bag_paths:
  "leaves_fields (redact_bag_paths d) \<subseteq> insert (JStr REDACTED_PLACEHOLDER) (insert JNull (leaves_fields d))"
proof -
  have fold: "leaves_fields (foldl (\<lambda>d p. modify_path p f d) d ps) \<subseteq> insert (JStr REDACTED_PLACEHOLDER) (insert JNull (leaves_fields d))"
    if "\<And>v. leaves (f v) \<subseteq> insert (JStr REDACTED_PLACEHOLDER) (insert JNull (leaves v))" for f d ps
  proof (induction ps arbitrary: d)
    case (Cons p ps)
    then show ?case using leaves_modify_path [of f p d, OF that] by auto
  qed auto
  have "leaves_fields (redact_bag_paths d) \<subseteq> insert (JStr REDACTED_PLACEHOLDER) (insert JNull (leaves_fields (redact_bag_subtrees d)))"
    unfolding redact_bag_paths_def by (rule fold) (auto simp: redact_bag_leaf_def)
  also have "leaves_fields (redact_bag_subtrees d) \<subseteq> insert (JStr REDACTED_PLACEHOLDER) (insert JNull (leaves_fields d))"
    unfolding redact_bag_subtrees_def by (rule fold) (use leaves_redact_leaves(1) in blast)
  finally show ?thesis by auto
qed

lemma leaves_redact_bags: "leaves (redact_bags k v) \<subseteq> insert (JStr REDACTED_PLACEHOLDER) (insert JNull (leaves v))"
  using leaves_redact_bag_paths by (auto simp: redact_bags_def split: json.split)

lemma leaves_redact_inplace:
  "leaves (redact_inplace v) \<subseteq> insert (JStr REDACTED_PLACEHOLDER) (insert JNull (leaves v))"
  "leaves_list (redact_items xs) \<subseteq> insert (JStr REDACTED_PLACEHOLDER) (insert JNull (leaves_list xs))"
  "leaves_fields (redact_fields d) \<subseteq> insert (JStr REDACTED_PLACEHOLDER) (insert JNull (leaves_fields d))"
proof (induction v and xs and d rule: redact_inplace_redact_items_redact_fields.induct)
  case (11 k v d)
  have "leaves (redact_value k v) \<subseteq> insert (JStr REDACTED_PLACEHOLDER) (insert JNull (leaves (redact_bags k v)))"
    using 11(1-6) by (cases "redact_bags k v") (auto simp: redact_value_def Let_def)
  then show ?case using leaves_redact_bags [of k v] 11(7) by auto
qed auto

lemma leaves_redact_value: "leaves (redact_value k v) \<subseteq> insert (JStr REDACTED_PLACEHOLDER) (insert JNull (leaves v))"
  using leaves_redact_inplace(1) [of "redact_bags k v"] leaves_redact_bags [of k v]
  by (cases "redact_bags k v") (auto simp: redact_value_def Let_def split: if_splits)

section \<open>Entries\<close>

text \<open>What a dictionary of a redacted document may hold under a key.\<close>

definition entry_ok :: "string \<times> json \<Rightarrow> bool" where
  "entry_ok kv \<longleftrightarrow> \<not> is_sealed_secret (snd kv)
     \<and> (\<forall>s. snd kv = JStr s \<longrightarrow> key_is_secret_name (fst kv) \<longrightarrow> s = REDACTED_PLACEHOLDER)"

definition bags_ok :: "jdict \<Rightarrow> bool" where
  "bags_ok bags \<longleftrightarrow>
     (\<forall>p \<in> set SECRET_BAG_PATHS. \<forall>s. path_get p bags = Some (JStr s) \<longrightarrow> s = REDACTED_PLACEHOLDER \<or> py_strip s = [])
     \<and> (\<forall>p \<in> set SECRET_BAG_SUBTREES. \<forall>v. path_get p bags = Some v \<longrightarrow> leaves v \<subseteq> {JNull, JStr REDACTED_PLACEHOLDER})"

lemma bag_paths_inner:
  "p \<in> set SECRET_BAG_PATHS \<union> set SECRET_BAG_SUBTREES \<Longrightarrow> ''attribute_bags'' \<notin> set p"
proof -
  have "list_all (\<lambda>p. \<not> List.member p ''attribute_bags'') (SECRET_BAG_PATHS @ SECRET_BAG_SUBTREES)" by code_simp
  then show "p \<in> set SECRET_BAG_PATHS \<union> set SECRET_BAG_SUBTREES \<Longrightarrow> ''attribute_bags'' \<notin> set p"
    by (auto simp: list_all_iff)
qed

lemma redacted_bags_ok: "bags_ok (redact_fields (redact_bag_paths d))"
  unfolding bags_ok_def
proof (intro conjI ballI allI impI)
  fix p s assume p: "p \<in> set SECRET_BAG_PATHS" and s: "path_get p (redact_fields (redact_bag_paths d)) = Some (JStr s)"
  then obtain v where v: "path_get p (redact_bag_paths d) = Some v" "JStr s = redact_value (last p) v"
    using path_get_redact [OF s] bag_paths_inner [of p] by blast
  then obtain l where "v = redact_bag_leaf l" using path_get_bags(1) [OF p] by auto
  moreover have "s = REDACTED_PLACEHOLDER \<or> v = JStr s" using v(2) redact_value_cases [of "last p" v] by metis
  ultimately show "s = REDACTED_PLACEHOLDER \<or> py_strip s = []"
    by (auto simp: redact_bag_leaf_def secret_is_present_def split: if_splits)
next
  fix p w assume p: "p \<in> set SECRET_BAG_SUBTREES" and w: "path_get p (redact_fields (redact_bag_paths d)) = Some w"
  then obtain v where v: "path_get p (redact_bag_paths d) = Some v" "w = redact_value (last p) v"
    using path_get_redact [OF w] bag_paths_inner [of p] by blast
  then obtain l where "v = redact_leaves l" using path_get_bags(2) [OF p] by auto
  then have "leaves v \<subseteq> {JNull, JStr REDACTED_PLACEHOLDER}" using leaves_redact_leaves(1) by simp
  then show "leaves w \<subseteq> {JNull, JStr REDACTED_PLACEHOLDER}" using leaves_redact_value [of "last p" v] v(2) by auto
qed

lemma redact_value_bags:
  assumes "redact_value ''attribute_bags'' v = JObj bags"
  shows "bags_ok bags"
proof -
  from assms obtain d where "v = JObj d"
    by (cases v) (auto simp: redact_value_def Let_def redact_bags_def split: if_splits)
  with assms have "bags = redact_fields (redact_bag_paths d)"
    by (auto simp: redact_value_def Let_def redact_bags_def split: if_splits)
  then show ?thesis by (simp add: redacted_bags_ok)
qed

definition redacted :: "(string \<times> json) list \<Rightarrow> bool" where
  "redacted es \<longleftrightarrow> (\<forall>kv \<in> set es. entry_ok kv \<and> (\<forall>bags. kv = (''attribute_bags'', JObj bags) \<longrightarrow> bags_ok bags))"

lemma redacted_simps [simp]: "redacted []" "redacted (xs @ ys) \<longleftrightarrow> redacted xs \<and> redacted ys"
  by (auto simp: redacted_def)

lemma redacted_inplace:
  "redacted (entries (redact_inplace v))"
  "redacted (entries_list (redact_items xs))"
  "redacted (entries_fields (redact_fields d))"
proof (induction v and xs and d rule: redact_inplace_redact_items_redact_fields.induct)
  case (11 k v d)
  have "redacted [(k, redact_value k v)]"
    using redact_value_cases [of k v] redact_value_bags [of v] by (auto simp: redacted_def entry_ok_def)
  moreover have "redacted (entries (redact_value k v))"
    using 11(1-6) by (cases "redact_bags k v") (auto simp: redact_value_def Let_def)
  ultimately have "redacted ([(k, redact_value k v)] @ entries (redact_value k v) @ entries_fields (redact_fields d))"
    using 11(7) by (simp only: redacted_simps)
  then show ?case by simp
qed simp_all

section \<open>Scrubbing keeps the shape\<close>

lemma scrub_fields_map: "scrub_fields d ss = map (\<lambda>(k, v). (k, scrub_known_values v ss)) d"
  by (induction d) auto

lemma map_of_scrub: "map_of (scrub_fields d ss) k = map_option (\<lambda>v. scrub_known_values v ss) (map_of d k)"
  by (induction d) auto

lemma scrub_scalar:
  "scrub_known_values v ss = JBool b \<longleftrightarrow> v = JBool b" "scrub_known_values v ss = JNull \<longleftrightarrow> v = JNull"
  by (cases v; simp)+

lemma sealed_scrub [simp]: "is_sealed_secret (scrub_known_values v ss) = is_sealed_secret v"
  by (cases v) (auto simp: is_sealed_secret_def map_of_scrub scrub_scalar)

lemma entries_scrub:
  "entries (scrub_known_values v ss) = map (\<lambda>(k, v). (k, scrub_known_values v ss)) (entries v)"
  "entries_list (scrub_list xs ss) = map (\<lambda>(k, v). (k, scrub_known_values v ss)) (entries_list xs)"
  "entries_fields (scrub_fields d ss) = map (\<lambda>(k, v). (k, scrub_known_values v ss)) (entries_fields d)"
  by (induction v ss and xs ss and d ss rule: scrub_known_values_scrub_list_scrub_fields.induct) auto

lemma leaves_scrub:
  "leaves (scrub_known_values v ss) = (\<lambda>v. scrub_known_values v ss) ` leaves v"
  "leaves_list (scrub_list xs ss) = (\<lambda>v. scrub_known_values v ss) ` leaves_list xs"
  "leaves_fields (scrub_fields d ss) = (\<lambda>v. scrub_known_values v ss) ` leaves_fields d"
  by (induction v ss and xs ss and d ss rule: scrub_known_values_scrub_list_scrub_fields.induct) auto

lemma path_get_scrub: "path_get p (scrub_fields d ss) = map_option (\<lambda>v. scrub_known_values v ss) (path_get p d)"
proof (induction p d rule: path_get.induct)
  case (3 k k2 p d)
  then show ?case by (auto simp: map_of_scrub split: option.split json.split)
qed (simp_all add: map_of_scrub)

lemma scrub_nil: "scrub_known_values v [] = v" "scrub_list xs [] = xs" "scrub_fields d [] = d"
  by (induction v and xs and d rule: entries_entries_list_entries_fields.induct) (auto simp: scrub_string_def)

lemma scrub_known_secrets_eq: "\<exists>ss. scrub_known_secrets reg = (\<lambda>v. scrub_known_values v ss)"
proof (cases "reg = None \<or> reg = Some []")
  case True
  then have "scrub_known_secrets reg = (\<lambda>v. scrub_known_values v [])"
    by (auto simp: scrub_known_secrets_def scrub_nil fun_eq_iff)
  then show ?thesis by blast
next
  case False
  then obtain x xs where "reg = Some (x # xs)" by (metis list.exhaust option.exhaust)
  then show ?thesis by (auto simp: scrub_known_secrets_def fun_eq_iff)
qed

section \<open>What redaction guarantees\<close>

text \<open>
  C34: In the exported copy of any document, at any depth, no dictionary holds a sealed envelope; text
  under a key with a secret name is the placeholder; in every attribute bag the known secret paths
  hold the placeholder or blank text, and every scalar of the free-form configuration subtrees is the
  placeholder or null. The placeholder itself is subject to the scrubbing of known cleartext.
\<close>

theorem redaction_hides_secrets:
  assumes "(k, v) \<in> set (entries (redact_secrets_in_data reg data))"
  shows "\<not> is_sealed_secret v
    \<and> (key_is_secret_name k \<longrightarrow> (\<forall>s. v = JStr s \<longrightarrow> v = scrub_known_secrets reg (JStr REDACTED_PLACEHOLDER)))
    \<and> (k = ''attribute_bags'' \<longrightarrow> (\<forall>bags. v = JObj bags \<longrightarrow>
         (\<forall>p \<in> set SECRET_BAG_PATHS. \<forall>s. path_get p bags = Some (JStr s) \<longrightarrow>
            JStr s = scrub_known_secrets reg (JStr REDACTED_PLACEHOLDER)
            \<or> (\<exists>t. py_strip t = [] \<and> JStr s = scrub_known_secrets reg (JStr t)))
         \<and> (\<forall>p \<in> set SECRET_BAG_SUBTREES. \<forall>w. path_get p bags = Some w \<longrightarrow>
              leaves w \<subseteq> {JNull, scrub_known_secrets reg (JStr REDACTED_PLACEHOLDER)})))"
proof -
  obtain ss where S: "scrub_known_secrets reg = (\<lambda>v. scrub_known_values v ss)" using scrub_known_secrets_eq by blast
  from assms obtain u where u: "(k, u) \<in> set (entries (redact_inplace data))" "v = scrub_known_values u ss"
    by (auto simp: redact_secrets_in_data_def S entries_scrub)
  then have ok: "entry_ok (k, u)" "\<And>bags. k = ''attribute_bags'' \<Longrightarrow> u = JObj bags \<Longrightarrow> bags_ok bags"
    using redacted_inplace(1) [of data] by (auto simp: redacted_def)
  have str: "\<exists>t. w = JStr t \<and> s = scrub_string t ss" if "scrub_known_values w ss = JStr s" for w s
    using that by (cases w) auto
  have obj: "\<exists>d'. w = JObj d' \<and> d = scrub_fields d' ss" if "scrub_known_values w ss = JObj d" for w d
    using that by (cases w) auto
  have "\<not> is_sealed_secret v" using ok(1) by (simp add: u entry_ok_def)
  moreover have "v = scrub_known_values (JStr REDACTED_PLACEHOLDER) ss" if "key_is_secret_name k" "v = JStr s" for s
    using str [of u s] ok(1) that by (auto simp: u entry_ok_def)
  moreover have "JStr s = scrub_known_values (JStr REDACTED_PLACEHOLDER) ss \<or> (\<exists>t. py_strip t = [] \<and> JStr s = scrub_known_values (JStr t) ss)"
    if a: "k = ''attribute_bags''" "v = JObj bags" "p \<in> set SECRET_BAG_PATHS" "path_get p bags = Some (JStr s)" for bags p s
  proof -
    obtain d where d: "u = JObj d" "bags = scrub_fields d ss" using obj [of u bags] a(2) u(2) by auto
    then obtain w where w: "path_get p d = Some w" "scrub_known_values w ss = JStr s" using a(4) by (auto simp: path_get_scrub)
    obtain t where t: "w = JStr t" "s = scrub_string t ss" using str [OF w(2)] by blast
    then have "t = REDACTED_PLACEHOLDER \<or> py_strip t = []"
      using ok(2) [OF a(1) d(1)] a(3) w(1) unfolding bags_ok_def by blast
    then show ?thesis using t(2) by auto
  qed
  moreover have "leaves w \<subseteq> {JNull, scrub_known_values (JStr REDACTED_PLACEHOLDER) ss}"
    if a: "k = ''attribute_bags''" "v = JObj bags" "p \<in> set SECRET_BAG_SUBTREES" "path_get p bags = Some w" for bags p w
  proof -
    obtain d where d: "u = JObj d" "bags = scrub_fields d ss" using obj [of u bags] a(2) u(2) by auto
    then obtain w' where w: "path_get p d = Some w'" "w = scrub_known_values w' ss" using a(4) by (auto simp: path_get_scrub)
    then have "leaves w' \<subseteq> {JNull, JStr REDACTED_PLACEHOLDER}"
      using ok(2) [OF a(1) d(1)] a(3) by (auto simp: bags_ok_def)
    then show ?thesis unfolding w(2) leaves_scrub(1) by auto
  qed
  ultimately show ?thesis unfolding S by blast
qed

text \<open>A device with a legacy cleartext TACACS secret and a configuration context.\<close>

definition demo_secret_doc :: json where
  "demo_secret_doc = JObj [(''attribute_bags'', JObj
     [(''tacacs'', JObj [(''shared_secret'', JStr ''cisco123'')]),
      (''nautobot'', JObj [(''config_context'', JObj [(''key'', JStr ''s3cret'')])])])]"

theorem redaction_hides_secrets_witness:
  "path_get [''tacacs'', ''shared_secret''] [(''tacacs'', JObj [(''shared_secret'', JStr REDACTED_PLACEHOLDER)]),
      (''nautobot'', JObj [(''config_context'', JObj [(''key'', JStr REDACTED_PLACEHOLDER)])])] = Some (JStr REDACTED_PLACEHOLDER)
   \<and> leaves (JObj [(''key'', JStr REDACTED_PLACEHOLDER)]) \<subseteq> {JNull, scrub_known_secrets None (JStr REDACTED_PLACEHOLDER)}
   \<and> \<not> is_sealed_secret (JObj [(''tacacs'', JObj [(''shared_secret'', JStr REDACTED_PLACEHOLDER)]),
      (''nautobot'', JObj [(''config_context'', JObj [(''key'', JStr REDACTED_PLACEHOLDER)])])])"
proof -
  let ?bags = "[(''tacacs'', JObj [(''shared_secret'', JStr REDACTED_PLACEHOLDER)]),
      (''nautobot'', JObj [(''config_context'', JObj [(''key'', JStr REDACTED_PLACEHOLDER)])])]"
  have "List.member (entries (redact_secrets_in_data None demo_secret_doc)) (''attribute_bags'', JObj ?bags)" by code_simp
  then have m: "(''attribute_bags'', JObj ?bags) \<in> set (entries (redact_secrets_in_data None demo_secret_doc))" by simp
  have p: "[''nautobot'', ''config_context''] \<in> set SECRET_BAG_SUBTREES" by (simp add: SECRET_BAG_SUBTREES_def)
  have g: "path_get [''nautobot'', ''config_context''] ?bags = Some (JObj [(''key'', JStr REDACTED_PLACEHOLDER)])" by code_simp
  have "path_get [''tacacs'', ''shared_secret''] ?bags = Some (JStr REDACTED_PLACEHOLDER)" by code_simp
  moreover have "leaves (JObj [(''key'', JStr REDACTED_PLACEHOLDER)]) \<subseteq> {JNull, scrub_known_secrets None (JStr REDACTED_PLACEHOLDER)}"
    using redaction_hides_secrets [OF m] p g by blast
  moreover have "\<not> is_sealed_secret (JObj ?bags)" using redaction_hides_secrets [OF m] by blast
  ultimately show ?thesis by blast
qed

text \<open>An envelope that is a list element, or the document itself, is left as it is.\<close>

lemma list_envelope_survives:
  "contains_sealed_secret (redact_secrets_in_data reg (JObj [(''keys'', JList [seal_secret svc p])]))"
  "contains_sealed_secret (redact_secrets_in_data reg (seal_secret svc p))"
proof -
  obtain ss where S: "scrub_known_secrets reg = (\<lambda>v. scrub_known_values v ss)" using scrub_known_secrets_eq by blast
  have k: "\<not> key_is_secret_name ''ct''" by code_simp
  have env: "redact_inplace (seal_secret svc p) = seal_secret svc p"
    using k by (simp add: seal_secret_def redact_value_def redact_bags_def Let_def)
  have sealed: "is_sealed_secret (scrub_known_values (seal_secret svc p) ss)"
    by (simp, simp add: seal_secret_def is_sealed_secret_def SEALED_MARKER_def)
  have hit: "contains_sealed_secret v" if "is_sealed_secret v" for v using that by (cases v) auto
  have list: "redact_inplace (JObj [(''keys'', JList [seal_secret svc p])]) = JObj [(''keys'', JList [seal_secret svc p])]"
    using env by (simp add: redact_value_def redact_bags_def Let_def)
  show "contains_sealed_secret (redact_secrets_in_data reg (JObj [(''keys'', JList [seal_secret svc p])]))"
    unfolding redact_secrets_in_data_def list S using hit [OF sealed] by simp
  show "contains_sealed_secret (redact_secrets_in_data reg (seal_secret svc p))"
    unfolding redact_secrets_in_data_def env S using hit [OF sealed] by simp
qed

section \<open>Sealing and unwrapping\<close>

lemma decrypt_encrypt:
  assumes "\<And>key p. fernet_decrypt (enc_lib svc) key (fernet_encrypt (enc_lib svc) key p) = Some p"
    and "KDF_ITERATIONS_FLOOR \<le> enc_iterations svc" and "enc_iterations svc \<le> KDF_ITERATIONS_CEILING"
  shows "decrypt svc (encrypt svc p) = Inr p"
proof -
  have dot: "\<not> is_digit (CHR ''.'')" by (simp add: is_digit_def)
  then have "CHR ''.'' \<notin> set (nat_str n)" for n using nat_str_digits(1) [of n] by (auto simp: list_all_iff)
  moreover have "CHR ''.'' \<notin> set PREFIX" by (simp add: PREFIX_def)
  moreover have "enc_iterations svc < 10 ^ 7" using assms(3) by (simp add: KDF_ITERATIONS_CEILING_def)
  then have "length (nat_str (enc_iterations svc)) \<le> 4300" using length_nat_str [of 7 "enc_iterations svc"] by linarith
  ultimately show ?thesis using assms
    by (simp add: decrypt_def encrypt_def split_once_sep nat_str_digits py_nat_nat_str)
qed

text \<open>
  C33: A sealed secret opens to the text that was sealed, for every text and every configured iteration
  count within the policy bounds, and it is recorded for scrubbing; the token names its iteration count,
  so a service configured with another count opens it as well.
\<close>

theorem seal_unwrap_roundtrip:
  assumes "\<And>key p. fernet_decrypt (enc_lib svc) key (fernet_encrypt (enc_lib svc) key p) = Some p"
    and "KDF_ITERATIONS_FLOOR \<le> enc_iterations svc" and "enc_iterations svc \<le> KDF_ITERATIONS_CEILING"
  shows "unwrap_secret tt (svc\<lparr>enc_iterations := n\<rparr>) reg (seal_secret svc p) = Inr (register_secret_value reg (Some p), Some p)"
proof -
  have lib: "enc_lib (svc\<lparr>enc_iterations := n\<rparr>) = enc_lib svc" "enc_secret (svc\<lparr>enc_iterations := n\<rparr>) = enc_secret svc"
    by simp_all
  have "decrypt (svc\<lparr>enc_iterations := n\<rparr>) t = decrypt svc t" for t unfolding decrypt_def lib ..
  then have "decrypt (svc\<lparr>enc_iterations := n\<rparr>) (encrypt svc p) = Inr p" using decrypt_encrypt [OF assms] by simp
  then show ?thesis
    by (simp add: unwrap_secret_def seal_secret_def is_sealed_secret_def envelope_token_def dget_def SEALED_MARKER_def)
qed

definition demo_fernet :: fernet_lib where
  "demo_fernet = \<lparr>build_key = (\<lambda>s n. s @ ''/'' @ nat_str n), fernet_encrypt = (\<lambda>k p. k @ p),
     fernet_decrypt = (\<lambda>k t. if startswith t k then Some (drop (length k) t) else None)\<rparr>"

definition demo_service :: encryption_service where
  "demo_service = \<lparr>enc_lib = demo_fernet, enc_secret = ''k'', enc_iterations = 600000\<rparr>"

theorem seal_unwrap_roundtrip_witness:
  "unwrap_secret (\<lambda>_. '''') (demo_service\<lparr>enc_iterations := 700000\<rparr>) (Some []) (seal_secret demo_service ''hunter2hunter2'')
     = Inr (Some [''hunter2hunter2''], Some ''hunter2hunter2'')"
proof -
  have "unwrap_secret (\<lambda>_. '''') (demo_service\<lparr>enc_iterations := 700000\<rparr>) (Some []) (seal_secret demo_service ''hunter2hunter2'')
      = Inr (register_secret_value (Some []) (Some ''hunter2hunter2''), Some ''hunter2hunter2'')"
    by (rule seal_unwrap_roundtrip)
      (simp_all add: demo_service_def demo_fernet_def startswith_def KDF_ITERATIONS_FLOOR_def KDF_ITERATIONS_CEILING_def)
  also have "\<dots> = Inr (Some [''hunter2hunter2''], Some ''hunter2hunter2'')" by code_simp
  finally show ?thesis .
qed

end
