(* ===== verification/Run_Inputs.thy ===== *)
theory Run_Inputs
  imports Secret_Redaction
begin

text \<open>
  \<open>services/execution/run_input_validation.py\<close>: the inputs of a run, checked against the inputs the
  workflow declares (\<open>StaticAttributeDef\<close> of \<open>models/workflows.py\<close>). \<open>float(text)\<close> is the argument
  \<open>to_float\<close>; its result is a finite number. \<open>sealer\<close> is the source's own parameter.
\<close>

section \<open>Declared inputs\<close>

record static_attribute_def =
  attr_name :: string
  attr_type :: string
  ref_kind :: "string option"
  attr_default :: json
  attr_required :: bool

definition StaticAttributeType :: "string set" where
  "StaticAttributeType = {''string'', ''number'', ''boolean'', ''reference'', ''secret''}"

definition ReferenceKind :: "string set" where
  "ReferenceKind = {''inventory'', ''credential''}"

text \<open>\<open>StaticAttributeDef.model_validate\<close> on a declaration that has the right field types.\<close>

definition check_ref_kind :: "static_attribute_def \<Rightarrow> unit res" where
  "check_ref_kind a =
     (if attr_type a = ''reference'' \<and> ref_kind a = None
      then Inl (ValueError (''ref_kind is required when type is '' @ py_repr ''reference''))
      else if attr_type a \<noteq> ''reference'' \<and> ref_kind a \<noteq> None
      then Inl (ValueError (''ref_kind is only valid when type is '' @ py_repr ''reference''))
      else if attr_type a = ''secret'' \<and> attr_default a \<noteq> JNull
      then Inl (ValueError ''a secret input cannot have a default value'')
      else Inr ())"

definition validate_def :: "static_attribute_def \<Rightarrow> unit res" where
  "validate_def a =
     (if attr_name a = [] \<or> 100 < length (attr_name a) then Inl (ValueError ''name'')
      else if attr_type a \<notin> StaticAttributeType then Inl (ValueError ''type'')
      else if (case ref_kind a of None \<Rightarrow> False | Some k \<Rightarrow> k \<notin> ReferenceKind) then Inl (ValueError ''ref_kind'')
      else check_ref_kind a)"

section \<open>Coercion\<close>

text \<open>The value and the list of errors so far; a rejected value is \<open>None\<close> and one more error.\<close>

definition reject :: "static_attribute_def \<Rightarrow> string list \<Rightarrow> string \<Rightarrow> json \<times> string list" where
  "reject a errors message = (JNull, errors @ [attr_name a @ '': '' @ message])"

definition coerce_inventory :: "static_attribute_def \<Rightarrow> int \<Rightarrow> string list \<Rightarrow> json \<times> string list" where
  "coerce_inventory a candidate errors =
     (if candidate \<le> 0 then reject a errors ''expected a positive inventory id'' else (JInt candidate, errors))"

definition coerce_reference :: "static_attribute_def \<Rightarrow> json \<Rightarrow> string list \<Rightarrow> json \<times> string list" where
  "coerce_reference a value errors =
     (if ref_kind a = Some ''inventory'' then
        (case value of
           JInt i \<Rightarrow> coerce_inventory a i errors
         | JStr s \<Rightarrow> (case py_int s of
               None \<Rightarrow> reject a errors ''expected an inventory id''
             | Some i \<Rightarrow> coerce_inventory a i errors)
         | _ \<Rightarrow> reject a errors ''expected an inventory id'')
      else if ref_kind a = Some ''credential'' then
        (case value of
           JStr s \<Rightarrow> if py_strip s \<noteq> [] then (JStr (py_strip s), errors) else reject a errors ''expected a credential name''
         | _ \<Rightarrow> reject a errors ''expected a credential name'')
      else reject a errors (''unsupported ref_kind '' @ (case ref_kind a of None \<Rightarrow> ''None'' | Some k \<Rightarrow> py_repr k)))"

definition numeric_text :: "(string \<Rightarrow> rat option) \<Rightarrow> string \<Rightarrow> json option" where
  "numeric_text to_float s =
     (if list_ex (\<lambda>c. c \<in> {CHR ''.'', CHR ''e'', CHR ''E''}) s then map_option JFloat (to_float s)
      else map_option JInt (py_int s))"

definition coerce :: "(string \<Rightarrow> rat option) \<Rightarrow> (string \<Rightarrow> json) \<Rightarrow> static_attribute_def \<Rightarrow> json \<Rightarrow> string list \<Rightarrow>
    json \<times> string list" where
  "coerce to_float sealer a value errors =
     (if attr_type a = ''string'' then
        (case value of JStr s \<Rightarrow> (JStr s, errors) | _ \<Rightarrow> reject a errors ''expected a string'')
      else if attr_type a = ''number'' then
        (case value of
           JInt i \<Rightarrow> (JInt i, errors)
         | JFloat q \<Rightarrow> (JFloat q, errors)
         | JStr s \<Rightarrow> (case numeric_text to_float s of
               Some v \<Rightarrow> (v, errors) | None \<Rightarrow> reject a errors ''expected a number'')
         | _ \<Rightarrow> reject a errors ''expected a number'')
      else if attr_type a = ''boolean'' then
        (case value of JBool b \<Rightarrow> (JBool b, errors) | _ \<Rightarrow> reject a errors ''expected a boolean'')
      else if attr_type a = ''reference'' then coerce_reference a value errors
      else if attr_type a = ''secret'' then
        (if is_sealed_secret value then (value, errors)
         else (case value of
                 JStr s \<Rightarrow> if s \<noteq> [] then (sealer s, errors) else reject a errors ''expected a non-empty secret''
               | _ \<Rightarrow> reject a errors ''expected a non-empty secret''))
      else reject a errors (''unsupported type '' @ py_repr (attr_type a)))"

section \<open>Resolution\<close>

definition resolve_one :: "(string \<Rightarrow> rat option) \<Rightarrow> (string \<Rightarrow> json) \<Rightarrow> jdict \<Rightarrow> jdict \<times> string list \<Rightarrow>
    static_attribute_def \<Rightarrow> jdict \<times> string list" where
  "resolve_one to_float sealer supplied st a =
     (let (resolved, errors) = st in
      case map_of supplied (attr_name a) of
        Some value \<Rightarrow> (let (v, errors') = coerce to_float sealer a value errors
                      in (AList.update (attr_name a) v resolved, errors'))
      | None \<Rightarrow>
          if attr_default a \<noteq> JNull then (AList.update (attr_name a) (attr_default a) resolved, errors)
          else if attr_required a then (resolved, errors @ [attr_name a @ '': required, no value supplied and no default''])
          else (resolved, errors))"

definition join :: "string \<Rightarrow> string list \<Rightarrow> string" where
  "join sep xs = (case xs of [] \<Rightarrow> [] | y # ys \<Rightarrow> y @ concat (map ((@) sep) ys))"

definition resolve_run_inputs :: "(string \<Rightarrow> rat option) \<Rightarrow> (string \<Rightarrow> json) \<Rightarrow> static_attribute_def list \<Rightarrow> jdict \<Rightarrow>
    jdict res" where
  "resolve_run_inputs to_float sealer defs supplied =
     res_bind (res_fold (\<lambda>_ a. validate_def a) () defs) (\<lambda>_.
     let unknown = sort (filter (\<lambda>k. k \<notin> attr_name ` set defs) (map fst supplied)) in
     if unknown \<noteq> []
     then Inl (RunInputValidationError (''Unknown run input(s) not declared on this workflow: '' @ join '', '' unknown))
     else let (resolved, errors) = foldl (resolve_one to_float sealer supplied) ([], []) defs in
          if errors \<noteq> [] then Inl (RunInputValidationError (join ''; '' errors)) else Inr resolved)"

section \<open>Types of resolved values\<close>

definition has_type :: "static_attribute_def \<Rightarrow> json \<Rightarrow> bool" where
  "has_type a v =
     (if attr_type a = ''string'' then (case v of JStr _ \<Rightarrow> True | _ \<Rightarrow> False)
      else if attr_type a = ''number'' then (case v of JInt _ \<Rightarrow> True | JFloat _ \<Rightarrow> True | _ \<Rightarrow> False)
      else if attr_type a = ''boolean'' then (case v of JBool _ \<Rightarrow> True | _ \<Rightarrow> False)
      else if attr_type a = ''reference'' then
        (if ref_kind a = Some ''inventory'' then (case v of JInt i \<Rightarrow> 0 < i | _ \<Rightarrow> False)
         else ref_kind a = Some ''credential'' \<and> (case v of JStr s \<Rightarrow> s \<noteq> [] \<and> py_strip s = s | _ \<Rightarrow> False))
      else attr_type a = ''secret'' \<and> is_sealed_secret v)"

text \<open>A coercion either adds one error or yields a value of the declared type, whatever the errors so
  far; a typed value is left alone.\<close>

definition typed_or_error :: "static_attribute_def \<Rightarrow> (string list \<Rightarrow> json \<times> string list) \<Rightarrow> bool" where
  "typed_or_error a c \<longleftrightarrow>
     (\<exists>v. has_type a v \<and> (\<forall>errors. c errors = (v, errors))) \<or> (\<exists>m. \<forall>errors. c errors = (JNull, errors @ [m]))"

lemma typed_reject [simp]: "typed_or_error a (\<lambda>errors. reject a errors m)"
  by (auto simp: typed_or_error_def reject_def)

lemma typed_value: "has_type a v \<Longrightarrow> typed_or_error a (\<lambda>errors. (v, errors))"
  by (auto simp: typed_or_error_def)

lemma typed_if:
  "(c \<Longrightarrow> typed_or_error a f) \<Longrightarrow> (\<not> c \<Longrightarrow> typed_or_error a g) \<Longrightarrow> typed_or_error a (\<lambda>errors. if c then f errors else g errors)"
  by (cases c) simp_all

lemma typed_inventory:
  "attr_type a = ''reference'' \<Longrightarrow> ref_kind a = Some ''inventory'' \<Longrightarrow> typed_or_error a (coerce_inventory a i)"
  by (cases "i \<le> 0") (auto simp: coerce_inventory_def [abs_def] has_type_def intro!: typed_value)

lemma coerce_reference_typed:
  assumes "attr_type a = ''reference''"
  shows "typed_or_error a (coerce_reference a v)"
proof -
  consider "ref_kind a = Some ''inventory''" | "ref_kind a = Some ''credential''"
    | "ref_kind a \<noteq> Some ''inventory''" "ref_kind a \<noteq> Some ''credential''" by blast
  then show ?thesis
  proof cases
    case 1
    note inv = typed_inventory [OF assms 1]
    show ?thesis
    proof (cases v)
      case (JStr s)
      then show ?thesis using 1 inv by (cases "py_int s") (simp_all add: coerce_reference_def [abs_def])
    qed (use 1 inv in \<open>simp_all add: coerce_reference_def [abs_def]\<close>)
  next
    case 2
    then show ?thesis using assms
      by (cases v) (auto simp: coerce_reference_def [abs_def] has_type_def intro!: typed_value typed_if)
  next
    case 3
    then show ?thesis by (simp add: coerce_reference_def [abs_def])
  qed
qed

lemma coerce_typed:
  assumes "\<forall>t. is_sealed_secret (sealer t)"
  shows "typed_or_error a (coerce to_float sealer a v)"
proof -
  consider "attr_type a = ''string''" | "attr_type a = ''number''" | "attr_type a = ''boolean''"
    | "attr_type a = ''reference''" | "attr_type a = ''secret''" | "attr_type a \<notin> StaticAttributeType"
    by (auto simp: StaticAttributeType_def)
  then show ?thesis
  proof cases
    case 1
    then show ?thesis by (cases v) (auto simp: coerce_def [abs_def] has_type_def intro!: typed_value)
  next
    case 2
    have "has_type a w" if "numeric_text to_float s = Some w" for s w
      using that 2 by (auto simp: numeric_text_def has_type_def split: if_splits)
    then have "typed_or_error a (coerce to_float sealer a (JStr s))" for s
      using 2 by (cases "numeric_text to_float s") (auto simp: coerce_def [abs_def] intro!: typed_value)
    then show ?thesis using 2
      by (cases v) (auto simp: coerce_def [abs_def] has_type_def intro!: typed_value)
  next
    case 3
    then show ?thesis by (cases v) (auto simp: coerce_def [abs_def] has_type_def intro!: typed_value)
  next
    case 4
    then show ?thesis using coerce_reference_typed by (simp add: coerce_def [abs_def])
  next
    case 5
    have sealed: "typed_or_error a (coerce to_float sealer a v)" if "is_sealed_secret v"
      using 5 that by (simp add: coerce_def [abs_def] has_type_def typed_value)
    show ?thesis
    proof (cases "is_sealed_secret v")
      case False
      then show ?thesis using 5 assms by (cases v) (auto simp: coerce_def [abs_def] has_type_def intro!: typed_value typed_if)
    qed (rule sealed)
  next
    case 6
    then show ?thesis by (simp add: coerce_def [abs_def] StaticAttributeType_def)
  qed
qed

lemma coerce_fixed:
  assumes "has_type a v"
  shows "coerce to_float sealer a v errors = (v, errors)"
proof -
  have "attr_type a \<in> StaticAttributeType"
    by (rule ccontr) (use assms in \<open>simp add: has_type_def StaticAttributeType_def\<close>)
  then consider "attr_type a = ''string''" | "attr_type a = ''number''" | "attr_type a = ''boolean''"
    | "attr_type a = ''reference''" | "attr_type a = ''secret''"
    unfolding StaticAttributeType_def by blast
  then show ?thesis
  proof cases
    case 1
    with assms show ?thesis by (cases v) (simp_all add: coerce_def has_type_def)
  next
    case 2
    with assms show ?thesis by (cases v) (simp_all add: coerce_def has_type_def)
  next
    case 3
    with assms show ?thesis by (cases v) (simp_all add: coerce_def has_type_def)
  next
    case 4
    then have "coerce_reference a v errors = (v, errors)" using assms
      by (cases v) (auto simp: has_type_def coerce_reference_def coerce_inventory_def split: if_splits)
    with 4 show ?thesis by (simp add: coerce_def)
  next
    case 5
    with assms show ?thesis by (simp add: coerce_def has_type_def)
  qed
qed

section \<open>The resolution loop\<close>

text \<open>What one declaration contributes: whether it is satisfied, and the value it stores.\<close>

definition satisfied :: "(string \<Rightarrow> rat option) \<Rightarrow> (string \<Rightarrow> json) \<Rightarrow> jdict \<Rightarrow> static_attribute_def \<Rightarrow> bool" where
  "satisfied to_float sealer supplied a =
     (case map_of supplied (attr_name a) of
        Some v \<Rightarrow> snd (coerce to_float sealer a v []) = []
      | None \<Rightarrow> attr_default a \<noteq> JNull \<or> \<not> attr_required a)"

definition stored :: "(string \<Rightarrow> rat option) \<Rightarrow> (string \<Rightarrow> json) \<Rightarrow> jdict \<Rightarrow> static_attribute_def \<Rightarrow> json option" where
  "stored to_float sealer supplied a =
     (case map_of supplied (attr_name a) of
        Some v \<Rightarrow> Some (fst (coerce to_float sealer a v []))
      | None \<Rightarrow> if attr_default a \<noteq> JNull then Some (attr_default a) else None)"

definition store_all :: "(static_attribute_def \<Rightarrow> json option) \<Rightarrow> static_attribute_def list \<Rightarrow> jdict" where
  "store_all f defs = foldl (\<lambda>r a. case f a of None \<Rightarrow> r | Some v \<Rightarrow> AList.update (attr_name a) v r) [] defs"

lemma store_all_snoc [simp]:
  "store_all f [] = []"
  "store_all f (defs @ [a]) = (case f a of None \<Rightarrow> store_all f defs | Some v \<Rightarrow> AList.update (attr_name a) v (store_all f defs))"
  by (simp_all add: store_all_def split: option.split)

lemma resolve_one_step:
  assumes "\<forall>t. is_sealed_secret (sealer t)"
  shows "fst (resolve_one to_float sealer supplied (r, e) a) =
      (case stored to_float sealer supplied a of None \<Rightarrow> r | Some v \<Rightarrow> AList.update (attr_name a) v r)"
    and "snd (resolve_one to_float sealer supplied (r, e) a) = [] \<longleftrightarrow> e = [] \<and> satisfied to_float sealer supplied a"
proof -
  have c: "fst (coerce to_float sealer a v e) = fst (coerce to_float sealer a v [])"
    "snd (coerce to_float sealer a v e) = [] \<longleftrightarrow> e = [] \<and> snd (coerce to_float sealer a v []) = []" for v
    using coerce_typed [OF assms, of a to_float v] by (auto simp: typed_or_error_def)
  show "fst (resolve_one to_float sealer supplied (r, e) a) =
      (case stored to_float sealer supplied a of None \<Rightarrow> r | Some v \<Rightarrow> AList.update (attr_name a) v r)"
    by (cases "map_of supplied (attr_name a)") (simp_all add: resolve_one_def stored_def case_prod_unfold Let_def c)
  show "snd (resolve_one to_float sealer supplied (r, e) a) = [] \<longleftrightarrow> e = [] \<and> satisfied to_float sealer supplied a"
    by (cases "map_of supplied (attr_name a)") (auto simp: resolve_one_def satisfied_def case_prod_unfold Let_def c)
qed

lemma resolve_loop:
  assumes "\<forall>t. is_sealed_secret (sealer t)"
  shows "fst (foldl (resolve_one to_float sealer supplied) ([], []) defs) = store_all (stored to_float sealer supplied) defs
    \<and> (snd (foldl (resolve_one to_float sealer supplied) ([], []) defs) = [] \<longleftrightarrow> list_all (satisfied to_float sealer supplied) defs)"
proof (induction defs rule: rev_induct)
  case (snoc a defs)
  obtain r e where re: "foldl (resolve_one to_float sealer supplied) ([], []) defs = (r, e)" by fastforce
  show ?case using snoc unfolding foldl_append foldl.simps re
    by (simp add: resolve_one_step [OF assms] cong: option.case_cong)
qed simp

lemma store_all_keys: "dict_ok (store_all f defs)" "fst ` set (store_all f defs) = {attr_name a | a. a \<in> set defs \<and> f a \<noteq> None}"
  by (induction defs rule: rev_induct) (auto split: option.splits)

lemma store_all_value: "map_of (store_all f defs) k = Some v \<Longrightarrow> \<exists>a \<in> set defs. attr_name a = k \<and> f a = Some v"
  by (induction defs rule: rev_induct) (auto split: option.splits if_splits)

lemma store_all_distinct:
  assumes "distinct (map attr_name defs)" and "a \<in> set defs"
  shows "map_of (store_all f defs) (attr_name a) = f a"
proof (cases "f a")
  case None
  have "attr_name a \<notin> fst ` set (store_all f defs)"
    using None assms by (auto simp: store_all_keys dest: distinct_map_eq)
  with None show ?thesis by (simp add: map_of_None_iff)
next
  case (Some v)
  then have "attr_name a \<in> fst ` set (store_all f defs)" using assms(2) by (auto simp: store_all_keys)
  then obtain w where "map_of (store_all f defs) (attr_name a) = Some w" using key_map_of_Some by metis
  moreover from store_all_value [OF this] have "f a = Some w" using assms by (auto dest: distinct_map_eq)
  ultimately show ?thesis by simp
qed

lemma store_all_cong: "(\<And>a. a \<in> set defs \<Longrightarrow> f a = g a) \<Longrightarrow> store_all f defs = store_all g defs"
  by (induction defs rule: rev_induct) (auto split: option.split)

lemma validated_iff: "res_fold (\<lambda>_ a. validate_def a) () defs = Inr () \<longleftrightarrow> (\<forall>a \<in> set defs. validate_def a = Inr ())"
  by (induction defs) (auto simp: res_bind_Inr_iff)

lemma resolve_Inr_iff:
  assumes "\<forall>t. is_sealed_secret (sealer t)"
  shows "resolve_run_inputs to_float sealer defs supplied = Inr r \<longleftrightarrow>
    (\<forall>a \<in> set defs. validate_def a = Inr ()) \<and> fst ` set supplied \<subseteq> attr_name ` set defs
    \<and> (\<forall>a \<in> set defs. satisfied to_float sealer supplied a) \<and> r = store_all (stored to_float sealer supplied) defs"
proof -
  have "sort (filter (\<lambda>k. k \<notin> attr_name ` set defs) (map fst supplied)) = [] \<longleftrightarrow> fst ` set supplied \<subseteq> attr_name ` set defs"
    by (auto simp: filter_empty_conv simp flip: set_empty)
  moreover have "res_fold (\<lambda>_ a. validate_def a) () defs = Inr u \<longleftrightarrow> (\<forall>a \<in> set defs. validate_def a = Inr ())" for u
    using validated_iff [of defs] by simp
  ultimately show ?thesis using resolve_loop [OF assms, of to_float supplied defs]
    by (auto simp: resolve_run_inputs_def res_bind_Inr_iff list_all_iff case_prod_unfold Let_def)
qed

lemma stored_typed:
  assumes "\<forall>t. is_sealed_secret (sealer t)" and sat: "satisfied to_float sealer supplied a"
    and st: "stored to_float sealer supplied a = Some v"
  shows "if attr_name a \<in> fst ` set supplied then has_type a v else v = attr_default a \<and> v \<noteq> JNull"
proof (cases "map_of supplied (attr_name a)")
  case None
  then have "attr_name a \<notin> fst ` set supplied" using map_of_None_iff [of supplied "attr_name a"] by blast
  with None st show ?thesis by (auto simp: stored_def split: if_splits)
next
  case (Some w)
  have "snd (coerce to_float sealer a w []) = []" using sat Some by (simp add: satisfied_def)
  then have "has_type a (fst (coerce to_float sealer a w []))"
    using coerce_typed [OF assms(1), of a to_float w] by (auto simp: typed_or_error_def)
  then show ?thesis using st Some map_of_Some_key [OF Some] by (simp add: stored_def)
qed

lemma satisfied_required: "satisfied to_float sealer supplied a \<Longrightarrow> attr_required a \<Longrightarrow> stored to_float sealer supplied a \<noteq> None"
  by (cases "map_of supplied (attr_name a)") (auto simp: satisfied_def stored_def)

text \<open>A stored value of the declared type, supplied again, is stored again.\<close>

lemma replay_one:
  assumes "map_of r (attr_name a) = stored to_float sealer supplied a" and "satisfied to_float sealer supplied a"
    and "\<And>v. stored to_float sealer supplied a = Some v \<Longrightarrow> has_type a v"
  shows "stored to_float sealer r a = stored to_float sealer supplied a" and "satisfied to_float sealer r a"
proof (atomize (full), cases "stored to_float sealer supplied a")
  case None
  then have "\<not> attr_required a" using satisfied_required [OF assms(2)] by blast
  moreover have "attr_default a = JNull" using None by (auto simp: stored_def split: option.splits if_splits)
  ultimately show "stored to_float sealer r a = stored to_float sealer supplied a \<and> satisfied to_float sealer r a"
    using None assms(1) by (simp add: stored_def [of _ _ r] satisfied_def [of _ _ r])
next
  case (Some v)
  have "coerce to_float sealer a v [] = (v, [])" by (rule coerce_fixed [OF assms(3) [OF Some]])
  with Some assms(1) show "stored to_float sealer r a = stored to_float sealer supplied a \<and> satisfied to_float sealer r a"
    by (simp add: stored_def [of _ _ r] satisfied_def [of _ _ r])
qed


definition demo_inputs :: "static_attribute_def list" where
  "demo_inputs =
     [\<lparr>attr_name = ''site'', attr_type = ''string'', ref_kind = None, attr_default = JStr ''lab'', attr_required = False\<rparr>,
      \<lparr>attr_name = ''inventory'', attr_type = ''reference'', ref_kind = Some ''inventory'', attr_default = JNull, attr_required = True\<rparr>,
      \<lparr>attr_name = ''enable'', attr_type = ''secret'', ref_kind = None, attr_default = JNull, attr_required = False\<rparr>]"

definition demo_sealer :: "string \<Rightarrow> json" where
  "demo_sealer t = JObj [(SEALED_MARKER, JBool True), (''v'', JInt 2), (''ct'', JStr (rev t))]"

definition demo_supplied :: jdict where
  "demo_supplied = [(''inventory'', JStr '' 12''), (''enable'', JStr ''topsecret'')]"

definition demo_resolved :: jdict where
  "demo_resolved = [(''site'', JStr ''lab''), (''inventory'', JInt 12), (''enable'', demo_sealer ''topsecret'')]"


text \<open>A default is stored without a look at its type, and replaying it is then refused.\<close>

lemma default_not_checked:
  "resolve_run_inputs tf sl [\<lparr>attr_name = ''n'', attr_type = ''string'', ref_kind = None, attr_default = JInt 5, attr_required = False\<rparr>] []
     = Inr [(''n'', JInt 5)]
   \<and> isl (resolve_run_inputs tf sl [\<lparr>attr_name = ''n'', attr_type = ''string'', ref_kind = None, attr_default = JInt 5, attr_required = False\<rparr>]
       [(''n'', JInt 5)])"
  by (simp add: resolve_run_inputs_def validate_def_def check_ref_kind_def StaticAttributeType_def resolve_one_def coerce_def reject_def)

end
