(* ===== verification/Platform.thy ===== *)
theory Platform
  imports Run_Inputs Step_Runner Rbac_Service
begin

text \<open>
  The shared state of the run and change-request services: the run tables, the workflow table
  (\<open>core/models/workflows.py\<close>), the change-request table (\<open>core/models/change_requests.py\<close> with
  \<open>repositories/change_request_repository.py\<close>), the RBAC tables and the dispatch breaker of the
  process (\<open>services/execution/dispatch_breaker.py\<close>), and the part of
  \<open>services/change_requests/change_request_service.py\<close> that the run service calls back
  (reconciliation). Timestamps are integers, in seconds.
\<close>

section \<open>Workflows\<close>

record workflow = workflow_row +
  wf_name :: string
  creator_id :: "nat option"
  visibility :: string
  canvas_groups :: "json list"
  static_attributes :: "static_attribute_def list"
  ai_released :: bool
  ai_description :: "string option"
  ai_result_node_id :: "string option"
  ai_devices_input :: "string option"
  ai_credential_inputs :: "string list"
  ai_allow_free_ip :: bool
  ai_release_stamp :: "string option"

section \<open>Change requests\<close>

record cr_row =
  cr_id :: nat
  source_workflow_id :: "nat option"
  source_run_id :: "nat option"
  deploy_workflow_id :: "nat option"
  deploy_run_id :: "nat option"
  git_repository_id :: "nat option"
  base_branch :: "string option"
  cr_branch :: "string option"
  commit_sha :: "string option"
  cr_title :: "string option"
  cr_device_ids :: "string list"
  cr_devices :: "json list"
  cr_run_inputs :: jdict
  diff_artifact_id :: "string option"
  diff_stats :: "jdict option"
  cr_status :: string
  approved_by_id :: "nat option"
  approved_via :: "string option"
  approved_at :: "int option"
  rejected_by_id :: "nat option"
  rejected_at :: "int option"
  reject_reason :: "string option"
  deploy_error :: "string option"
  expires_at :: "int option"
  cr_updated_at :: int

record platform =
  pdb :: db
  flows :: "workflow list"
  auth :: rbac
  crs :: "cr_row list"
  next_cr :: nat
  open_until :: int

definition get_workflow :: "platform \<Rightarrow> nat \<Rightarrow> workflow option" where
  "get_workflow s i = List.find (\<lambda>w. wf_id w = i) (flows s)"

definition CR_ACTIVE_STATUSES :: "string set" where
  "CR_ACTIVE_STATUSES = {''staged'', ''approved'', ''deploying''}"

definition get_cr :: "platform \<Rightarrow> nat \<Rightarrow> cr_row option" where
  "get_cr s i = List.find (\<lambda>c. cr_id c = i) (crs s)"

text \<open>The partial unique index \<open>uq_change_requests_active_commit\<close>; nulls never collide.\<close>

definition same_commit :: "cr_row \<Rightarrow> cr_row \<Rightarrow> bool" where
  "same_commit c d \<longleftrightarrow> git_repository_id c \<noteq> None \<and> commit_sha c \<noteq> None
     \<and> git_repository_id c = git_repository_id d \<and> commit_sha c = commit_sha d"

text \<open>The caller's columns come in a row; the id, the status and the review columns are set here.\<close>

definition cr_create :: "platform \<Rightarrow> int \<Rightarrow> cr_row \<Rightarrow> (platform \<times> cr_row) res" where
  "cr_create s now draft =
     (if list_ex (\<lambda>c. same_commit draft c \<and> cr_status c \<in> CR_ACTIVE_STATUSES) (crs s)
      then Inl (ConflictError ''An active change request already exists for this repository and commit'')
      else let c = draft\<lparr>cr_id := next_cr s, deploy_run_id := None, cr_status := ''staged'', approved_by_id := None,
                 approved_via := None, approved_at := None, rejected_by_id := None, rejected_at := None,
                 reject_reason := None, deploy_error := None, cr_updated_at := now\<rparr>
           in Inr (s\<lparr>crs := crs s @ [c], next_cr := next_cr s + 1\<rparr>, c))"

definition find_active_for_commit :: "platform \<Rightarrow> nat \<Rightarrow> string \<Rightarrow> cr_row option" where
  "find_active_for_commit s repo sha =
     List.find (\<lambda>c. git_repository_id c = Some repo \<and> commit_sha c = Some sha \<and> cr_status c \<in> CR_ACTIVE_STATUSES)
       (rev (sort_key cr_id (crs s)))"

definition exists_open_deploy :: "platform \<Rightarrow> nat \<Rightarrow> bool" where
  "exists_open_deploy s w = list_ex (\<lambda>c. deploy_workflow_id c = Some w \<and> cr_status c \<in> CR_ACTIVE_STATUSES) (crs s)"

definition list_visible_crs :: "platform \<Rightarrow> nat \<Rightarrow> string list option \<Rightarrow> cr_row list" where
  "list_visible_crs s user statuses =
     rev (sort_key cr_id (filter (\<lambda>c.
        (case source_workflow_id c of
           None \<Rightarrow> True
         | Some w \<Rightarrow> (case get_workflow s w of
              None \<Rightarrow> False
            | Some f \<Rightarrow> visibility f = ''public'' \<or> creator_id f = Some user))
        \<and> (case statuses of Some (x # xs) \<Rightarrow> cr_status c \<in> set (x # xs) | _ \<Rightarrow> True)) (crs s)))"

definition list_in_flight :: "platform \<Rightarrow> cr_row list" where
  "list_in_flight s = filter (\<lambda>c. cr_status c \<in> {''approved'', ''deploying''}) (crs s)"

definition list_expired_candidates :: "platform \<Rightarrow> int \<Rightarrow> cr_row list" where
  "list_expired_candidates s now =
     filter (\<lambda>c. cr_status c = ''staged'' \<and> (case expires_at c of None \<Rightarrow> False | Some t \<Rightarrow> t < now)) (crs s)"

datatype cr_field =
    ApprovedBy "nat option" | ApprovedVia "string option" | ApprovedAt "int option"
  | RejectedBy "nat option" | RejectedAt "int option" | RejectReason "string option" | DeployError "string option"

fun set_cr_field :: "cr_field \<Rightarrow> cr_row \<Rightarrow> cr_row" where
  "set_cr_field (ApprovedBy v) c = c\<lparr>approved_by_id := v\<rparr>"
| "set_cr_field (ApprovedVia v) c = c\<lparr>approved_via := v\<rparr>"
| "set_cr_field (ApprovedAt v) c = c\<lparr>approved_at := v\<rparr>"
| "set_cr_field (RejectedBy v) c = c\<lparr>rejected_by_id := v\<rparr>"
| "set_cr_field (RejectedAt v) c = c\<lparr>rejected_at := v\<rparr>"
| "set_cr_field (RejectReason v) c = c\<lparr>reject_reason := v\<rparr>"
| "set_cr_field (DeployError v) c = c\<lparr>deploy_error := v\<rparr>"

text \<open>The conditional update: the new state, and whether exactly one row matched.\<close>

definition cr_values :: "string \<Rightarrow> int \<Rightarrow> cr_field list \<Rightarrow> cr_row \<Rightarrow> cr_row" where
  "cr_values new_status now flds c = (foldl (\<lambda>c f. set_cr_field f c) c flds)\<lparr>cr_status := new_status, cr_updated_at := now\<rparr>"

definition cr_transition :: "platform \<Rightarrow> int \<Rightarrow> nat \<Rightarrow> string set \<Rightarrow> string \<Rightarrow> cr_field list \<Rightarrow> platform \<times> bool" where
  "cr_transition s now i expected new_status flds =
     (let hit = (\<lambda>c. cr_id c = i \<and> cr_status c \<in> expected)
      in (s\<lparr>crs := map (\<lambda>c. if hit c then cr_values new_status now flds c else c) (crs s)\<rparr>,
          length (filter hit (crs s)) = 1))"

section \<open>Reconciliation\<close>

definition DEPLOY_START_GRACE :: int where
  "DEPLOY_START_GRACE = 15 * 60"

definition cr_fail :: "platform \<Rightarrow> int \<Rightarrow> nat \<Rightarrow> string \<Rightarrow> platform" where
  "cr_fail s now i message = fst (cr_transition s now i {''deploying''} ''failed'' [DeployError (Some message)])"

definition reconcile :: "platform \<Rightarrow> int \<Rightarrow> cr_row \<Rightarrow> platform" where
  "reconcile s now c =
     (if cr_status c \<noteq> ''deploying'' then s
      else case deploy_run_id c of
        None \<Rightarrow> if now - cr_updated_at c > DEPLOY_START_GRACE then cr_fail s now (cr_id c) ''The deploy run was never created'' else s
      | Some i \<Rightarrow>
         (case get_run (pdb s) i of
            None \<Rightarrow> cr_fail s now (cr_id c) ''The deploy run no longer exists''
          | Some r \<Rightarrow>
              if run_status r = ''success'' then fst (cr_transition s now (cr_id c) {''deploying''} ''deployed'' [])
              else if run_status r \<in> {''failed'', ''cancelled''}
              then cr_fail s now (cr_id c)
                     (if or_empty (run_error_message r) = [] then ''Deploy run '' @ run_status r else or_empty (run_error_message r))
              else s))"

definition maybe_reconcile_deploy_run :: "platform \<Rightarrow> int \<Rightarrow> run_row \<Rightarrow> platform" where
  "maybe_reconcile_deploy_run s now run =
     (case change_request_id run of
        None \<Rightarrow> s
      | Some i \<Rightarrow> (case get_cr s i of None \<Rightarrow> s | Some c \<Rightarrow> reconcile s now c))"

definition reconcile_all_in_flight :: "platform \<Rightarrow> int \<Rightarrow> platform" where
  "reconcile_all_in_flight s now =
     foldl (\<lambda>s i. case get_cr s i of None \<Rightarrow> s | Some c \<Rightarrow> reconcile s now c) s (map cr_id (list_in_flight s))"

definition expire_sweep :: "platform \<Rightarrow> int \<Rightarrow> platform" where
  "expire_sweep s now =
     foldl (\<lambda>s i. fst (cr_transition s now i {''staged''} ''expired'' [])) s (map cr_id (list_expired_candidates s now))"

section \<open>The dispatch breaker\<close>

definition DEFAULT_OPEN_SECONDS :: int where
  "DEFAULT_OPEN_SECONDS = 15"

definition breaker_is_open :: "platform \<Rightarrow> int \<Rightarrow> bool" where
  "breaker_is_open s clock \<longleftrightarrow> clock < open_until s"

definition record_failure :: "platform \<Rightarrow> int \<Rightarrow> platform" where
  "record_failure s clock = s\<lparr>open_until := clock + DEFAULT_OPEN_SECONDS\<rparr>"

definition record_success :: "platform \<Rightarrow> platform" where
  "record_success s = s\<lparr>open_until := 0\<rparr>"

end
