(* ===== verification/Run_Service.thy ===== *)
theory Run_Service
  imports Platform
begin

text \<open>
  \<open>services/execution/run_service.py\<close>: starting, chaining, cancelling, deleting and approving runs.
  Collaborators outside this theory are arguments (\<open>service_env\<close>): the pre-run validation, the Hatchet
  engine (a call that raises is \<open>None\<close> or \<open>False\<close>), clocks and fresh identifiers. \<open>meanwhile\<close> is what other
  processes commit while a child run is being handed to the engine.
\<close>

record service_env =
  validation_errors :: "workflow \<Rightarrow> nat option \<Rightarrow> string list"
  run_no_wait :: "nat \<Rightarrow> workflow \<Rightarrow> string option"
  hatchet_cancel :: "string \<Rightarrow> bool"
  push_event :: "string \<Rightarrow> bool"
  to_float :: "string \<Rightarrow> rat option"
  sealer :: "string \<Rightarrow> json"
  utc_now :: int
  mono_clock :: int
  new_uuid :: string
  new_error_id :: string
  meanwhile :: "platform \<Rightarrow> platform"

definition MAX_CHILD_RUN_DEPTH :: nat where
  "MAX_CHILD_RUN_DEPTH = 3"

definition ENGINE_UNAVAILABLE_MESSAGE :: string where
  "ENGINE_UNAVAILABLE_MESSAGE = ''The workflow execution engine is unavailable. Try again in a minute.''"

section \<open>Access\<close>

definition assert_workflow_access :: "platform \<Rightarrow> nat \<Rightarrow> nat \<Rightarrow> workflow res" where
  "assert_workflow_access s w user =
     (case get_workflow s w of
        None \<Rightarrow> Inl (NotFoundError ''Workflow not found'')
      | Some f \<Rightarrow> if visibility f = ''private'' \<and> creator_id f \<noteq> Some user
                 then Inl (AccessDeniedError ''Access denied'') else Inr f)"

definition run_owner_id :: "platform \<Rightarrow> run_row \<Rightarrow> nat option" where
  "run_owner_id s run =
     (case triggered_by_id run of
        Some u \<Rightarrow> Some u
      | None \<Rightarrow> (case get_workflow s (run_workflow_id run) of None \<Rightarrow> None | Some f \<Rightarrow> creator_id f))"

definition assert_run_control :: "platform \<Rightarrow> run_row \<Rightarrow> nat \<Rightarrow> bool \<Rightarrow> unit res" where
  "assert_run_control s run user allow_admin =
     (if run_owner_id s run = Some user then Inr ()
      else if allow_admin \<and> has_role (auth s) user ''admin'' then Inr ()
      else Inl (AccessDeniedError ''Only the user who started this run can do that''))"

section \<open>Starting runs\<close>

definition assert_no_blocking_validation_errors :: "service_env \<Rightarrow> workflow \<Rightarrow> nat option \<Rightarrow> unit res" where
  "assert_no_blocking_validation_errors env f user =
     (if validation_errors env f user = [] then Inr ()
      else Inl (ValidationFailedError (''Cannot run: workflow has unresolved validation errors: '' @
             join ''; '' (validation_errors env f user))))"

definition label_run :: "db \<Rightarrow> nat \<Rightarrow> nat option \<Rightarrow> string option \<Rightarrow> db" where
  "label_run d i cr node =
     (if cr \<noteq> None \<or> node \<noteq> None
      then d\<lparr>runs := map (\<lambda>r. if run_id r = i then r\<lparr>change_request_id := cr, run_ai_result_node_id := node\<rparr> else r) (runs d)\<rparr>
      else d)"

definition dispatch_failed :: "service_env \<Rightarrow> platform \<Rightarrow> nat \<Rightarrow> platform \<times> run_row res" where
  "dispatch_failed env s i =
     (s\<lparr>pdb := update_run_status (pdb s) i ''failed''
          [ErrorMessage (Some ''Workflow execution engine unavailable''), ErrorCategory (Some ''internal''),
           ErrorId (Some (new_error_id env))] False\<rparr>,
      Inl (OtherError ENGINE_UNAVAILABLE_MESSAGE))"

definition reload_run :: "platform \<Rightarrow> run_row \<Rightarrow> run_row" where
  "reload_run s r = (case get_run (pdb s) (run_id r) of None \<Rightarrow> r | Some r' \<Rightarrow> r')"

definition create_and_dispatch_run :: "service_env \<Rightarrow> platform \<Rightarrow> workflow \<Rightarrow> nat option \<Rightarrow> string \<Rightarrow> string list \<Rightarrow> jdict \<Rightarrow>
    nat option \<Rightarrow> nat option \<Rightarrow> nat list option \<Rightarrow> string option \<Rightarrow> platform \<times> run_row res" where
  "create_and_dispatch_run env s f user trigger devs inputs cr parent ancestors node =
     (case assert_no_blocking_validation_errors env f user of
        Inl e \<Rightarrow> (s, Inl e)
      | Inr _ \<Rightarrow>
          (let (d, r) = create_run (pdb s) (new_uuid env) (wf_id f) user trigger devs inputs parent ancestors (utc_now env);
               s1 = s\<lparr>pdb := label_run d (run_id r) cr node\<rparr>
           in if breaker_is_open s1 (mono_clock env) then dispatch_failed env s1 (run_id r)
              else case run_no_wait env (run_id r) f of
                     None \<Rightarrow> dispatch_failed env (record_failure s1 (mono_clock env)) (run_id r)
                   | Some h \<Rightarrow>
                       (let s2 = record_success s1;
                            s3 = s2\<lparr>pdb := record_hatchet_run_id (pdb s2) (run_id r) h\<rparr>
                        in (s3, Inr (reload_run s3 r)))))"

definition resolved_inputs :: "service_env \<Rightarrow> workflow \<Rightarrow> jdict \<Rightarrow> jdict res" where
  "resolved_inputs env f inputs =
     (case resolve_run_inputs (to_float env) (sealer env) (static_attributes f) inputs of
        Inl (RunInputValidationError m) \<Rightarrow> Inl (ValidationFailedError m)
      | r \<Rightarrow> r)"

definition trigger_run :: "service_env \<Rightarrow> platform \<Rightarrow> nat \<Rightarrow> string \<Rightarrow> string list \<Rightarrow> jdict \<Rightarrow> nat \<Rightarrow> platform \<times> run_row res" where
  "trigger_run env s w trigger devs inputs user =
     (case assert_workflow_access s w user of
        Inl e \<Rightarrow> (s, Inl e)
      | Inr f \<Rightarrow>
     (case resolved_inputs env f inputs of
        Inl e \<Rightarrow> (s, Inl e)
      | Inr resolved \<Rightarrow> create_and_dispatch_run env s f (Some user) trigger devs resolved None None None None))"

section \<open>Child runs\<close>

definition require_child_target :: "platform \<Rightarrow> run_row \<Rightarrow> nat \<Rightarrow> workflow res" where
  "require_child_target s parent w =
     (case triggered_by_id parent of
        None \<Rightarrow> Inl (ValidationFailedError ''A workflow can only be started from a run that has a triggering user'')
      | Some user \<Rightarrow>
          res_bind (assert_workflow_access s w user) (\<lambda>f.
            if \<not> has_permission (auth s) user ''workflows'' ''execute''
            then Inl (AccessDeniedError ''You are not allowed to run workflows'') else Inr f))"

definition child_run_ancestors :: "run_row \<Rightarrow> nat \<Rightarrow> nat list res" where
  "child_run_ancestors parent w =
     (let chain = (case ancestor_workflow_ids parent of None \<Rightarrow> [] | Some xs \<Rightarrow> xs) @ [run_workflow_id parent] in
      if w \<in> set chain
      then Inl (ValidationFailedError ''A workflow cannot start itself, directly or through the workflows that started it'')
      else if length chain > MAX_CHILD_RUN_DEPTH
      then Inl (ValidationFailedError (''Workflows can start other workflows at most '' @ nat_str MAX_CHILD_RUN_DEPTH @ '' levels deep''))
      else Inr chain)"

definition parent_is_active :: "platform \<Rightarrow> nat \<Rightarrow> bool" where
  "parent_is_active s i = (case get_run (pdb s) i of None \<Rightarrow> False | Some r \<Rightarrow> run_status r \<in> ACTIVE_RUN_STATUSES)"

definition assert_parent_active :: "platform \<Rightarrow> run_row \<Rightarrow> unit res" where
  "assert_parent_active s parent =
     (if parent_is_active s (run_id parent) then Inr ()
      else Inl (ValidationFailedError (''The calling run is no longer active ('' @ run_status (reload_run s parent) @
             ''); it cannot start another workflow'')))"

section \<open>Cancellation\<close>

definition cancel_active_run :: "service_env \<Rightarrow> platform \<Rightarrow> nat \<Rightarrow> platform \<times> bool" where
  "cancel_active_run env s i =
     (let (d, won) = transition_run (pdb s) i ''cancelled'' None [FinishedAt (Some (utc_now env))] in
      if \<not> won then (s\<lparr>pdb := d\<rparr>, False)
      else let d1 = finalise_open_step_results d i ''Cancelled by the operator'' (utc_now env);
               engine_id = (case get_run d1 i of None \<Rightarrow> [] | Some r \<Rightarrow> or_empty (hatchet_run_id r));
               d2 = (if engine_id = [] \<or> hatchet_cancel env engine_id then d1
                     else fst (transition_run d1 i ''cancelled'' (Some {''cancelled''})
                            [DebugMessage (Some (''The engine could not be reached; the run is cancelled here and the '' @
                               ''worker stops at the next step boundary.''))]))
           in (s\<lparr>pdb := d2\<rparr>, True))"

definition cancel_if_active :: "service_env \<Rightarrow> platform \<Rightarrow> nat \<Rightarrow> platform" where
  "cancel_if_active env s i = (if parent_is_active s i then fst (cancel_active_run env s i) else s)"

lemma ids_transition: "map run_id (runs (fst (transition_run d i st src fs))) = map run_id (runs d)"
  by (auto simp: transition_run_def Let_def)

lemma ids_cancel: "map run_id (runs (pdb (fst (cancel_active_run env s i)))) = map run_id (runs (pdb s))"
  using ids_transition by (auto simp: cancel_active_run_def Let_def case_prod_unfold)

lemma ids_cancel_if: "map run_id (runs (pdb (cancel_if_active env s i))) = map run_id (runs (pdb s))"
  by (simp add: cancel_if_active_def ids_cancel)

lemma children_ids: "set (map run_id (list_children d i)) \<subseteq> set (map run_id (runs d))"
  by (auto simp: list_children_def)

text \<open>The recursive walk with its shared set of visited runs, as a stack: after a child come its own
  children, then its siblings. The result is the state and the visited set.\<close>

function cancel_walk :: "service_env \<Rightarrow> nat list \<Rightarrow> nat set \<Rightarrow> platform \<Rightarrow> platform \<times> nat set" where
  "cancel_walk env [] seen s = (s, seen)"
| "cancel_walk env (c # cs) seen s =
     (if c \<in> seen then cancel_walk env cs seen s
      else let s1 = cancel_if_active env s c
           in cancel_walk env (map run_id (list_children (pdb s1) c) @ cs) (insert c seen) s1)"
  by pat_completeness auto
termination
proof (relation "inv_image (finite_psubset <*lex*> less_than)
         (\<lambda>(env, cs, seen, s). ((set (map run_id (runs (pdb s))) \<union> set cs) - seen, length cs))", goal_cases)
  case (2 env c cs seen s)
  then show ?case by (auto simp: finite_psubset_def)
next
  case (3 env c cs seen s x)
  have "set (map run_id (runs (pdb x))) = set (map run_id (runs (pdb s)))" using 3(2) ids_cancel_if by metis
  moreover have "set (map run_id (list_children (pdb x) c)) \<subseteq> set (map run_id (runs (pdb x)))" by (rule children_ids)
  ultimately have "(set (map run_id (runs (pdb x))) \<union> set (map run_id (list_children (pdb x) c) @ cs)) - insert c seen
      \<subset> (set (map run_id (runs (pdb s))) \<union> set (c # cs)) - seen" using 3(1) by auto
  then show ?case by (auto simp: finite_psubset_def)
qed auto

definition cancel_child_runs :: "service_env \<Rightarrow> nat \<Rightarrow> platform \<Rightarrow> platform" where
  "cancel_child_runs env parent s = fst (cancel_walk env (map run_id (list_children (pdb s) parent)) {parent} s)"

definition start_child_run :: "service_env \<Rightarrow> platform \<Rightarrow> run_row \<Rightarrow> nat \<Rightarrow> jdict \<Rightarrow> platform \<times> run_row res" where
  "start_child_run env s parent w inputs =
     (case assert_parent_active s parent of
        Inl e \<Rightarrow> (s, Inl e)
      | Inr _ \<Rightarrow>
     (case require_child_target s parent w of
        Inl e \<Rightarrow> (s, Inl e)
      | Inr f \<Rightarrow>
     (case child_run_ancestors parent (wf_id f) of
        Inl e \<Rightarrow> (s, Inl e)
      | Inr ancestors \<Rightarrow>
     (case resolved_inputs env f inputs of
        Inl e \<Rightarrow> (s, Inl e)
      | Inr resolved \<Rightarrow>
     (case create_and_dispatch_run env s f (triggered_by_id parent) ''workflow'' [] resolved None (Some (run_id parent))
             (Some ancestors) None of
        (s1, Inl e) \<Rightarrow> (s1, Inl e)
      | (s1, Inr child) \<Rightarrow>
          (let s2 = meanwhile env s1 in
           if parent_is_active s2 (run_id parent) then (s2, Inr child)
           else (fst (cancel_active_run env s2 (run_id child)),
                 Inl (ValidationFailedError (''The calling run ended ('' @ run_status (reload_run s2 parent) @
                        '') while the workflow was being started''))))))))) "

definition cancel_run :: "service_env \<Rightarrow> platform \<Rightarrow> nat \<Rightarrow> nat \<Rightarrow> platform \<times> run_row res" where
  "cancel_run env s i user =
     (case get_run (pdb s) i of
        None \<Rightarrow> (s, Inl (NotFoundError ''Run not found''))
      | Some run \<Rightarrow>
     (case assert_workflow_access s (run_workflow_id run) user of
        Inl e \<Rightarrow> (s, Inl e)
      | Inr _ \<Rightarrow>
     (case assert_run_control s run user True of
        Inl e \<Rightarrow> (s, Inl e)
      | Inr _ \<Rightarrow>
          if run_status run \<notin> {''pending'', ''running'', ''paused''}
          then (s, Inl (ValidationFailedError (''Cannot cancel a run with status '' @ py_repr (run_status run))))
          else let (s1, won) = cancel_active_run env s i in
               if \<not> won
               then (s1, Inl (ConflictError (''Run already finished with status '' @ py_repr (run_status (reload_run s1 run)))))
               else let s2 = cancel_child_runs env i s1;
                        s3 = maybe_reconcile_deploy_run s2 (utc_now env) (reload_run s2 run)
                    in (s3, Inr (reload_run s3 run)))))"

section \<open>Deletion and approval\<close>

text \<open>Artifacts and log files of the run are removed from disk as well.\<close>

definition service_delete_run :: "platform \<Rightarrow> nat \<Rightarrow> nat \<Rightarrow> platform \<times> unit res" where
  "service_delete_run s i user =
     (case get_run (pdb s) i of
        None \<Rightarrow> (s, Inl (NotFoundError ''Run not found''))
      | Some run \<Rightarrow>
     (case assert_workflow_access s (run_workflow_id run) user of
        Inl e \<Rightarrow> (s, Inl e)
      | Inr _ \<Rightarrow>
     (case assert_run_control s run user True of
        Inl e \<Rightarrow> (s, Inl e)
      | Inr _ \<Rightarrow>
          if run_status run \<notin> TERMINAL_RUN_STATUSES
          then (s, Inl (ValidationFailedError (''Cannot delete a run with status '' @ py_repr (run_status run) @
                 ''; only finished runs can be deleted'')))
          else (s\<lparr>pdb := delete_run (pdb s) i,
                  crs := map (\<lambda>c. if deploy_run_id c = Some i then c\<lparr>deploy_run_id := None\<rparr> else c) (crs s)\<rparr>, Inr ()))))"

definition require_awaiting_batch :: "platform \<Rightarrow> nat \<Rightarrow> nat \<Rightarrow> (run_row \<times> jdict) res" where
  "require_awaiting_batch s i user =
     (case get_run (pdb s) i of
        None \<Rightarrow> Inl (NotFoundError ''Run not found'')
      | Some run \<Rightarrow>
          res_bind (assert_workflow_access s (run_workflow_id run) user) (\<lambda>_.
          res_bind (assert_run_control s run user False) (\<lambda>_.
          let state = (case approval_state run of None \<Rightarrow> [] | Some st \<Rightarrow> st) in
          if run_status run \<noteq> ''paused'' \<or> \<not> truthy (dget state ''awaiting'' JNull)
          then Inl (ConflictError (''Run is not awaiting batch approval (status='' @ py_repr (run_status run) @ '')''))
          else Inr (run, state))))"

text \<open>\<open>batch_approval_event_key\<close> (\<open>services/execution/run_events.py\<close>) and the push of the event.\<close>

definition batch_approval_event_key :: "string \<Rightarrow> nat \<Rightarrow> string" where
  "batch_approval_event_key uuid n = ''workflow-run.'' @ uuid @ ''.batch.'' @ nat_str n"

definition push_batch_event :: "service_env \<Rightarrow> run_row \<Rightarrow> nat \<Rightarrow> unit res" where
  "push_batch_event env run n =
     (if push_event env (batch_approval_event_key (run_uuid run) n) then Inr ()
      else Inl (OtherError ENGINE_UNAVAILABLE_MESSAGE))"

text \<open>The index in the approval state is written by the worker as a non-negative integer.\<close>

definition next_batch_index :: "jdict \<Rightarrow> nat res" where
  "next_batch_index state = (case map_of state ''next_batch_index'' of Some (JInt n) \<Rightarrow> Inr (nat n) | _ \<Rightarrow> Inl (KeyError ''next_batch_index''))"

definition approve_batch :: "service_env \<Rightarrow> platform \<Rightarrow> nat \<Rightarrow> nat \<Rightarrow> run_row res" where
  "approve_batch env s i user =
     res_bind (require_awaiting_batch s i user) (\<lambda>(run, state).
     res_bind (next_batch_index state) (\<lambda>n.
     res_bind (push_batch_event env run n) (\<lambda>_. Inr run)))"

definition approve_all :: "service_env \<Rightarrow> platform \<Rightarrow> nat \<Rightarrow> nat \<Rightarrow> platform \<times> run_row res" where
  "approve_all env s i user =
     (case require_awaiting_batch s i user of
        Inl e \<Rightarrow> (s, Inl e)
      | Inr (run, state) \<Rightarrow>
          (let s1 = s\<lparr>pdb := update_run_status (pdb s) i ''paused''
                       [ApprovalState (Some (AList.update ''auto_approve_remaining'' (JBool True) state))] False\<rparr>
           in (s1, res_bind (next_batch_index state) (\<lambda>n.
                   res_bind (push_batch_event env run n) (\<lambda>_. Inr (reload_run s1 run))))))"

section \<open>Snapshots\<close>

definition STEP_STATUS_SEVERITY :: "string \<Rightarrow> nat" where
  "STEP_STATUS_SEVERITY st = (if st = ''failed'' then 4 else if st = ''partial'' then 3 else if st = ''skipped'' then 2
     else if st = ''success'' then 1 else 0)"

fun worst_status :: "string list \<Rightarrow> string option" where
  "worst_status [] = None"
| "worst_status (x # xs) =
     (case worst_status xs of
        None \<Rightarrow> Some x
      | Some y \<Rightarrow> Some (if STEP_STATUS_SEVERITY x < STEP_STATUS_SEVERITY y then y else x))"

record child_run_snapshot =
  snap_run_id :: nat
  snap_status :: string
  snap_error_message :: "string option"
  worst_step_status :: "string option"
  step_statuses :: "(string, string) dict"

definition take_snapshot :: "platform \<Rightarrow> nat \<Rightarrow> child_run_snapshot res" where
  "take_snapshot s i =
     (case get_run (pdb s) i of
        None \<Rightarrow> Inl (NotFoundError ''Run not found'')
      | Some run \<Rightarrow>
          (let rows = get_step_results_for_run (pdb s) i in
           Inr \<lparr>snap_run_id = run_id run, snap_status = run_status run, snap_error_message = run_error_message run,
                worst_step_status = worst_status (map sr_status rows),
                step_statuses = dict_of (map (\<lambda>x. (sr_node_id x, sr_status x)) rows)\<rparr>))"

end
