(* ===== verification/Run_Cancellation.thy ===== *)
theory Run_Cancellation
  imports Run_Service
begin

text \<open>
  Cancelling a run: its effect on the run rows and step rows, the walk through the runs it caused, and who
  may do it.
\<close>

section \<open>One run\<close>

text \<open>Links between runs, by id.\<close>

definition child_of :: "db \<Rightarrow> (nat \<times> nat) set" where
  "child_of d = {(p, run_id r) | p r. r \<in> set (runs d) \<and> parent_run_id r = Some p}"

lemma children_eq: "set (map run_id (list_children d i)) = child_of d `` {i}"
  by (auto simp: list_children_def child_of_def)

definition links :: "db \<Rightarrow> (nat \<times> nat option) list" where
  "links d = map (\<lambda>r. (run_id r, parent_run_id r)) (runs d)"

lemma child_of_links: "child_of d = {(p, k). (k, Some p) \<in> set (links d)}"
  by (auto simp: child_of_def links_def)

lemma set_field_parent [simp]: "parent_run_id (set_field f r) = parent_run_id r"
  by (cases f) simp_all

lemma set_fields_parent [simp]: "parent_run_id (foldl (\<lambda>r f. set_field f r) r fs) = parent_run_id r"
  by (induction fs arbitrary: r) simp_all

lemma transition_values_parent [simp]: "parent_run_id (transition_values st fs r) = parent_run_id r"
  by (simp add: transition_values_def Let_def)

lemma links_transition [simp]: "links (fst (transition_run d i st src fs)) = links d"
  by (auto simp: links_def transition_run_def Let_def)

lemma links_finalise [simp]: "links (finalise_open_step_results d i m now) = links d"
  by (simp add: links_def)

text \<open>What the cancellation of run \<open>i\<close> does.\<close>

definition open_rows :: "db \<Rightarrow> nat \<Rightarrow> bool" where
  "open_rows d i \<longleftrightarrow> (\<exists>x \<in> set (steps d). sr_run_id x = i \<and> sr_status x \<in> {''running'', ''pending''})"

lemma open_rows_finalise: "open_rows (finalise_open_step_results d i m now) k \<longleftrightarrow> k \<noteq> i \<and> open_rows d k"
proof -
  have "sr_status (finalise_step i m now x) \<in> {''running'', ''pending''} \<longleftrightarrow> sr_run_id x \<noteq> i \<and> sr_status x \<in> {''running'', ''pending''}" for x
    by (auto simp: finalise_step_def)
  then show ?thesis by (auto simp: open_rows_def finalise_open_step_results_def)
qed

lemma get_run_id: "get_run d k = Some r \<Longrightarrow> run_id r = k"
  by (auto simp: get_run_def dest: find_key_mem)

lemma steps_transition [simp]: "steps (fst (transition_run d i st src fs)) = steps d"
  by (simp add: transition_run_def Let_def)

lemma open_rows_transition [simp]: "open_rows (fst (transition_run d i st src fs)) k = open_rows d k"
  by (simp add: open_rows_def)

lemma get_run_finalise [simp]: "get_run (finalise_open_step_results d i m now) k = get_run d k"
  by (simp add: get_run_def)

lemma get_run_transition_other: "k \<noteq> i \<Longrightarrow> get_run (fst (transition_run d i st src fs)) k = get_run d k"
  by (cases "get_run d k") (auto simp: get_run_transition dest: get_run_id)

lemma transition_won:
  assumes "db_ok d"
  shows "snd (transition_run d i st src fs) \<longleftrightarrow> (\<exists>r. get_run d i = Some r \<and> transition_guard src r)"
proof -
  have dist: "distinct (map run_id (runs d))" using assms by (simp add: db_ok_def)
  have "length (filter (\<lambda>r. run_id r = i \<and> P r) rs) = (case List.find (\<lambda>r. run_id r = i) rs of None \<Rightarrow> 0 | Some r \<Rightarrow> if P r then 1 else 0)"
    if "distinct (map run_id rs)" for P :: "run_row \<Rightarrow> bool" and rs
    using that
  proof (induction rs)
    case (Cons a rs)
    have "run_id a \<notin> run_id ` set rs" using Cons.prems by simp
    then have "List.find (\<lambda>r. run_id r = run_id a) rs = None" unfolding find_None_iff by (metis image_eqI)
    with Cons show ?case by auto
  qed simp
  from this [OF dist, of "transition_guard src"] show ?thesis
    by (auto simp: transition_run_def Let_def get_run_def split: option.splits)
qed

lemma cancel_active_run_effect:
  assumes ok: "db_ok (pdb s)" and run: "get_run (pdb s) i = Some r" and act: "run_status r \<notin> TERMINAL_RUN_STATUSES"
  shows "snd (cancel_active_run env s i)"
    and "status_of (pdb (fst (cancel_active_run env s i))) k = (if k = i then Some ''cancelled'' else status_of (pdb s) k)"
    and "k \<noteq> i \<Longrightarrow> get_run (pdb (fst (cancel_active_run env s i))) k = get_run (pdb s) k"
    and "open_rows (pdb (fst (cancel_active_run env s i))) k \<longleftrightarrow> k \<noteq> i \<and> open_rows (pdb s) k"
    and "links (pdb (fst (cancel_active_run env s i))) = links (pdb s)"
    and "db_ok (pdb (fst (cancel_active_run env s i)))"
proof -
  let ?t = "transition_run (pdb s) i ''cancelled'' None [FinishedAt (Some (utc_now env))]"
  have won: "snd ?t" using run act by (simp add: transition_won [OF ok] transition_guard_def)
  have rid: "run_id r = i" by (rule get_run_id [OF run])
  show w: "snd (cancel_active_run env s i)" using won by (simp add: cancel_active_run_def Let_def case_prod_unfold)
  define d1 where "d1 = finalise_open_step_results (fst ?t) i ''Cancelled by the operator'' (utc_now env)"
  have "\<exists>fs. pdb (fst (cancel_active_run env s i)) = d1
      \<or> pdb (fst (cancel_active_run env s i)) = fst (transition_run d1 i ''cancelled'' (Some {''cancelled''}) fs)"
    using won by (auto simp: cancel_active_run_def Let_def case_prod_unfold d1_def)
  then obtain fs where d2: "pdb (fst (cancel_active_run env s i)) = d1
      \<or> pdb (fst (cancel_active_run env s i)) = fst (transition_run d1 i ''cancelled'' (Some {''cancelled''}) fs)" by blast
  have st1: "status_of d1 k = (if k = i then Some ''cancelled'' else status_of (pdb s) k)" for k
    using run act rid by (cases "get_run (pdb s) k")
      (auto simp: d1_def status_of_def get_run_transition transition_guard_def dest: get_run_id)
  have "status_of (fst (transition_run d1 i ''cancelled'' (Some {''cancelled''}) fs)) k = status_of d1 k" for k
    unfolding status_of_transition by (cases "get_run d1 k") (auto simp: status_of_def transition_guard_def)
  then show "status_of (pdb (fst (cancel_active_run env s i))) k = (if k = i then Some ''cancelled'' else status_of (pdb s) k)"
    using d2 st1 by metis
  show "get_run (pdb (fst (cancel_active_run env s i))) k = get_run (pdb s) k" if "k \<noteq> i"
    using d2 that by (auto simp: get_run_transition_other d1_def)
  show "open_rows (pdb (fst (cancel_active_run env s i))) k \<longleftrightarrow> k \<noteq> i \<and> open_rows (pdb s) k"
    using d2 by (auto simp: d1_def open_rows_finalise)
  show "links (pdb (fst (cancel_active_run env s i))) = links (pdb s)"
    using d2 by (auto simp: d1_def)
  have "db_ok d1" unfolding d1_def by (intro db_ok_finalise db_ok_transition ok)
  then show "db_ok (pdb (fst (cancel_active_run env s i)))" using d2 db_ok_transition by metis
qed

lemma active_not_terminal: "st \<in> ACTIVE_RUN_STATUSES \<Longrightarrow> st \<notin> TERMINAL_RUN_STATUSES"
  by (auto simp: ACTIVE_RUN_STATUSES_def TERMINAL_RUN_STATUSES_def)

section \<open>The walk\<close>

text \<open>The state in which the active runs of \<open>V\<close> are cancelled, and nothing else about runs changed.\<close>

definition cancelled_in :: "nat set \<Rightarrow> db \<Rightarrow> db \<Rightarrow> bool" where
  "cancelled_in V d e \<longleftrightarrow> db_ok e \<and> links e = links d
     \<and> (\<forall>k. status_of e k = (if k \<in> V \<and> (\<exists>st \<in> ACTIVE_RUN_STATUSES. status_of d k = Some st) then Some ''cancelled'' else status_of d k))
     \<and> (\<forall>k. k \<in> V \<and> (\<exists>st \<in> ACTIVE_RUN_STATUSES. status_of d k = Some st) \<or> get_run e k = get_run d k)
     \<and> (\<forall>k. open_rows e k \<longrightarrow> open_rows d k)
     \<and> (\<forall>k \<in> V. (\<exists>st \<in> ACTIVE_RUN_STATUSES. status_of d k = Some st) \<longrightarrow> \<not> open_rows e k)"

lemma cancelled_inD:
  assumes "cancelled_in V d e"
  shows "k \<in> V \<Longrightarrow> if \<exists>st \<in> ACTIVE_RUN_STATUSES. status_of d k = Some st
      then status_of e k = Some ''cancelled'' \<and> \<not> open_rows e k else status_of e k = status_of d k"
    and "k \<notin> V \<Longrightarrow> get_run e k = get_run d k" and "open_rows e k \<Longrightarrow> open_rows d k"
    and "k \<in> V \<and> (\<exists>st \<in> ACTIVE_RUN_STATUSES. status_of d k = Some st) \<or> get_run e k = get_run d k"
  using assms unfolding cancelled_in_def by auto

lemma cancelled_not_active: "''cancelled'' \<notin> ACTIVE_RUN_STATUSES"
  by (simp add: ACTIVE_RUN_STATUSES_def)

lemma cancelled_in_refl: "db_ok d \<Longrightarrow> cancelled_in {} d d"
  by (simp add: cancelled_in_def)

lemma cancelled_in_trans: "cancelled_in V d e \<Longrightarrow> cancelled_in W e f \<Longrightarrow> cancelled_in (V \<union> W) d f"
proof -
  assume a: "cancelled_in V d e" and b: "cancelled_in W e f"
  let ?act = "\<lambda>d k. \<exists>st \<in> ACTIVE_RUN_STATUSES. status_of d k = Some st"
  have e: "status_of e k = (if k \<in> V \<and> ?act d k then Some ''cancelled'' else status_of d k)" for k using a by (simp add: cancelled_in_def)
  then have act: "?act e k \<longleftrightarrow> ?act d k \<and> k \<notin> V" for k using cancelled_not_active by auto
  have "status_of f k = (if k \<in> V \<union> W \<and> ?act d k then Some ''cancelled'' else status_of d k)" for k
  proof -
    have "status_of f k = (if k \<in> W \<and> ?act e k then Some ''cancelled'' else status_of e k)" using b by (simp add: cancelled_in_def)
    then show ?thesis unfolding act e by auto
  qed
  moreover have "\<not> open_rows f k" if "k \<in> V \<union> W" "?act d k" for k
  proof (cases "k \<in> V")
    case True
    then show ?thesis using a b that(2) unfolding cancelled_in_def by blast
  next
    case False
    then have "k \<in> W" "?act e k" using that act by blast+
    then show ?thesis using b unfolding cancelled_in_def by blast
  qed
  moreover have "k \<in> V \<union> W \<and> ?act d k \<or> get_run f k = get_run d k" for k
  proof -
    have "k \<in> V \<and> ?act d k \<or> get_run e k = get_run d k" "k \<in> W \<and> ?act e k \<or> get_run f k = get_run e k"
      using a b unfolding cancelled_in_def by blast+
    then show ?thesis unfolding act by auto
  qed
  moreover have "db_ok f" "links f = links d" "\<And>k. open_rows f k \<Longrightarrow> open_rows d k"
    using a b by (simp_all add: cancelled_in_def)
  ultimately show ?thesis unfolding cancelled_in_def by blast
qed

lemma cancel_if_active_effect:
  assumes "db_ok (pdb s)"
  shows "cancelled_in {c} (pdb s) (pdb (cancel_if_active env s c))"
proof (cases "parent_is_active s c")
  case True
  then obtain r where r: "get_run (pdb s) c = Some r" "run_status r \<in> ACTIVE_RUN_STATUSES"
    by (auto simp: parent_is_active_def split: option.splits)
  have "status_of (pdb s) c = Some (run_status r)" using r(1) by (simp add: status_of_def)
  with r(2) show ?thesis
    using cancel_active_run_effect [OF assms r(1) active_not_terminal [OF r(2)], where env = env] True
    unfolding cancel_if_active_def cancelled_in_def by (auto, metis+)
next
  case False
  then have "\<not> (\<exists>st \<in> ACTIVE_RUN_STATUSES. status_of (pdb s) c = Some st)"
    by (auto simp: parent_is_active_def status_of_def split: option.splits)
  with False assms show ?thesis by (auto simp: cancel_if_active_def cancelled_in_def)
qed

lemma cancel_walk_effect:
  assumes "db_ok (pdb s)" and "cancel_walk env cs seen s = (t, V)" and "child_of (pdb s) `` seen \<subseteq> seen \<union> set cs"
  shows "seen \<union> set cs \<subseteq> V" and "V \<subseteq> seen \<union> (child_of (pdb s))\<^sup>* `` set cs" and "child_of (pdb s) `` V \<subseteq> V"
    and "cancelled_in (V - seen) (pdb s) (pdb t)"
  using assms
proof (atomize (full), induction env cs seen s rule: cancel_walk.induct)
  case (1 env seen s)
  then show ?case by (auto simp: cancelled_in_refl)
next
  case (2 env c cs seen s)
  show ?case
  proof (cases "c \<in> seen")
    case True
    then have "child_of (pdb s) `` seen \<subseteq> seen \<union> set cs" "cancel_walk env cs seen s = (t, V)" using 2 by auto
    with 2(1) [OF True 2(3)] True show ?thesis by auto
  next
    case False
    define s1 where "s1 = cancel_if_active env s c"
    have c1: "cancelled_in {c} (pdb s) (pdb s1)" unfolding s1_def by (rule cancel_if_active_effect [OF 2(3)])
    then have ok1: "db_ok (pdb s1)" and same: "child_of (pdb s1) = child_of (pdb s)"
      by (simp_all add: cancelled_in_def child_of_links)
    let ?cs = "map run_id (list_children (pdb s1) c) @ cs"
    have set: "set ?cs = child_of (pdb s) `` {c} \<union> set cs" using children_eq [of "pdb s1" c] same by simp
    have walk: "cancel_walk env ?cs (insert c seen) s1 = (t, V)" using 2(4) False by (simp add: s1_def Let_def)
    have "child_of (pdb s1) `` insert c seen \<subseteq> insert c seen \<union> set ?cs" using 2(5) unfolding same set by auto
    from 2(2) [OF False s1_def ok1 walk this] have
      IH: "insert c seen \<union> set ?cs \<subseteq> V" "V \<subseteq> insert c seen \<union> (child_of (pdb s))\<^sup>* `` set ?cs"
        "child_of (pdb s) `` V \<subseteq> V" "cancelled_in (V - insert c seen) (pdb s1) (pdb t)" unfolding same by blast+
    have "(child_of (pdb s))\<^sup>* `` set ?cs \<subseteq> (child_of (pdb s))\<^sup>* `` set (c # cs)"
      unfolding set by (auto intro: converse_rtrancl_into_rtrancl)
    moreover have "{c} \<union> (V - insert c seen) = V - seen" using False IH(1) by auto
    with cancelled_in_trans [OF c1 IH(4)] have "cancelled_in (V - seen) (pdb s) (pdb t)" by simp
    moreover have "c \<in> (child_of (pdb s))\<^sup>* `` set (c # cs)" by auto
    ultimately have "V \<subseteq> seen \<union> (child_of (pdb s))\<^sup>* `` set (c # cs)" using IH(2) by blast
    with IH(1,3) \<open>cancelled_in (V - seen) (pdb s) (pdb t)\<close> show ?thesis by simp
  qed
qed

lemma cancel_child_runs_effect:
  assumes "db_ok (pdb s)"
  shows "cancelled_in ((child_of (pdb s))\<^sup>+ `` {i} - {i}) (pdb s) (pdb (cancel_child_runs env i s))"
proof -
  let ?R = "child_of (pdb s)"
  obtain t V where w: "cancel_walk env (map run_id (list_children (pdb s) i)) {i} s = (t, V)" by fastforce
  have set: "set (map run_id (list_children (pdb s) i)) = ?R `` {i}" by (rule children_eq)
  have "?R `` {i} \<subseteq> {i} \<union> ?R `` {i}" by blast
  note eff = cancel_walk_effect [OF assms w, unfolded set, OF this]
  have "?R\<^sup>* `` {i} \<subseteq> V"
  proof
    fix k assume "k \<in> ?R\<^sup>* `` {i}"
    then have "(i, k) \<in> ?R\<^sup>*" by simp
    then show "k \<in> V" by induction (use eff(1,3) in auto)
  qed
  moreover have "V \<subseteq> ?R\<^sup>* `` {i}" using eff(2) by (auto intro: converse_rtrancl_into_rtrancl)
  ultimately have "V - {i} = ?R\<^sup>+ `` {i} - {i}" by (auto simp: rtrancl_eq_or_trancl)
  then show ?thesis using eff(4) w by (simp add: cancel_child_runs_def)
qed

section \<open>Who may cancel, and what happens\<close>

lemma pdb_reconcile [simp]: "pdb (maybe_reconcile_deploy_run s now run) = pdb s"
  by (simp add: maybe_reconcile_deploy_run_def reconcile_def cr_fail_def cr_transition_def Let_def split: option.split)

lemma assert_run_control_iff:
  "assert_run_control s run u True = Inr () \<longleftrightarrow> run_owner_id s run = Some u \<or> has_role (auth s) u ''admin''"
  by (simp add: assert_run_control_def)

lemma cancel_run_cases:
  assumes "db_ok (pdb s)"
  shows "(\<exists>run f. get_run (pdb s) i = Some run \<and> assert_workflow_access s (run_workflow_id run) u = Inr f
        \<and> (run_owner_id s run = Some u \<or> has_role (auth s) u ''admin'') \<and> run_status run \<in> ACTIVE_RUN_STATUSES
        \<and> (\<exists>r. snd (cancel_run env s i u) = Inr r)
        \<and> pdb (fst (cancel_run env s i u)) = pdb (cancel_child_runs env i (fst (cancel_active_run env s i))))
    \<or> (fst (cancel_run env s i u) = s \<and> isl (snd (cancel_run env s i u))
        \<and> \<not> (\<exists>run f. get_run (pdb s) i = Some run \<and> assert_workflow_access s (run_workflow_id run) u = Inr f
             \<and> (run_owner_id s run = Some u \<or> has_role (auth s) u ''admin'') \<and> run_status run \<in> ACTIVE_RUN_STATUSES))"
proof (cases "get_run (pdb s) i")
  case None
  then show ?thesis by (simp add: cancel_run_def)
next
  case (Some run)
  note run = this
  show ?thesis
  proof (cases "assert_workflow_access s (run_workflow_id run) u")
    case (Inl e)
    then show ?thesis by (simp add: cancel_run_def run)
  next
    case (Inr f)
    note access = this
    show ?thesis
    proof (cases "(run_owner_id s run = Some u \<or> has_role (auth s) u ''admin'') \<and> run_status run \<in> ACTIVE_RUN_STATUSES")
      case True
      then have ctl: "assert_run_control s run u True = Inr ()" and act: "run_status run \<in> ACTIVE_RUN_STATUSES"
        by (simp_all add: assert_run_control_iff)
      have won: "snd (cancel_active_run env s i)"
        by (rule cancel_active_run_effect(1) [OF assms run active_not_terminal [OF act]])
      have act': "run_status run \<in> {''pending'', ''running'', ''paused''}" using act by (simp add: ACTIVE_RUN_STATUSES_def)
      have "snd (cancel_run env s i u) = Inr (reload_run (fst (cancel_run env s i u)) run)"
        "pdb (fst (cancel_run env s i u)) = pdb (cancel_child_runs env i (fst (cancel_active_run env s i)))"
        using won act' by (simp_all add: cancel_run_def run access ctl Let_def case_prod_unfold)
      then show ?thesis using run access True by blast
    next
      case False
      have "fst (cancel_run env s i u) = s \<and> isl (snd (cancel_run env s i u))"
      proof (cases "run_owner_id s run = Some u \<or> has_role (auth s) u ''admin''")
        case True
        with False have "run_status run \<notin> {''pending'', ''running'', ''paused''}" by (simp add: ACTIVE_RUN_STATUSES_def)
        moreover have "assert_run_control s run u True = Inr ()" using True by (simp add: assert_run_control_iff)
        ultimately show ?thesis by (simp add: cancel_run_def run access)
      next
        case no: False
        then show ?thesis by (simp add: cancel_run_def run access assert_run_control_def)
      qed
      with False run access show ?thesis by auto
    qed
  qed
qed

text \<open>
  C37: Cancelling succeeds exactly for an active run of a workflow the user sees, when the user owns the
  run or is an administrator; otherwise nothing changes. Then the run is cancelled, and so is every active
  run it caused, at any depth and also behind finished ones; the finished ones keep their status, the
  cancelled ones have no open step row left, and no other run is touched.
\<close>

theorem cancel_run_cascades:
  assumes "db_ok (pdb s)"
  shows "((\<exists>r. snd (cancel_run env s i u) = Inr r) \<longleftrightarrow>
      (\<exists>run f. get_run (pdb s) i = Some run \<and> assert_workflow_access s (run_workflow_id run) u = Inr f
        \<and> (run_owner_id s run = Some u \<or> has_role (auth s) u ''admin'') \<and> run_status run \<in> ACTIVE_RUN_STATUSES))
    \<and> (isl (snd (cancel_run env s i u)) \<longrightarrow> fst (cancel_run env s i u) = s)
    \<and> (\<not> isl (snd (cancel_run env s i u)) \<longrightarrow>
         status_of (pdb (fst (cancel_run env s i u))) i = Some ''cancelled''
         \<and> \<not> open_rows (pdb (fst (cancel_run env s i u))) i
         \<and> (\<forall>k. (i, k) \<in> (child_of (pdb s))\<^sup>+ \<longrightarrow>
              (if \<exists>st \<in> ACTIVE_RUN_STATUSES. status_of (pdb s) k = Some st
               then status_of (pdb (fst (cancel_run env s i u))) k = Some ''cancelled'' \<and> \<not> open_rows (pdb (fst (cancel_run env s i u))) k
               else status_of (pdb (fst (cancel_run env s i u))) k = status_of (pdb s) k))
         \<and> (\<forall>k. k \<noteq> i \<longrightarrow> (i, k) \<notin> (child_of (pdb s))\<^sup>+ \<longrightarrow> get_run (pdb (fst (cancel_run env s i u))) k = get_run (pdb s) k))"
  (is "(?ok \<longleftrightarrow> ?may) \<and> _")
proof -
  consider (fine) run where "get_run (pdb s) i = Some run" "run_status run \<in> ACTIVE_RUN_STATUSES" ?may ?ok
      "pdb (fst (cancel_run env s i u)) = pdb (cancel_child_runs env i (fst (cancel_active_run env s i)))"
    | (refused) "fst (cancel_run env s i u) = s" "isl (snd (cancel_run env s i u))" "\<not> ?may"
    using cancel_run_cases [OF assms, of i u env] by blast
  then show ?thesis
  proof cases
    case (fine run)
    note run = fine(1) and act = fine(2)
    let ?s1 = "fst (cancel_active_run env s i)" and ?t = "pdb (fst (cancel_run env s i u))" and ?R = "child_of (pdb s)"
    note eff = cancel_active_run_effect [OF assms run active_not_terminal [OF act], where env = env]
    have R: "child_of (pdb ?s1) = ?R" using eff(5) by (simp add: child_of_links)
    have w: "cancelled_in (?R\<^sup>+ `` {i} - {i}) (pdb ?s1) ?t"
      using cancel_child_runs_effect [OF eff(6), of i env] unfolding R fine(5) .
    have act_i: "\<exists>st \<in> ACTIVE_RUN_STATUSES. status_of (pdb s) i = Some st" using run act by (simp add: status_of_def)
    have gi: "get_run ?t i = get_run (pdb ?s1) i" by (rule cancelled_inD(2) [OF w]) simp
    then have si: "status_of ?t i = Some ''cancelled''" using eff(2) [of i] by (simp add: status_of_def)
    have oi: "\<not> open_rows ?t i" using cancelled_inD(3) [OF w, of i] eff(4) [of i] by blast
    have below: "if \<exists>st \<in> ACTIVE_RUN_STATUSES. status_of (pdb s) k = Some st
        then status_of ?t k = Some ''cancelled'' \<and> \<not> open_rows ?t k else status_of ?t k = status_of (pdb s) k" if "(i, k) \<in> ?R\<^sup>+" for k
    proof (cases "k = i")
      case True
      then show ?thesis using si oi act_i by simp
    next
      case False
      then have k: "k \<in> ?R\<^sup>+ `` {i} - {i}" and st: "status_of (pdb ?s1) k = status_of (pdb s) k" using that eff(2) [of k] by auto
      show ?thesis using cancelled_inD(1) [OF w k] unfolding st .
    qed
    have other: "get_run ?t k = get_run (pdb s) k" if "k \<noteq> i" "(i, k) \<notin> ?R\<^sup>+" for k
    proof -
      have "get_run ?t k = get_run (pdb ?s1) k" by (rule cancelled_inD(2) [OF w]) (use that in simp)
      then show ?thesis using eff(3) [OF that(1)] by (rule trans)
    qed
    have "\<not> isl (snd (cancel_run env s i u))" using fine(4) by auto
    moreover have "?ok \<longleftrightarrow> ?may" using fine(3,4) by blast
    ultimately show ?thesis using si oi below other by (intro conjI impI allI) (rule below other | assumption | simp)+
  next
    case refused
    then have "\<not> ?ok" by auto
    with refused show ?thesis by blast
  qed
qed

text \<open>Run 1 started run 2, which is finished, and run 2 had started run 3, which still runs.\<close>

definition demo_run_row :: "nat \<Rightarrow> nat option \<Rightarrow> string \<Rightarrow> run_row" where
  "demo_run_row i parent st = (snd (create_run empty_db ''u'' 7 (Some 3) ''manual'' [] [] parent None 0))\<lparr>run_id := i, run_status := st\<rparr>"

definition demo_workflow :: "nat \<Rightarrow> workflow" where
  "demo_workflow i = \<lparr>wf_id = i, canvas_nodes = [], canvas_edges = [], wf_name = ''w'', creator_id = Some 3, visibility = ''public'',
     canvas_groups = [], static_attributes = [], ai_released = False, ai_description = None, ai_result_node_id = None,
     ai_devices_input = None, ai_credential_inputs = [], ai_allow_free_ip = False, ai_release_stamp = None\<rparr>"

definition demo_platform :: platform where
  "demo_platform = \<lparr>pdb = empty_db\<lparr>runs := [demo_run_row 1 None ''running'', demo_run_row 2 (Some 1) ''success'', demo_run_row 3 (Some 2) ''running''],
       next_run := 4\<rparr>, flows = [demo_workflow 7, demo_workflow 8], auth = \<lparr>permissions = [], roles = [], role_permissions = [],
       user_roles = [], user_permissions = [], users = [], next_permission = 1, next_role = 1, next_user = 1\<rparr>,
     crs = [], next_cr = 1, open_until = 0\<rparr>"

definition demo_service_env :: service_env where
  "demo_service_env = \<lparr>validation_errors = (\<lambda>_ _. []), run_no_wait = (\<lambda>_ _. Some ''h1''), hatchet_cancel = (\<lambda>_. True),
     push_event = (\<lambda>_. True), to_float = (\<lambda>_. None), sealer = JStr, utc_now = 5, mono_clock = 5, new_uuid = ''u4'',
     new_error_id = ''e'', meanwhile = id\<rparr>"

theorem cancel_run_cascades_witness:
  "status_of (pdb (fst (cancel_run demo_service_env demo_platform 1 3))) 1 = Some ''cancelled''
   \<and> status_of (pdb (fst (cancel_run demo_service_env demo_platform 1 3))) 2 = Some ''success''
   \<and> status_of (pdb (fst (cancel_run demo_service_env demo_platform 1 3))) 3 = Some ''cancelled''"
proof -
  let ?t = "cancel_run demo_service_env demo_platform 1 3"
  have ok: "db_ok (pdb demo_platform)" by code_simp
  have won: "\<not> isl (snd ?t)" by code_simp
  have "List.member (links (pdb demo_platform)) (2, Some 1)" "List.member (links (pdb demo_platform)) (3, Some 2)" by code_simp+
  then have c: "(1, 2) \<in> child_of (pdb demo_platform)" "(2, 3) \<in> child_of (pdb demo_platform)" by (simp_all add: child_of_links)
  have s2: "status_of (pdb demo_platform) 2 = Some ''success''" and s3: "status_of (pdb demo_platform) 3 = Some ''running''" by code_simp+
  have n2: "\<not> (\<exists>st \<in> ACTIVE_RUN_STATUSES. status_of (pdb demo_platform) 2 = Some st)" unfolding s2 by (simp add: ACTIVE_RUN_STATUSES_def)
  have a3: "\<exists>st \<in> ACTIVE_RUN_STATUSES. status_of (pdb demo_platform) 3 = Some st" unfolding s3 by (simp add: ACTIVE_RUN_STATUSES_def)
  have p2: "(1, 2) \<in> (child_of (pdb demo_platform))\<^sup>+" using c by blast
  have p3: "(1, 3) \<in> (child_of (pdb demo_platform))\<^sup>+" using c by (meson trancl.simps)
  note th = cancel_run_cascades [OF ok, of demo_service_env 1 3]
  have "status_of (pdb (fst ?t)) 1 = Some ''cancelled''" using th won by blast
  moreover have "status_of (pdb (fst ?t)) 2 = Some ''success''" using th won p2 n2 s2 by metis
  moreover have "status_of (pdb (fst ?t)) 3 = Some ''cancelled''" using th won p3 a3 by metis
  ultimately show ?thesis by blast
qed

end
