(* ===== verification/Run_Columns.thy ===== *)
theory Run_Columns
  imports Run_Cancellation
begin

text \<open>
  Columns of the run table that are written when a row is inserted and never again: what the
  operations of the run repository and the run service do to such a column, proved once for all of them.
\<close>

definition column :: "(run_row \<Rightarrow> 'a) \<Rightarrow> db \<Rightarrow> (nat \<times> 'a) list" where
  "column f d = map (\<lambda>r. (run_id r, f r)) (runs d)"

lemma column_runs: "runs e = runs d \<Longrightarrow> column f e = column f d"
  by (simp add: column_def)

lemma column_untouched [simp]:
  "column f (finalise_open_step_results d i m now) = column f d"
  "column f (update_step_result d x st v) = column f d"
  "column f (update_group d i c g) = column f d"
  by (simp_all add: column_def)

lemma column_mem: "r \<in> set (runs d) \<Longrightarrow> (run_id r, f r) \<in> set (column f d)"
  by (auto simp: column_def)

lemma column_known: "(k, v) \<in> set (column f d) \<Longrightarrow> \<exists>r. get_run d k = Some r"
  using get_run_mem [of d k] by (cases "get_run d k") (auto simp: column_def)

lemma column_fresh: "db_ok d \<Longrightarrow> (k, v) \<in> set (column f d) \<Longrightarrow> k < next_run d"
  by (auto simp: column_def db_ok_def)

lemma column_new: "db_ok d \<Longrightarrow> (next_run d, v) \<notin> set (column f d)"
  using column_fresh [of d "next_run d" v f] by blast

lemma column_unique:
  assumes "db_ok d" and "get_run d k = Some r"
  shows "(k, v) \<in> set (column f d) \<longleftrightarrow> v = f r"
proof -
  have r: "r \<in> set (runs d)" "run_id r = k" using assms(2) by (auto simp: get_run_def dest: find_key_mem)
  have "distinct (map run_id (runs d))" using assms(1) by (simp add: db_ok_def)
  from distinct_map_eq [OF this r(1)] r(2) have "x = r" if "x \<in> set (runs d)" "run_id x = k" for x using that by metis
  then have "(k, v) \<in> set (column f d) \<Longrightarrow> v = f r" unfolding column_def by force
  moreover have "(k, f r) \<in> set (column f d)" using column_mem [OF r(1)] r(2) by metis
  ultimately show ?thesis by blast
qed

lemma column_create:
  "create_run d u w tb tt ds ri p a now = (e, r) \<Longrightarrow> column f e = column f d @ [(next_run d, f r)]"
  by (auto simp: column_def create_run_def Let_def)

locale fixed_column =
  fixes col :: "run_row \<Rightarrow> 'a"
  assumes col_field: "col (set_field f r) = col r"
    and col_status: "col (r\<lparr>run_status := st\<rparr>) = col r"
    and col_cleared: "col (r\<lparr>current_node_id := None, approval_state := None\<rparr>) = col r"
    and col_engine: "col (r\<lparr>hatchet_run_id := h\<rparr>) = col r"
    and col_orphan: "col (r\<lparr>parent_run_id := None\<rparr>) = col r"
begin

lemma fields_kept: "col (foldl (\<lambda>r f. set_field f r) r fs) = col r"
  by (induction fs arbitrary: r) (simp_all add: col_field)

lemma transition_kept: "column col (fst (transition_run d i st src fs)) = column col d"
  by (auto simp: column_def transition_run_def transition_values_def Let_def fields_kept col_status col_cleared)

lemma update_kept: "column col (update_run_status d i st fs c) = column col d"
  by (simp add: update_run_status_def transition_kept)

lemma record_kept: "column col (record_hatchet_run_id d i h) = column col d"
  by (auto simp: column_def record_hatchet_run_id_def col_engine)

lemma delete_shrinks: "set (column col (delete_runs d ids)) \<subseteq> set (column col d)"
  by (auto simp: column_def delete_runs_def col_orphan)

lemma repo_step_column:
  assumes "repo_step d e"
  shows "set (column col e) \<subseteq> set (column col d)
    \<or> (\<exists>u w tb tt ds ri p a now r. create_run d u w tb tt ds ri p a now = (e, r) \<and> column col e = column col d @ [(next_run d, col r)])"
  using assms
proof (cases rule: repo_step.cases)
  case (create_run u w tb tt ds ri p a now r)
  with column_create [OF create_run] show ?thesis by blast
next
  case (create_step i n t m x)
  then have "column col e = column col d" by (intro column_runs create_step_result_InrD(1))
  then show ?thesis by simp
next
  case (create_groups i gs)
  then have "column col e = column col d" by (intro column_runs create_device_groups_InrD(1))
  then show ?thesis by simp
next
  case (delete ids)
  then show ?thesis using delete_shrinks by blast
qed (simp_all add: transition_kept update_kept record_kept)

lemma cancel_kept: "column col (pdb (fst (cancel_active_run env s i))) = column col (pdb s)"
  by (simp add: cancel_active_run_def Let_def case_prod_unfold transition_kept)

lemma walk_kept: "column col (pdb (fst (cancel_walk env cs seen s))) = column col (pdb s)"
proof (induction env cs seen s rule: cancel_walk.induct)
  case (2 env c cs seen s)
  then show ?case by (simp add: Let_def cancel_if_active_def cancel_kept)
qed simp

lemma cancel_run_kept: "column col (pdb (fst (cancel_run env s i u))) = column col (pdb s)"
  by (simp add: cancel_run_def cancel_child_runs_def Let_def case_prod_unfold walk_kept cancel_kept split: option.split sum.split)

end

text \<open>The chain of workflows a run belongs to, and the change request it deploys.\<close>

definition run_chain :: "run_row \<Rightarrow> nat list" where
  "run_chain r = (case ancestor_workflow_ids r of None \<Rightarrow> [] | Some xs \<Rightarrow> xs) @ [run_workflow_id r]"

lemma set_field_chain [simp]: "run_chain (set_field f r) = run_chain r"
  by (cases f) (simp_all add: run_chain_def)

lemma set_field_label [simp]: "change_request_id (set_field f r) = change_request_id r"
  by (cases f) simp_all

interpretation chain_column: fixed_column run_chain
  by unfold_locales (simp_all, simp_all add: run_chain_def)

interpretation label_column: fixed_column change_request_id
  by unfold_locales simp_all

end
