(* ===== verification/Run_Chains.thy ===== *)
theory Run_Chains
  imports Run_Columns
begin

text \<open>
  The run service and the workers as one state machine, and the chains of runs that start runs: how long
  they get and who they run as.
\<close>

section \<open>Chains\<close>

definition chain_ok :: "run_row \<Rightarrow> bool" where
  "chain_ok r \<longleftrightarrow> distinct (run_chain r) \<and> length (run_chain r) \<le> Suc MAX_CHILD_RUN_DEPTH"

definition run_keys :: "db \<Rightarrow> (nat \<times> nat list) list" where
  "run_keys d = column run_chain d"

definition chains_ok :: "db \<Rightarrow> bool" where
  "chains_ok d \<longleftrightarrow> (\<forall>(_, c) \<in> set (run_keys d). distinct c \<and> length c \<le> Suc MAX_CHILD_RUN_DEPTH)"

lemma chains_ok_iff: "chains_ok d \<longleftrightarrow> (\<forall>r \<in> set (runs d). chain_ok r)"
  by (simp add: chains_ok_def run_keys_def column_def chain_ok_def)

lemma chains_ok_sub: "set (run_keys e) \<subseteq> set (run_keys d) \<Longrightarrow> chains_ok d \<Longrightarrow> chains_ok e"
  by (auto simp: chains_ok_def)

lemma run_keys_create:
  "create_run d u w tb tt ds ri p a now = (e, r) \<Longrightarrow>
     run_keys e = run_keys d @ [(next_run d, (case a of None \<Rightarrow> [] | Some xs \<Rightarrow> xs) @ [w])] \<and> run_id r = next_run d"
  by (auto simp: create_run_def Let_def run_keys_def column_def run_chain_def)

lemma run_keys_repo_step:
  assumes "repo_step d e" and "next_run e = next_run d"
  shows "set (run_keys e) \<subseteq> set (run_keys d)"
proof -
  have "next_run e = Suc (next_run d)" if "create_run d u w tb tt ds ri p a now = (e, r)" for u w tb tt ds ri p a now r
    using that by (auto simp: create_run_def Let_def)
  with chain_column.repo_step_column [OF assms(1)] assms(2) show ?thesis unfolding run_keys_def by (metis n_not_Suc_n)
qed

lemmas run_keys_kept [simp] = chain_column.transition_kept [folded run_keys_def] chain_column.update_kept [folded run_keys_def]
  chain_column.record_kept [folded run_keys_def] chain_column.cancel_kept [folded run_keys_def]
  chain_column.walk_kept [folded run_keys_def]

lemmas run_keys_cancel_run = chain_column.cancel_run_kept [folded run_keys_def]
lemmas run_keys_delete = chain_column.delete_shrinks [folded run_keys_def]

lemma run_keys_label [simp]: "run_keys (label_run d i cr node) = run_keys d"
  by (auto simp: run_keys_def column_def label_run_def run_chain_def)

section \<open>The operations\<close>

lemma run_keys_dispatch:
  assumes "create_and_dispatch_run env s f user trigger devs inputs cr parent ancestors node = (t, res)"
  shows "run_keys (pdb t) = run_keys (pdb s) \<or> run_keys (pdb t) = run_keys (pdb s) @
      [(next_run (pdb s), (case ancestors of None \<Rightarrow> [] | Some xs \<Rightarrow> xs) @ [wf_id f])]"
proof -
  obtain d r where c: "create_run (pdb s) (new_uuid env) (wf_id f) user trigger devs inputs parent ancestors (utc_now env) = (d, r)"
    by fastforce
  show ?thesis using assms run_keys_create [OF c]
    by (auto simp: create_and_dispatch_run_def c Let_def dispatch_failed_def record_failure_def record_success_def
        split: sum.splits option.splits if_splits)
qed

lemma child_run_ancestors_chain:
  assumes "child_run_ancestors parent w = Inr a"
  shows "a = run_chain parent" "w \<notin> set a" "length a \<le> MAX_CHILD_RUN_DEPTH"
  using assms by (auto simp: child_run_ancestors_def Let_def run_chain_def split: if_splits)

lemma chains_extend:
  assumes "chains_ok d" and "run_keys e = run_keys d \<or> run_keys e = run_keys d @ [(i, c)]"
    and "distinct c" and "length c \<le> Suc MAX_CHILD_RUN_DEPTH"
  shows "chains_ok e"
  using assms by (auto simp: chains_ok_def)

lemma start_child_chains:
  assumes ok: "chains_ok (pdb s)" and par: "chain_ok parent"
    and env: "\<And>x. chains_ok (pdb x) \<Longrightarrow> chains_ok (pdb (meanwhile env x))"
  shows "chains_ok (pdb (fst (start_child_run env s parent w inputs)))"
proof -
  have step: "chains_ok (pdb t)"
    if c: "create_and_dispatch_run env s f u ''workflow'' [] i None (Some (run_id parent)) (Some a) None = (t, res)"
      and a: "child_run_ancestors parent (wf_id f) = Inr a" for f u i a t res
  proof (rule chains_extend [OF ok run_keys_dispatch [OF c]])
    note an = child_run_ancestors_chain [OF a]
    show "distinct ((case Some a of None \<Rightarrow> [] | Some xs \<Rightarrow> xs) @ [wf_id f])" using an par by (simp add: chain_ok_def)
    show "length ((case Some a of None \<Rightarrow> [] | Some xs \<Rightarrow> xs) @ [wf_id f]) \<le> Suc MAX_CHILD_RUN_DEPTH" using an by simp
  qed
  have keep: "chains_ok (pdb (fst (cancel_active_run env x k))) = chains_ok (pdb x)" for x k by (simp add: chains_ok_def)
  show ?thesis using ok step env unfolding start_child_run_def
    by (auto simp: Let_def keep split: sum.splits prod.splits)
qed

lemma dispatched_row:
  assumes "db_ok (pdb s)"
    and "create_and_dispatch_run env s f user trigger devs inputs cr parent ancestors node = (t, Inr r)"
  shows "triggered_by_id r = user" "parent_run_id r = parent" "run_workflow_id r = wf_id f" "ancestor_workflow_ids r = ancestors"
    "run_id r = next_run (pdb s)" "change_request_id r = cr" "run_status r = ''pending''" "get_run (pdb t) (next_run (pdb s)) = Some r"
proof -
  obtain d r0 where c: "create_run (pdb s) (new_uuid env) (wf_id f) user trigger devs inputs parent ancestors (utc_now env) = (d, r0)"
    by fastforce
  then have r0: "triggered_by_id r0 = user" "parent_run_id r0 = parent" "run_workflow_id r0 = wf_id f" "ancestor_workflow_ids r0 = ancestors"
    "run_id r0 = next_run (pdb s)" "change_request_id r0 = None" "run_status r0 = ''pending''"
    by (auto simp: create_run_def Let_def)
  have g: "get_run d (next_run (pdb s)) = Some r0" using get_run_create [OF assms(1) c] by simp
  let ?f = "\<lambda>x :: run_row. if run_id x = run_id r0 then x\<lparr>change_request_id := cr, run_ai_result_node_id := node\<rparr> else x"
  have lab: "get_run (label_run d (run_id r0) cr node) (next_run (pdb s)) = Some (if cr \<noteq> None \<or> node \<noteq> None then ?f r0 else r0)"
  proof -
    have "run_id (?f x) = run_id x" for x by simp
    from find_key_map [where key = run_id and f = ?f, OF this] g show ?thesis by (simp add: label_run_def get_run_def)
  qed
  have rec: "get_run (record_hatchet_run_id e i h) k = map_option (\<lambda>x. if run_id x = i then x\<lparr>hatchet_run_id := Some h\<rparr> else x) (get_run e k)" for e i h k
    unfolding record_hatchet_run_id_def get_run_def by (simp add: find_key_map [where key = run_id])
  from assms(2) obtain h where t: "pdb t = record_hatchet_run_id (label_run d (run_id r0) cr node) (run_id r0) h" "r = reload_run t r0"
    by (auto simp: create_and_dispatch_run_def c Let_def dispatch_failed_def record_success_def split: sum.splits option.splits if_splits)
  have gt: "get_run (pdb t) (next_run (pdb s)) = Some ((if cr \<noteq> None \<or> node \<noteq> None then ?f r0 else r0)\<lparr>hatchet_run_id := Some h\<rparr>)"
    unfolding t(1) rec lab by simp
  then have r: "r = (if cr \<noteq> None \<or> node \<noteq> None then ?f r0 else r0)\<lparr>hatchet_run_id := Some h\<rparr>" using r0(5) by (simp add: t(2) reload_run_def)
  then show "triggered_by_id r = user" "parent_run_id r = parent" "run_workflow_id r = wf_id f" "ancestor_workflow_ids r = ancestors"
    "run_id r = next_run (pdb s)" "change_request_id r = cr" "run_status r = ''pending''" using r0 by auto
  show "get_run (pdb t) (next_run (pdb s)) = Some r" using gt r by simp
qed

section \<open>The state machine\<close>

inductive service_step :: "platform \<Rightarrow> platform \<Rightarrow> bool" where
  trigger: "trigger_run env s w trig devs inputs user = (t, r) \<Longrightarrow> service_step s t"
| deploy: "create_and_dispatch_run env s f user trig devs inputs cr None None node = (t, r) \<Longrightarrow> service_step s t"
| start_child: "\<forall>x. service_step\<^sup>*\<^sup>* x (meanwhile env x) \<Longrightarrow> get_run (pdb s) (run_id parent) = Some parent \<Longrightarrow>
    start_child_run env s parent w inputs = (t, r) \<Longrightarrow> service_step s t"
| cancel: "cancel_run env s i user = (t, r) \<Longrightarrow> service_step s t"
| delete: "service_delete_run s i user = (t, r) \<Longrightarrow> service_step s t"
| approve: "approve_all env s i user = (t, r) \<Longrightarrow> service_step s t"
| worker: "repo_step (pdb s) d \<Longrightarrow> next_run d = next_run (pdb s) \<Longrightarrow> service_step s (s\<lparr>pdb := d\<rparr>)"
| elsewhere: "pdb t = pdb s \<Longrightarrow> service_step s t"

lemma service_step_chains: "service_step s t \<Longrightarrow> chains_ok (pdb s) \<Longrightarrow> chains_ok (pdb t)"
proof (induction rule: service_step.induct)
  case (trigger env s w trig devs inputs user t r)
  have "chains_ok (pdb t)" if "create_and_dispatch_run env s f u trig devs i None None None None = (t, r)" for f u i
    by (rule chains_extend [OF trigger.prems run_keys_dispatch [OF that]]) simp_all
  then show ?case using trigger by (auto simp: trigger_run_def split: sum.splits)
next
  case (deploy env s f user trig devs inputs cr node t r)
  show ?case by (rule chains_extend [OF deploy.prems run_keys_dispatch [OF deploy.hyps]]) simp_all
next
  case (start_child env s parent w inputs t r)
  have env: "chains_ok (pdb (meanwhile env x))" if "chains_ok (pdb x)" for x
  proof -
    have "(\<lambda>a b. service_step a b \<and> (chains_ok (pdb a) \<longrightarrow> chains_ok (pdb b)))\<^sup>*\<^sup>* x (meanwhile env x)" using start_child.IH by blast
    then show ?thesis using that by (induction rule: rtranclp_induct) auto
  qed
  have "parent \<in> set (runs (pdb s))" using start_child.hyps by (auto simp: get_run_def dest: find_key_mem)
  then have "chain_ok parent" using start_child.prems by (simp add: chains_ok_iff)
  then have "chains_ok (pdb (fst (start_child_run env s parent w inputs)))" by (rule start_child_chains [OF start_child.prems _ env])
  then show ?case using start_child.hyps by simp
next
  case (cancel env s i user t r)
  then have "run_keys (pdb t) = run_keys (pdb s)" using run_keys_cancel_run [of env s i user] by simp
  with cancel.prems show ?case by (simp add: chains_ok_def)
next
  case (delete s i user t r)
  then have "pdb t = pdb s \<or> pdb t = delete_runs (pdb s) {i}"
    by (auto simp: service_delete_run_def delete_run_def split: option.splits sum.splits if_splits)
  then have "set (run_keys (pdb t)) \<subseteq> set (run_keys (pdb s))" using run_keys_delete [of "pdb s" "{i}"] by (elim disjE) simp_all
  with delete.prems show ?case by (rule chains_ok_sub [rotated])
next
  case (approve env s i user t r)
  then have "run_keys (pdb t) = run_keys (pdb s)" by (auto simp: approve_all_def Let_def split: sum.splits)
  with approve.prems show ?case by (simp add: chains_ok_def)
next
  case (worker s d)
  show ?case using chains_ok_sub [OF run_keys_repo_step [OF worker.hyps(1,2)] worker.prems] by simp
next
  case (elsewhere t s)
  then show ?case by simp
qed

text \<open>
  C36: However runs start, trigger each other, fail, are cancelled and are deleted, every run in the store
  has a chain of at most four workflows (three ancestors and itself) without repetition: no workflow
  starts itself, directly or through others, even after its ancestors' rows are gone. A child run
  is started only for an active parent, as the parent's user, who sees the workflow and may execute
  workflows; it carries the parent's chain.
\<close>

theorem child_run_chain_bounded:
  assumes "chains_ok (pdb s)"
  shows "(\<forall>t r. service_step\<^sup>*\<^sup>* s t \<longrightarrow> r \<in> set (runs (pdb t)) \<longrightarrow>
        distinct (run_chain r) \<and> length (run_chain r) \<le> Suc MAX_CHILD_RUN_DEPTH)
    \<and> (\<forall>env parent w inputs t child. start_child_run env s parent w inputs = (t, Inr child) \<longrightarrow>
        (\<exists>user f. triggered_by_id parent = Some user \<and> parent_is_active s (run_id parent)
          \<and> has_permission (auth s) user ''workflows'' ''execute'' \<and> assert_workflow_access s w user = Inr f
          \<and> wf_id f \<notin> set (run_chain parent)
          \<and> (db_ok (pdb s) \<longrightarrow> triggered_by_id child = Some user \<and> parent_run_id child = Some (run_id parent)
               \<and> run_chain child = run_chain parent @ [wf_id f])))"
proof -
  have reach: "chains_ok (pdb t)" if "service_step\<^sup>*\<^sup>* s t" for t
    using that by (induction rule: rtranclp_induct) (auto intro: assms service_step_chains)
  have child: "\<exists>user f. triggered_by_id parent = Some user \<and> parent_is_active s (run_id parent)
          \<and> has_permission (auth s) user ''workflows'' ''execute'' \<and> assert_workflow_access s w user = Inr f
          \<and> wf_id f \<notin> set (run_chain parent)
          \<and> (db_ok (pdb s) \<longrightarrow> triggered_by_id child = Some user \<and> parent_run_id child = Some (run_id parent)
               \<and> run_chain child = run_chain parent @ [wf_id f])"
    if start: "start_child_run env s parent w inputs = (t, Inr child)" for env parent w inputs t child
  proof -
    from start obtain f a res s1 where g: "assert_parent_active s parent = Inr ()" "require_child_target s parent w = Inr f"
      "child_run_ancestors parent (wf_id f) = Inr a"
      "create_and_dispatch_run env s f (triggered_by_id parent) ''workflow'' [] res None (Some (run_id parent)) (Some a) None = (s1, Inr child)"
      by (auto simp: start_child_run_def Let_def split: sum.splits prod.splits if_splits)
    from g(2) obtain user where u: "triggered_by_id parent = Some user" "assert_workflow_access s w user = Inr f"
      "has_permission (auth s) user ''workflows'' ''execute''"
      by (auto simp: require_child_target_def res_bind_Inr_iff split: option.splits if_splits)
    moreover have "parent_is_active s (run_id parent)" using g(1) by (auto simp: assert_parent_active_def split: if_splits)
    ultimately show ?thesis using child_run_ancestors_chain [OF g(3)] dispatched_row [OF _ g(4)] by (auto simp: run_chain_def)
  qed
  show ?thesis using reach child unfolding chains_ok_iff chain_ok_def by blast
qed

text \<open>User 3 may execute workflows; run 1 of workflow 7 starts workflow 8.\<close>

definition demo_parent_platform :: platform where
  "demo_parent_platform = demo_platform\<lparr>auth := (auth demo_platform)\<lparr>
     permissions := [\<lparr>perm_id = 1, perm_resource = ''workflows'', perm_action = ''execute'', perm_description = None\<rparr>],
     user_permissions := [((3, 1), True)]\<rparr>\<rparr>"

definition demo_child :: "platform \<times> run_row res" where
  "demo_child = start_child_run demo_service_env demo_parent_platform (demo_run_row 1 None ''running'') 8 []"

theorem child_run_chain_bounded_witness:
  "\<exists>t child. demo_child = (t, Inr child) \<and> run_chain child = [7, 8] \<and> distinct (run_chain child)
     \<and> length (run_chain child) \<le> Suc MAX_CHILD_RUN_DEPTH"
proof -
  have ok: "chains_ok (pdb demo_parent_platform)" by code_simp
  have "\<not> isl (snd demo_child)" by code_simp
  then obtain t child where c: "demo_child = (t, Inr child)" by (metis isl_def old.sum.exhaust prod.collapse)
  have dbo: "db_ok (pdb demo_parent_platform)" by code_simp
  have chain: "run_chain child = run_chain (demo_run_row 1 None ''running'') @ [8]"
  proof -
    have acc: "assert_workflow_access demo_parent_platform 8 3 = Inr (demo_workflow 8)" by code_simp
    have "triggered_by_id (demo_run_row 1 None ''running'') = Some 3" "wf_id (demo_workflow 8) = 8" by code_simp+
    with child_run_chain_bounded [OF ok] c [unfolded demo_child_def] dbo acc show ?thesis by fastforce
  qed
  have step: "service_step demo_parent_platform t"
  proof (rule service_step.start_child)
    show "\<forall>x. service_step\<^sup>*\<^sup>* x (meanwhile demo_service_env x)" by (simp add: demo_service_env_def)
    show "start_child_run demo_service_env demo_parent_platform (demo_run_row 1 None ''running'') 8 [] = (t, Inr child)"
      using c by (simp add: demo_child_def)
    show "get_run (pdb demo_parent_platform) (run_id (demo_run_row 1 None ''running'')) = Some (demo_run_row 1 None ''running'')" by code_simp
  qed
  have "child = projr (snd demo_child)" unfolding c by simp
  moreover have "List.member (runs (pdb (fst demo_child))) (projr (snd demo_child))" by code_simp
  ultimately have "child \<in> set (runs (pdb t))" unfolding c by simp
  with child_run_chain_bounded [OF ok] step have "distinct (run_chain child) \<and> length (run_chain child) \<le> Suc MAX_CHILD_RUN_DEPTH" by blast
  moreover have "run_chain (demo_run_row 1 None ''running'') = [7]" by code_simp
  then have "run_chain child = [7, 8]" unfolding chain by simp
  ultimately show ?thesis using c by blast
qed

end
