(* ===== verification/Change_Requests.thy ===== *)
theory Change_Requests
  imports Run_Chains
begin

text \<open>
  \<open>services/change_requests/change_request_service.py\<close>: staging, reviewing, deploying, rejecting and
  reading change requests. Approving and deploying commit several times: the claim (the conditional
  update to \<open>deploying\<close>), the launch (\<open>_create_and_dispatch_run\<close>) and the settlement (the run id is
  recorded, or the claim is given back); each part is a definition, so that the parts of two requests
  can be interleaved. Reconciliation and expiry are in \<open>Platform\<close>.
\<close>

section \<open>Access\<close>

type_synonym cr_response = "cr_row \<times> string option"

definition approved_by_username :: "platform \<Rightarrow> cr_row \<Rightarrow> string option" where
  "approved_by_username s c =
     (case approved_by_id c of
        None \<Rightarrow> None
      | Some u \<Rightarrow> map_option username (List.find (\<lambda>x. user_id x = u) (users (auth s))))"

definition cr_get_or_404 :: "platform \<Rightarrow> nat \<Rightarrow> cr_row res" where
  "cr_get_or_404 s i = (case get_cr s i of None \<Rightarrow> Inl (NotFoundError ''Change request not found'') | Some c \<Rightarrow> Inr c)"

definition assert_visible :: "platform \<Rightarrow> cr_row \<Rightarrow> nat \<Rightarrow> unit res" where
  "assert_visible s c user =
     (case source_workflow_id c of
        None \<Rightarrow> Inr ()
      | Some w \<Rightarrow>
          (case get_workflow s w of
             None \<Rightarrow> Inr ()
           | Some f \<Rightarrow> if visibility f = ''private'' \<and> creator_id f \<noteq> Some user
                      then Inl (AccessDeniedError ''Access denied'') else Inr ()))"

definition load_workflow :: "platform \<Rightarrow> nat \<Rightarrow> nat option \<Rightarrow> workflow res" where
  "load_workflow s w actor =
     (case get_workflow s w of
        None \<Rightarrow> Inl (NotFoundError ''Deploy workflow not found'')
      | Some f \<Rightarrow> if actor \<noteq> None \<and> visibility f = ''private'' \<and> creator_id f \<noteq> actor
                 then Inl (AccessDeniedError ''Access denied'') else Inr f)"

definition staged_deploy_workflow :: "platform \<Rightarrow> cr_row \<Rightarrow> nat option \<Rightarrow> workflow res" where
  "staged_deploy_workflow s c actor =
     res_bind (case actor of None \<Rightarrow> Inr () | Some u \<Rightarrow> assert_visible s c u) (\<lambda>_.
       case deploy_workflow_id c of
         None \<Rightarrow> Inl (ConflictError ''No deploy workflow was staged with this change request'')
       | Some w \<Rightarrow> load_workflow s w actor)"

text \<open>The known secrets of the process are an argument.\<close>

definition to_response :: "string list option \<Rightarrow> platform \<Rightarrow> cr_row \<Rightarrow> cr_response" where
  "to_response reg s c =
     (c\<lparr>cr_run_inputs := (case redact_secrets_in_data reg (JObj (cr_run_inputs c)) of JObj d \<Rightarrow> d | _ \<Rightarrow> [])\<rparr>,
      approved_by_username s c)"

text \<open>The row as it stands in the table; \<open>c\<close> when it is gone.\<close>

definition reload_cr :: "platform \<Rightarrow> cr_row \<Rightarrow> cr_row" where
  "reload_cr s c = (case get_cr s (cr_id c) of None \<Rightarrow> c | Some c' \<Rightarrow> c')"

section \<open>Staging and reading\<close>

definition create_from_step :: "platform \<Rightarrow> int \<Rightarrow> cr_row \<Rightarrow> int \<Rightarrow> (platform \<times> cr_row) res" where
  "create_from_step s now draft expires_after_hours =
     cr_create s now (draft\<lparr>expires_at := (if expires_after_hours > 0 then Some (now + expires_after_hours * 3600) else None)\<rparr>)"

definition cr_list :: "platform \<Rightarrow> nat \<Rightarrow> string list option \<Rightarrow> cr_row list \<times> nat" where
  "cr_list s user statuses = (let rows = list_visible_crs s user statuses in (rows, length rows))"

definition cr_get :: "string list option \<Rightarrow> platform \<Rightarrow> int \<Rightarrow> nat \<Rightarrow> nat \<Rightarrow> platform \<times> cr_response res" where
  "cr_get reg s now i user =
     (case res_bind (cr_get_or_404 s i) (\<lambda>c. res_bind (assert_visible s c user) (\<lambda>_. Inr c)) of
        Inl e \<Rightarrow> (s, Inl e)
      | Inr c \<Rightarrow> (let s1 = reconcile s now c in (s1, Inr (to_response reg s1 (reload_cr s1 c)))))"

text \<open>The run and artifact whose content \<open>get_run_artifact\<close> returns.\<close>

definition get_diff :: "platform \<Rightarrow> nat \<Rightarrow> nat \<Rightarrow> (nat \<times> string) res" where
  "get_diff s i user =
     res_bind (cr_get_or_404 s i) (\<lambda>c.
     res_bind (assert_visible s c user) (\<lambda>_.
       case (diff_artifact_id c, source_run_id c) of
         (Some a, Some r) \<Rightarrow> Inr (r, a)
       | _ \<Rightarrow> Inl (NotFoundError ''This change request has no stored diff'')))"

section \<open>Transitions\<close>

text \<open>One guarded move of row \<open>c\<close>; the error of a lost race carries the status now in the table.\<close>

definition cr_move :: "platform \<Rightarrow> int \<Rightarrow> cr_row \<Rightarrow> string set \<Rightarrow> string \<Rightarrow> cr_field list \<Rightarrow> (string \<Rightarrow> string) \<Rightarrow>
    platform \<times> cr_row res" where
  "cr_move s now c expected new_status flds lost =
     (let (s1, moved) = cr_transition s now (cr_id c) expected new_status flds in
      (s1, if moved then Inr (reload_cr s1 c) else Inl (ConflictError (lost (cr_status (reload_cr s1 c))))))"

definition approve_claim :: "platform \<Rightarrow> int \<Rightarrow> nat \<Rightarrow> nat option \<Rightarrow> string \<Rightarrow> platform \<times> (cr_row \<times> workflow) res" where
  "approve_claim s now i actor via =
     (case res_bind (cr_get_or_404 s i) (\<lambda>c. res_bind (staged_deploy_workflow s c actor) (\<lambda>f. Inr (c, f))) of
        Inl e \<Rightarrow> (s, Inl e)
      | Inr (c, f) \<Rightarrow>
          (let (s1, r) = cr_move s now c {''staged''} ''deploying''
                 [ApprovedBy actor, ApprovedVia (Some via), ApprovedAt (Some now)]
                 (\<lambda>st. ''Change request is not awaiting approval (status='' @ st @ '')'')
           in (s1, res_bind r (\<lambda>c. Inr (c, f)))))"

definition deploy_claim :: "platform \<Rightarrow> int \<Rightarrow> nat \<Rightarrow> nat option \<Rightarrow> platform \<times> (cr_row \<times> workflow) res" where
  "deploy_claim s now i actor =
     (case res_bind (cr_get_or_404 s i) (\<lambda>c. res_bind (staged_deploy_workflow s c actor) (\<lambda>f. Inr (c, f))) of
        Inl e \<Rightarrow> (s, Inl e)
      | Inr (c, f) \<Rightarrow>
          (let (s1, r) = cr_move s now c {''approved''} ''deploying'' []
                 (\<lambda>st. ''Change request is not in '' @ py_repr ''approved'' @ '' state (status='' @ st @ '')'')
           in (s1, res_bind r (\<lambda>c. Inr (c, f)))))"

definition mark_reviewed :: "string list option \<Rightarrow> platform \<Rightarrow> int \<Rightarrow> nat \<Rightarrow> string \<Rightarrow> platform \<times> cr_response res" where
  "mark_reviewed reg s now i via =
     (case cr_get_or_404 s i of
        Inl e \<Rightarrow> (s, Inl e)
      | Inr c \<Rightarrow>
          (let (s1, r) = cr_move s now c {''staged''} ''approved'' [ApprovedVia (Some via), ApprovedAt (Some now)]
                 (\<lambda>st. ''Change request is not awaiting approval (status='' @ st @ '')'')
           in (s1, res_bind r (\<lambda>c. Inr (to_response reg s1 c)))))"

definition cr_reject :: "string list option \<Rightarrow> platform \<Rightarrow> int \<Rightarrow> nat \<Rightarrow> nat option \<Rightarrow> string option \<Rightarrow> platform \<times> cr_response res" where
  "cr_reject reg s now i actor reason =
     (case res_bind (cr_get_or_404 s i) (\<lambda>c.
             res_bind (case actor of None \<Rightarrow> Inr () | Some u \<Rightarrow> assert_visible s c u) (\<lambda>_. Inr c)) of
        Inl e \<Rightarrow> (s, Inl e)
      | Inr c \<Rightarrow>
          (let (s1, r) = cr_move s now c {''staged'', ''approved''} ''rejected''
                 [RejectedBy actor, RejectedAt (Some now), RejectReason reason]
                 (\<lambda>st. ''Change request cannot be rejected from status='' @ st)
           in (s1, res_bind r (\<lambda>c. Inr (to_response reg s1 c)))))"

section \<open>Dispatching the deploy run\<close>

definition deploy_launch :: "service_env \<Rightarrow> platform \<Rightarrow> cr_row \<Rightarrow> workflow \<Rightarrow> nat option \<Rightarrow> string \<Rightarrow> platform \<times> run_row res" where
  "deploy_launch env s c f actor via =
     create_and_dispatch_run env s f actor (if via = ''webhook'' then ''webhook'' else ''manual'')
       (cr_device_ids c) (cr_run_inputs c) (Some (cr_id c)) None None None"

text \<open>The settlement. The plain update sets \<open>deploy_run_id\<close>; the foreign key refuses a run that is gone.\<close>

definition revert_fields :: "string \<Rightarrow> cr_field list" where
  "revert_fields revert_to = DeployError (Some ''The deploy run could not be started; try again'') #
     (if revert_to = ''staged'' then [ApprovedBy None, ApprovedVia None, ApprovedAt None] else [])"

definition set_deploy_run_id :: "platform \<Rightarrow> int \<Rightarrow> nat \<Rightarrow> nat \<Rightarrow> platform" where
  "set_deploy_run_id s now i r =
     s\<lparr>crs := map (\<lambda>c. if cr_id c = i then c\<lparr>deploy_run_id := Some r, cr_updated_at := now\<rparr> else c) (crs s)\<rparr>"

definition deploy_settle :: "string list option \<Rightarrow> platform \<Rightarrow> int \<Rightarrow> cr_row \<Rightarrow> string \<Rightarrow> run_row res \<Rightarrow> platform \<times> cr_response res" where
  "deploy_settle reg s now c revert_to launched =
     (case launched of
        Inl e \<Rightarrow> (fst (cr_transition s now (cr_id c) {''deploying''} revert_to (revert_fields revert_to)), Inl e)
      | Inr run \<Rightarrow>
          if get_run (pdb s) (run_id run) = None then (s, Inl (OtherError ''IntegrityError''))
          else let s1 = set_deploy_run_id s now (cr_id c) (run_id run) in (s1, Inr (to_response reg s1 (reload_cr s1 c))))"

definition dispatch_deploy :: "string list option \<Rightarrow> service_env \<Rightarrow> platform \<Rightarrow> cr_row \<Rightarrow> workflow \<Rightarrow> nat option \<Rightarrow> string \<Rightarrow> string \<Rightarrow>
    platform \<times> cr_response res" where
  "dispatch_deploy reg env s c f actor via revert_to =
     (let (s1, launched) = deploy_launch env s c f actor via in deploy_settle reg s1 (utc_now env) c revert_to launched)"

definition cr_approve :: "string list option \<Rightarrow> service_env \<Rightarrow> platform \<Rightarrow> nat \<Rightarrow> nat option \<Rightarrow> string \<Rightarrow> platform \<times> cr_response res" where
  "cr_approve reg env s i actor via =
     (case approve_claim s (utc_now env) i actor via of
        (s1, Inl e) \<Rightarrow> (s1, Inl e)
      | (s1, Inr (c, f)) \<Rightarrow> dispatch_deploy reg env s1 c f actor via ''staged'')"

definition cr_deploy :: "string list option \<Rightarrow> service_env \<Rightarrow> platform \<Rightarrow> nat \<Rightarrow> nat option \<Rightarrow> platform \<times> cr_response res" where
  "cr_deploy reg env s i actor =
     (case deploy_claim s (utc_now env) i actor of
        (s1, Inl e) \<Rightarrow> (s1, Inl e)
      | (s1, Inr (c, f)) \<Rightarrow> dispatch_deploy reg env s1 c f actor ''ui'' ''approved'')"

end
