(* ===== verification/Change_Request_Machine.thy ===== *)
theory Change_Request_Machine
  imports Change_Requests
begin

text \<open>
  The change-request service as a state machine in which the requests of several users, signed webhooks,
  the periodic sweeps and the workers interleave, and its two contracts: it refines the life cycle of a
  change request, and a change request is deployed at most once.
\<close>

section \<open>The machine\<close>

text \<open>A request that has claimed a change request and not answered yet: the row it moved, the workflow
  to run, and what the launch returned once it has happened.\<close>

datatype deploy_stage = Claimed | Launched "run_row res"

record deploy_ticket =
  tk_cr :: cr_row
  tk_flow :: workflow
  tk_actor :: "nat option"
  tk_via :: string
  tk_revert :: string
  tk_stage :: deploy_stage

definition tk_id :: "deploy_ticket \<Rightarrow> nat" where
  "tk_id k = cr_id (tk_cr k)"

text \<open>The tables, the tickets, and the rows that requests have read and may still reconcile.\<close>

type_synonym cr_world = "platform \<times> deploy_ticket list \<times> cr_row set"

inductive cr_step :: "cr_world \<Rightarrow> cr_world \<Rightarrow> bool" where
  stage: "create_from_step s now draft hours = Inr (t, c) \<Longrightarrow> cr_step (s, T, R) (t, T, R)"
| approve: "approve_claim s now i actor via = (t, Inr (c, f)) \<Longrightarrow>
    cr_step (s, T, R) (t, \<lparr>tk_cr = c, tk_flow = f, tk_actor = actor, tk_via = via, tk_revert = ''staged'', tk_stage = Claimed\<rparr> # T, R)"
| approve_refused: "approve_claim s now i actor via = (t, Inl e) \<Longrightarrow> cr_step (s, T, R) (t, T, R)"
| deploy: "deploy_claim s now i actor = (t, Inr (c, f)) \<Longrightarrow>
    cr_step (s, T, R) (t, \<lparr>tk_cr = c, tk_flow = f, tk_actor = actor, tk_via = ''ui'', tk_revert = ''approved'', tk_stage = Claimed\<rparr> # T, R)"
| deploy_refused: "deploy_claim s now i actor = (t, Inl e) \<Longrightarrow> cr_step (s, T, R) (t, T, R)"
| launch: "tk_stage k = Claimed \<Longrightarrow> deploy_launch env s (tk_cr k) (tk_flow k) (tk_actor k) (tk_via k) = (t, r) \<Longrightarrow>
    cr_step (s, A @ k # B, R) (t, A @ k\<lparr>tk_stage := Launched r\<rparr> # B, R)"
| settle: "tk_stage k = Launched r \<Longrightarrow> deploy_settle reg s now (tk_cr k) (tk_revert k) r = (t, out) \<Longrightarrow>
    cr_step (s, A @ k # B, R) (t, A @ B, R)"
| crash: "cr_step (s, A @ k # B, R) (s, A @ B, R)"
| review: "mark_reviewed reg s now i via = (t, r) \<Longrightarrow> cr_step (s, T, R) (t, T, R)"
| reject: "cr_reject reg s now i actor reason = (t, r) \<Longrightarrow> cr_step (s, T, R) (t, T, R)"
| read: "get_cr s i = Some c \<Longrightarrow> cr_step (s, T, R) (s, T, insert c R)"
| forget: "cr_step (s, T, insert c R) (s, T, R)"
| reconcile: "c \<in> R \<Longrightarrow> cr_step (s, T, R) (reconcile s now c, T, R)"
| expire: "cr_step (s, T, R) (fst (cr_transition s now i {''staged''} ''expired'' []), T, R)"
| worker: "repo_step (pdb s) d \<Longrightarrow> cr_step (s, T, R) (s\<lparr>pdb := d\<rparr>, T, R)"
| delete: "cr_step (s, T, R) (s\<lparr>pdb := delete_runs (pdb s) ids,
      crs := map (\<lambda>c. if deploy_run_id c \<in> Some ` ids then c\<lparr>deploy_run_id := None\<rparr> else c) (crs s)\<rparr>, T, R)"
| elsewhere: "(\<And>c. cr_id (g c) = cr_id c \<and> cr_status (g c) = cr_status c \<and> deploy_run_id (g c) = deploy_run_id c) \<Longrightarrow>
    cr_step (s, T, R) (s\<lparr>crs := map g (crs s), flows := fl, auth := au, open_until := ou\<rparr>, T, R)"

section \<open>The specification: the life of a change request\<close>

definition CR_MOVES :: "(string \<times> string) set" where
  "CR_MOVES = {(''staged'', ''approved''), (''staged'', ''deploying''), (''staged'', ''rejected''), (''staged'', ''expired''),
     (''approved'', ''deploying''), (''approved'', ''rejected''),
     (''deploying'', ''staged''), (''deploying'', ''approved''), (''deploying'', ''deployed''), (''deploying'', ''failed'')}"

text \<open>The status of each change request, and the change requests with a deploy run that succeeded.\<close>

inductive spec_step :: "(nat \<Rightarrow> string option) \<times> nat set \<Rightarrow> (nat \<Rightarrow> string option) \<times> nat set \<Rightarrow> bool" where
  opened: "st i = None \<Longrightarrow> spec_step (st, W) (st(i \<mapsto> ''staged''), W)"
| moved: "st i = Some a \<Longrightarrow> (a, b) \<in> CR_MOVES \<Longrightarrow> (b = ''deployed'' \<longrightarrow> i \<in> W) \<Longrightarrow> spec_step (st, W) (st(i \<mapsto> b), W)"
| runs_change: "spec_step (st, W) (st, W')"

definition cr_status_of :: "platform \<Rightarrow> nat \<Rightarrow> string option" where
  "cr_status_of s i = map_option cr_status (get_cr s i)"

definition deploys_of :: "db \<Rightarrow> nat \<Rightarrow> nat set" where
  "deploys_of d i = {k. (k, Some i) \<in> set (column change_request_id d)}"

definition deployed_ids :: "db \<Rightarrow> nat set" where
  "deployed_ids d = {i. \<exists>k \<in> deploys_of d i. status_of d k = Some ''success''}"

definition live_deploys :: "db \<Rightarrow> nat \<Rightarrow> nat set" where
  "live_deploys d i = {k \<in> deploys_of d i. status_of d k \<noteq> Some ''failed''}"

definition cr_abs :: "cr_world \<Rightarrow> (nat \<Rightarrow> string option) \<times> nat set" where
  "cr_abs w = (cr_status_of (fst w), deployed_ids (pdb (fst w)))"

section \<open>The invariant\<close>

definition CR_TAKEN :: "string option set" where
  "CR_TAKEN = {Some ''deploying'', Some ''deployed'', Some ''failed''}"

definition links_ok :: "db \<Rightarrow> cr_row \<Rightarrow> bool" where
  "links_ok d c \<longleftrightarrow> (\<forall>k. deploy_run_id c = Some k \<longrightarrow> k < next_run d \<and> (\<forall>l. (k, l) \<in> set (column change_request_id d) \<longrightarrow> l = Some (cr_id c)))"

definition ticket_ok :: "platform \<Rightarrow> deploy_ticket \<Rightarrow> bool" where
  "ticket_ok s k \<longleftrightarrow> tk_revert k \<in> {''staged'', ''approved''} \<and> cr_status_of s (tk_id k) \<in> CR_TAKEN
     \<and> (case tk_stage k of
          Launched (Inr r) \<Rightarrow> run_id r < next_run (pdb s) \<and> (\<forall>l. (run_id r, l) \<in> set (column change_request_id (pdb s)) \<longrightarrow> l = Some (tk_id k))
        | _ \<Rightarrow> live_deploys (pdb s) (tk_id k) = {})"

definition cr_world_ok :: "cr_world \<Rightarrow> bool" where
  "cr_world_ok w = (case w of (s, T, R) \<Rightarrow>
     db_ok (pdb s) \<and> distinct (map cr_id (crs s)) \<and> (\<forall>c \<in> set (crs s). cr_id c < next_cr s)
     \<and> distinct (map tk_id T) \<and> (\<forall>k \<in> set T. ticket_ok s k)
     \<and> (\<forall>c \<in> set (crs s) \<union> R. links_ok (pdb s) c)
     \<and> (\<forall>i. (\<exists>k. live_deploys (pdb s) i \<subseteq> {k})
          \<and> (cr_status_of s i \<notin> CR_TAKEN \<longrightarrow> live_deploys (pdb s) i = {})))"

lemma cr_world_okD:
  assumes "cr_world_ok (s, T, R)"
  shows "db_ok (pdb s)" "distinct (map cr_id (crs s))" "\<And>c. c \<in> set (crs s) \<Longrightarrow> cr_id c < next_cr s"
    "distinct (map tk_id T)" "\<And>k. k \<in> set T \<Longrightarrow> ticket_ok s k" "\<And>c. c \<in> set (crs s) \<union> R \<Longrightarrow> links_ok (pdb s) c"
    "\<exists>k. live_deploys (pdb s) i \<subseteq> {k}" "cr_status_of s i \<notin> CR_TAKEN \<Longrightarrow> live_deploys (pdb s) i = {}"
  using assms by (auto simp: cr_world_ok_def)

lemma ticket_taken: "ticket_ok s k \<Longrightarrow> cr_status_of s (tk_id k) \<in> CR_TAKEN"
  by (simp add: ticket_ok_def)

lemma ticket_ok_cong:
  "pdb t = pdb s \<Longrightarrow> ticket_ok s k \<Longrightarrow> cr_status_of t (tk_id k) \<in> CR_TAKEN \<Longrightarrow> ticket_ok t k"
  by (simp add: ticket_ok_def split: deploy_stage.splits sum.splits)

lemma links_ok_cong: "cr_id c' = cr_id c \<Longrightarrow> deploy_run_id c' = deploy_run_id c \<Longrightarrow> links_ok d c' = links_ok d c"
  by (simp add: links_ok_def)

section \<open>Steps on the change-request table\<close>

lemma cr_fields_kept [simp]:
  "cr_id (cr_values n now fl c) = cr_id c" "deploy_run_id (cr_values n now fl c) = deploy_run_id c"
  "cr_status (cr_values n now fl c) = n"
proof -
  have "cr_id (set_cr_field f x) = cr_id x \<and> deploy_run_id (set_cr_field f x) = deploy_run_id x" for f x by (cases f) simp_all
  then have "cr_id (foldl (\<lambda>c f. set_cr_field f c) x fl) = cr_id x \<and> deploy_run_id (foldl (\<lambda>c f. set_cr_field f c) x fl) = deploy_run_id x" for x
    by (induction fl arbitrary: x) simp_all
  then show "cr_id (cr_values n now fl c) = cr_id c" "deploy_run_id (cr_values n now fl c) = deploy_run_id c"
    "cr_status (cr_values n now fl c) = n" by (simp_all add: cr_values_def)
qed

lemma get_cr_map:
  assumes "\<And>c. cr_id (g c) = cr_id c" and "crs t = map g (crs s)"
  shows "get_cr t i = map_option g (get_cr s i)"
  using find_key_map [where key = cr_id and f = g, OF assms(1)] by (simp add: get_cr_def assms(2))

lemma get_cr_id: "get_cr s i = Some c \<Longrightarrow> c \<in> set (crs s) \<and> cr_id c = i"
  by (auto simp: get_cr_def dest: find_key_mem)

lemma cr_transition_simps [simp]:
  "pdb (fst (cr_transition s now i E n fl)) = pdb s" "next_cr (fst (cr_transition s now i E n fl)) = next_cr s"
  "map cr_id (crs (fst (cr_transition s now i E n fl))) = map cr_id (crs s)"
  by (auto simp: cr_transition_def Let_def)

lemma cr_transition_links:
  "c' \<in> set (crs (fst (cr_transition s now i E n fl))) \<Longrightarrow> \<exists>c \<in> set (crs s). cr_id c' = cr_id c \<and> deploy_run_id c' = deploy_run_id c"
  by (auto simp: cr_transition_def Let_def split: if_splits)

lemma cr_transition_status:
  "cr_status_of (fst (cr_transition s now i E n fl)) k =
     (if k = i \<and> cr_status_of s i \<in> Some ` E then Some n else cr_status_of s k)"
proof -
  let ?g = "\<lambda>c. if cr_id c = i \<and> cr_status c \<in> E then cr_values n now fl c else c"
  have "get_cr (fst (cr_transition s now i E n fl)) k = map_option ?g (get_cr s k)"
    by (rule get_cr_map) (auto simp: cr_transition_def Let_def)
  then show ?thesis by (cases "get_cr s k") (auto simp: cr_status_of_def dest: get_cr_id)
qed

lemma cr_transition_won:
  assumes "distinct (map cr_id (crs s))"
  shows "snd (cr_transition s now i E n fl) \<longleftrightarrow> cr_status_of s i \<in> Some ` E"
proof -
  have "length (filter (\<lambda>c. cr_id c = i \<and> cr_status c \<in> E) xs) =
      (case List.find (\<lambda>c. cr_id c = i) xs of None \<Rightarrow> 0 | Some c \<Rightarrow> if cr_status c \<in> E then 1 else 0)"
    if "distinct (map cr_id xs)" for xs
    using that
  proof (induction xs)
    case (Cons a xs)
    have "cr_id a \<notin> cr_id ` set xs" using Cons.prems by simp
    then have "List.find (\<lambda>c. cr_id c = cr_id a) xs = None" unfolding find_None_iff by (metis image_eqI)
    with Cons show ?case by auto
  qed simp
  from this [OF assms] show ?thesis
    by (auto simp: cr_transition_def Let_def cr_status_of_def get_cr_def split: option.splits)
qed

lemma world_crs:
  assumes ok: "cr_world_ok (s, T, R)" and "pdb t = pdb s" "next_cr t = next_cr s" "map cr_id (crs t) = map cr_id (crs s)"
    and "\<And>c. c \<in> set (crs t) \<Longrightarrow> links_ok (pdb s) c"
    and "\<And>i. cr_status_of t i \<notin> CR_TAKEN \<Longrightarrow> live_deploys (pdb s) i = {}"
    and "distinct (map tk_id T')" "\<And>k. k \<in> set T' \<Longrightarrow> ticket_ok t k"
  shows "cr_world_ok (t, T', R)"
proof -
  have "cr_id ` set (crs t) = cr_id ` set (crs s)" using assms(4) by (metis list.set_map)
  then have "\<forall>c \<in> set (crs t). cr_id c < next_cr t"
    using cr_world_okD(3) [OF ok] assms(3) by (metis (mono_tags, lifting) imageE imageI)
  with assms(2,4-) cr_world_okD [OF ok] show ?thesis by (auto simp: cr_world_ok_def)
qed

lemma world_transition:
  assumes ok: "cr_world_ok (s, T, R)" and sub: "set T' \<subseteq> set T" "distinct (map tk_id T')"
    and hit: "cr_status_of s i \<in> Some ` E \<Longrightarrow> Some n \<in> CR_TAKEN \<or> (live_deploys (pdb s) i = {} \<and> i \<notin> tk_id ` set T')"
  shows "cr_world_ok (fst (cr_transition s now i E n fl), T', R)"
proof (rule world_crs [OF ok])
  let ?t = "fst (cr_transition s now i E n fl)"
  show "links_ok (pdb s) c" if "c \<in> set (crs ?t)" for c
    using cr_transition_links [OF that] cr_world_okD(6) [OF ok] links_ok_cong by blast
  show "live_deploys (pdb s) k = {}" if "cr_status_of ?t k \<notin> CR_TAKEN" for k
    using that hit cr_world_okD(8) [OF ok] by (auto simp: cr_transition_status split: if_splits)
  show "ticket_ok ?t k" if "k \<in> set T'" for k
  proof (rule ticket_ok_cong)
    show "ticket_ok s k" using that sub cr_world_okD(5) [OF ok] by blast
    then have "cr_status_of s (tk_id k) \<in> CR_TAKEN" by (rule ticket_taken)
    then show "cr_status_of ?t (tk_id k) \<in> CR_TAKEN" using that hit by (auto simp: cr_transition_status)
  qed simp
qed (use sub in simp_all)

lemma spec_transition:
  assumes "\<And>a. a \<in> E \<Longrightarrow> (a, n) \<in> CR_MOVES" and "n = ''deployed'' \<Longrightarrow> i \<in> deployed_ids (pdb s)"
  shows "spec_step\<^sup>*\<^sup>* (cr_abs (s, T, R)) (cr_abs (fst (cr_transition s now i E n fl), T', R'))"
proof (cases "cr_status_of s i \<in> Some ` E")
  case True
  then obtain a where a: "cr_status_of s i = Some a" "a \<in> E" by auto
  have "cr_status_of (fst (cr_transition s now i E n fl)) = (cr_status_of s)(i \<mapsto> n)"
    using True by (auto simp: cr_transition_status)
  moreover have "spec_step (cr_status_of s, deployed_ids (pdb s)) ((cr_status_of s)(i \<mapsto> n), deployed_ids (pdb s))"
    by (rule spec_step.moved) (use a assms in auto)
  ultimately show ?thesis by (auto simp: cr_abs_def)
next
  case False
  then have "cr_status_of (fst (cr_transition s now i E n fl)) = cr_status_of s" by (auto simp: cr_transition_status)
  then show ?thesis by (simp add: cr_abs_def)
qed

section \<open>Steps on the run table\<close>

abbreviation labels :: "db \<Rightarrow> (nat \<times> nat option) set" where
  "labels d \<equiv> set (column change_request_id d)"

text \<open>No deploy run appears or comes back to life.\<close>

definition quiet :: "db \<Rightarrow> db \<Rightarrow> bool" where
  "quiet d e \<longleftrightarrow> db_ok e \<and> next_run d \<le> next_run e \<and> (\<forall>k l. (k, l) \<in> labels e \<longrightarrow> k < next_run d \<longrightarrow> (k, l) \<in> labels d)
     \<and> (\<forall>i. live_deploys e i \<subseteq> live_deploys d i)"

lemma repo_step_labels:
  assumes "repo_step d e"
  shows "labels e \<subseteq> insert (next_run d, None) (labels d)"
proof -
  have "change_request_id r = None" if "create_run d u w tb tt ds ri p a now = (e, r)" for u w tb tt ds ri p a now r
    using that by (auto simp: create_run_def Let_def)
  with label_column.repo_step_column [OF assms] show ?thesis by (metis (mono_tags, lifting) Un_insert_right append_Nil2 list.simps(15) set_append subset_insertI2 subset_refl sup_bot_right empty_set)
qed

lemma quiet_repo_step:
  assumes "db_ok d" and "repo_step d e"
  shows "quiet d e"
proof -
  have dead: "status_of e k = Some ''failed''" if "(k, l) \<in> labels e" "status_of d k = Some ''failed''" for k l
  proof -
    have "status_of e k \<noteq> None" using column_known [OF that(1)] by (auto simp: status_of_def)
    with repo_step_status [OF assms, of k] that(2) show ?thesis by (auto simp: TERMINAL_RUN_STATUSES_def)
  qed
  have "live_deploys e i \<subseteq> live_deploys d i" for i
  proof
    fix k assume "k \<in> live_deploys e i"
    then have k: "(k, Some i) \<in> labels e" "status_of e k \<noteq> Some ''failed''" by (auto simp: live_deploys_def deploys_of_def)
    then have "(k, Some i) \<in> labels d" using repo_step_labels [OF assms(2)] by auto
    with k dead [OF k(1)] show "k \<in> live_deploys d i" by (auto simp: live_deploys_def deploys_of_def)
  qed
  with repo_step_ok [OF assms] repo_step_next [OF assms] repo_step_labels [OF assms(2)] show ?thesis by (auto simp: quiet_def)
qed

lemma links_ok_quiet: "quiet d e \<Longrightarrow> links_ok d c \<Longrightarrow> links_ok e c"
  unfolding links_ok_def quiet_def by (meson less_le_trans)

lemma ticket_ok_quiet:
  assumes q: "quiet (pdb s) (pdb t)" and "cr_status_of t (tk_id k) = cr_status_of s (tk_id k)" and "ticket_ok s k"
  shows "ticket_ok t k"
proof -
  have "live_deploys (pdb s) i = {} \<Longrightarrow> live_deploys (pdb t) i = {}" for i using q by (metis quiet_def subset_empty)
  moreover have "run_id r < next_run (pdb t) \<and> (\<forall>l. (run_id r, l) \<in> labels (pdb t) \<longrightarrow> l = Some i)"
    if "run_id r < next_run (pdb s)" "\<forall>l. (run_id r, l) \<in> labels (pdb s) \<longrightarrow> l = Some i" for r i
    using q that by (auto simp: quiet_def)
  ultimately show ?thesis using assms(2,3) unfolding ticket_ok_def by (auto split: deploy_stage.splits sum.splits)
qed

lemma world_quiet:
  assumes ok: "cr_world_ok (s, T, R)" and q: "quiet (pdb s) (pdb t)" and "next_cr t = next_cr s"
    and g: "crs t = map g (crs s)" "\<And>c. cr_id (g c) = cr_id c \<and> cr_status (g c) = cr_status c \<and> deploy_run_id (g c) \<in> {None, deploy_run_id c}"
  shows "cr_world_ok (t, T, R)" and "cr_status_of t i = cr_status_of s i"
proof -
  have gid: "\<And>c. cr_id (g c) = cr_id c" using g(2) by blast
  have st: "cr_status_of t i = cr_status_of s i" for i
    unfolding cr_status_of_def get_cr_map [OF gid g(1)] using g(2) by (cases "get_cr s i") simp_all
  then show "cr_status_of t i = cr_status_of s i" .
  have "links_ok (pdb s) (g c)" if "links_ok (pdb s) c" for c using that g(2) [of c] by (auto simp: links_ok_def)
  then have links: "links_ok (pdb t) c" if "c \<in> set (crs t) \<union> R" for c
    using that cr_world_okD(6) [OF ok] links_ok_quiet [OF q] g(1) by auto
  have ids: "map cr_id (crs t) = map cr_id (crs s)" "\<forall>c \<in> set (crs t). cr_id c < next_cr t"
    using g(1) gid cr_world_okD(3) [OF ok] assms(3) by (auto simp: o_def)
  have "live_deploys (pdb t) i \<subseteq> live_deploys (pdb s) i" for i using q by (simp add: quiet_def)
  then have live: "(\<exists>k. live_deploys (pdb t) i \<subseteq> {k}) \<and> (cr_status_of t i \<notin> CR_TAKEN \<longrightarrow> live_deploys (pdb t) i = {})" for i
    using cr_world_okD(7,8) [OF ok, of i] st by (metis order_trans subset_empty)
  have "ticket_ok t k" if "k \<in> set T" for k using ticket_ok_quiet [OF q st] cr_world_okD(5) [OF ok that] .
  with links ids live cr_world_okD(2,4) [OF ok] q show "cr_world_ok (t, T, R)" by (simp add: cr_world_ok_def quiet_def)
qed

lemma db_ok_label: "db_ok d \<Longrightarrow> db_ok (label_run d k cr node)"
  by (erule db_okI) (auto simp: label_run_def)

lemma launch_effect:
  assumes ok: "db_ok (pdb s)"
    and launch: "create_and_dispatch_run env s f user trig devs inputs (Some i) parent anc node = (t, res)"
  shows "crs t = crs s" "next_cr t = next_cr s" "db_ok (pdb t)" "next_run (pdb s) \<le> next_run (pdb t)"
    "labels (pdb t) \<subseteq> insert (next_run (pdb s), Some i) (labels (pdb s))"
    "k \<noteq> next_run (pdb s) \<Longrightarrow> status_of (pdb t) k = status_of (pdb s) k"
    "isl res \<Longrightarrow> (next_run (pdb s), l) \<in> labels (pdb t) \<Longrightarrow> status_of (pdb t) (next_run (pdb s)) = Some ''failed''"
    "res = Inr r \<Longrightarrow> run_id r = next_run (pdb s) \<and> next_run (pdb s) < next_run (pdb t)"
proof -
  let ?n = "next_run (pdb s)"
  obtain d r0 where c: "create_run (pdb s) (new_uuid env) (wf_id f) user trig devs inputs parent anc (utc_now env) = (d, r0)" by fastforce
  have d: "run_id r0 = ?n" "run_status r0 = ''pending''" "next_run d = Suc ?n" "runs d = runs (pdb s) @ [r0]"
    using c by (auto simp: create_run_def Let_def)
  define e where "e = label_run d ?n (Some i) node"
  have fresh: "\<forall>x \<in> set (runs (pdb s)). run_id x \<noteq> ?n" using ok by (auto simp: db_ok_def)
  have lab: "labels e \<subseteq> insert (?n, Some i) (labels (pdb s))"
    using fresh by (auto simp: e_def label_run_def column_def d)
  have eok: "db_ok e" using db_ok_label [OF db_ok_create_run [OF ok c]] by (simp add: e_def)
  have enext: "next_run e = Suc ?n" by (simp add: e_def label_run_def d)
  have est: "status_of e k = (if k = ?n then Some ''pending'' else status_of (pdb s) k)" for k
  proof -
    let ?g = "\<lambda>x :: run_row. if run_id x = ?n then x\<lparr>change_request_id := Some i, run_ai_result_node_id := node\<rparr> else x"
    have "run_id (?g x) = run_id x" for x by simp
    from find_key_map [where key = run_id and f = ?g, OF this] have "get_run e k = map_option ?g (get_run d k)"
      by (simp add: e_def label_run_def get_run_def)
    then have "status_of e k = status_of d k" by (cases "get_run d k") (simp_all add: status_of_def)
    then show ?thesis using status_of_create [OF ok c] by simp
  qed
  have cases: "(t = s \<and> isl res) \<or> (\<exists>fs. pdb t = fst (transition_run e ?n ''failed'' None fs) \<and> isl res)
      \<or> (\<exists>h. pdb t = record_hatchet_run_id e ?n h \<and> res = Inr (reload_run t r0))"
    and same: "crs t = crs s" "next_cr t = next_cr s"
    using launch by (auto simp: create_and_dispatch_run_def c d(1) e_def [symmetric] Let_def dispatch_failed_def record_success_def
        record_failure_def update_run_status_def split: sum.splits option.splits if_splits)
  show "crs t = crs s" "next_cr t = next_cr s" by (rule same)+
  have ran: "status_of (fst (transition_run e ?n ''failed'' None fs)) k = (if k = ?n then Some ''failed'' else status_of e k)" for fs k
  proof (cases "get_run e k")
    case (Some x)
    then have "status_of e k = Some (run_status x)" by (simp add: status_of_def)
    then show ?thesis using Some est [of k] unfolding status_of_transition by (auto simp: transition_guard_def TERMINAL_RUN_STATUSES_def)
  next
    case None
    then have "status_of e k = None" by (simp add: status_of_def)
    then show ?thesis using None est [of k] unfolding status_of_transition by (auto split: if_splits)
  qed
  from cases show "db_ok (pdb t)" using ok eok by (auto intro: db_ok_transition db_ok_record_hatchet)
  have nr: "next_run (fst (transition_run e ?n ''failed'' None fs)) = Suc ?n" "next_run (record_hatchet_run_id e ?n h) = Suc ?n" for fs h
    by (simp_all add: transition_run_def record_hatchet_run_id_def Let_def enext)
  from cases show "?n \<le> next_run (pdb t)" by (auto simp: nr enext)
  from cases show "labels (pdb t) \<subseteq> insert (?n, Some i) (labels (pdb s))"
    using lab by (auto simp: label_column.transition_kept label_column.record_kept)
  from cases show "status_of (pdb t) k = status_of (pdb s) k" if "k \<noteq> ?n" using that by (auto simp: ran status_of_record est)
  show "status_of (pdb t) ?n = Some ''failed''" if "isl res" "(?n, l) \<in> labels (pdb t)"
    using cases that column_fresh [OF ok, of ?n l change_request_id] by (auto simp: ran)
  show "run_id r = ?n \<and> ?n < next_run (pdb t)" if "res = Inr r"
  proof -
    from cases that obtain h where h: "pdb t = record_hatchet_run_id e ?n h" "r = reload_run t r0" by auto
    have "run_id (reload_run t r0) = ?n" using d(1) by (auto simp: reload_run_def dest: get_run_id split: option.split)
    then show ?thesis using h by (simp add: nr)
  qed
qed

section \<open>Every step keeps the invariant and follows the specification\<close>

text \<open>What a step must give.\<close>

definition simulates :: "cr_world \<Rightarrow> cr_world \<Rightarrow> bool" where
  "simulates w w' \<longleftrightarrow> cr_world_ok w' \<and> spec_step\<^sup>*\<^sup>* (cr_abs w) (cr_abs w')"

lemma sim_transition:
  assumes "cr_world_ok (s, T, R)" and "set T' \<subseteq> set T" "distinct (map tk_id T')"
    and "cr_status_of s i \<in> Some ` E \<Longrightarrow> Some n \<in> CR_TAKEN \<or> (live_deploys (pdb s) i = {} \<and> i \<notin> tk_id ` set T')"
    and "\<And>a. a \<in> E \<Longrightarrow> (a, n) \<in> CR_MOVES" and "n = ''deployed'' \<Longrightarrow> i \<in> deployed_ids (pdb s)"
  shows "simulates (s, T, R) (fst (cr_transition s now i E n fl), T', R)"
  unfolding simulates_def by (intro conjI world_transition [OF assms(1-4)] spec_transition assms)

lemma free_ticket:
  assumes ok: "cr_world_ok (s, T, R)" and "cr_status_of s i \<notin> CR_TAKEN"
  shows "live_deploys (pdb s) i = {}" "i \<notin> tk_id ` set T"
proof -
  show "live_deploys (pdb s) i = {}" by (rule cr_world_okD(8) [OF ok assms(2)])
  show "i \<notin> tk_id ` set T"
  proof
    assume "i \<in> tk_id ` set T"
    then obtain k where "k \<in> set T" and i: "i = tk_id k" by (rule imageE)
    then have "ticket_ok s k" by (intro cr_world_okD(5) [OF ok])
    then show False using assms(2) ticket_taken i by metis
  qed
qed

lemma sim_move:
  assumes ok: "cr_world_ok (s, T, R)" and E: "E \<subseteq> {''staged'', ''approved''}" and "\<And>a. a \<in> E \<Longrightarrow> (a, n) \<in> CR_MOVES" "n \<noteq> ''deployed''"
  shows "simulates (s, T, R) (fst (cr_transition s now i E n fl), T, R)"
proof (rule sim_transition [OF ok subset_refl cr_world_okD(4) [OF ok] _ assms(3)])
  assume "cr_status_of s i \<in> Some ` E"
  then have "cr_status_of s i \<notin> CR_TAKEN" using E by (auto simp: CR_TAKEN_def)
  then show "Some n \<in> CR_TAKEN \<or> (live_deploys (pdb s) i = {} \<and> i \<notin> tk_id ` set T)" using free_ticket [OF ok] by blast
next
  assume "n = ''deployed''"
  with assms(4) show "i \<in> deployed_ids (pdb s)" by simp
qed

lemma sim_quiet:
  assumes "cr_world_ok (s, T, R)" and "quiet (pdb s) (pdb t)" and "next_cr t = next_cr s"
    and "crs t = map g (crs s)" "\<And>c. cr_id (g c) = cr_id c \<and> cr_status (g c) = cr_status c \<and> deploy_run_id (g c) \<in> {None, deploy_run_id c}"
  shows "simulates (s, T, R) (t, T, R)"
proof -
  have "cr_status_of t = cr_status_of s" using world_quiet(2) [OF assms] by blast
  then have "spec_step (cr_abs (s, T, R)) (cr_abs (t, T, R))" by (simp add: cr_abs_def spec_step.runs_change)
  then show ?thesis unfolding simulates_def using world_quiet(1) [OF assms] by blast
qed

lemma quiet_refl: "db_ok d \<Longrightarrow> quiet d d"
  by (simp add: quiet_def)

lemma cr_move_pair:
  assumes "cr_move s now c E n fl lost = (t, r)"
  shows "t = fst (cr_transition s now (cr_id c) E n fl)" "snd (cr_transition s now (cr_id c) E n fl) \<longleftrightarrow> r = Inr (reload_cr t c)"
    "\<not> isl r \<Longrightarrow> r = Inr (reload_cr t c)"
  using assms by (auto simp: cr_move_def case_prod_unfold Let_def split: if_splits)

text \<open>A claim that succeeded.\<close>

lemma sim_claim:
  assumes ok: "cr_world_ok (s, T, R)" and mv: "cr_move s now c {a} ''deploying'' fl lost = (t, Inr c')" and a: "a \<in> {''staged'', ''approved''}"
  shows "simulates (s, T, R) (t, \<lparr>tk_cr = c', tk_flow = f, tk_actor = u, tk_via = v, tk_revert = a, tk_stage = Claimed\<rparr> # T, R)"
proof -
  let ?k = "\<lparr>tk_cr = c', tk_flow = f, tk_actor = u, tk_via = v, tk_revert = a, tk_stage = Claimed\<rparr>"
  let ?t = "fst (cr_transition s now (cr_id c) {a} ''deploying'' fl)"
  have t: "t = ?t" "c' = reload_cr t c" "snd (cr_transition s now (cr_id c) {a} ''deploying'' fl)" using cr_move_pair [OF mv] by auto
  have "cr_status_of s (cr_id c) = Some a" using t(3) cr_transition_won [OF cr_world_okD(2) [OF ok]] by auto
  then have free: "live_deploys (pdb s) (cr_id c) = {}" "cr_id c \<notin> tk_id ` set T" and st: "cr_status_of t (cr_id c) = Some ''deploying''"
    using free_ticket [OF ok, of "cr_id c"] a by (auto simp: t(1) cr_transition_status CR_TAKEN_def)
  have id: "tk_id ?k = cr_id c" by (auto simp: tk_id_def t(2) reload_cr_def split: option.split dest: get_cr_id)
  have sim: "simulates (s, T, R) (t, T, R)" unfolding t(1) using a by (intro sim_move [OF ok]) (auto simp: CR_MOVES_def)
  then have ok': "cr_world_ok (t, T, R)" by (simp add: simulates_def)
  have "ticket_ok t ?k" using free(1) st id a by (simp add: ticket_ok_def CR_TAKEN_def t(1))
  then have "cr_world_ok (t, ?k # T, R)" using cr_world_okD [OF ok'] free(2) id
    by (intro world_crs [OF ok']) auto
  then show ?thesis using sim by (simp add: simulates_def cr_abs_def)
qed

lemma sim_reconcile:
  assumes ok: "cr_world_ok (s, T, R)" and c: "c \<in> R"
  shows "simulates (s, T, R) (reconcile s now c, T, R)"
proof -
  have fail: "simulates (s, T, R) (cr_fail s now i m, T, R)" for i m
    unfolding cr_fail_def by (rule sim_transition [OF ok]) (auto simp: cr_world_okD(4) [OF ok] CR_TAKEN_def CR_MOVES_def)
  have stay: "simulates (s, T, R) (s, T, R)" using ok by (simp add: simulates_def)
  have success: "simulates (s, T, R) (fst (cr_transition s now (cr_id c) {''deploying''} ''deployed'' []), T, R)"
    if "deploy_run_id c = Some k" "get_run (pdb s) k = Some r" "run_status r = ''success''" for k r
  proof (rule sim_transition [OF ok])
    have "links_ok (pdb s) c" using cr_world_okD(6) [OF ok] c by blast
    moreover have "(k, change_request_id r) \<in> labels (pdb s)" by (simp add: column_unique [OF cr_world_okD(1) [OF ok] that(2)])
    ultimately have "k \<in> deploys_of (pdb s) (cr_id c)" using that(1) by (auto simp: links_ok_def deploys_of_def)
    moreover have "status_of (pdb s) k = Some ''success''" using that by (simp add: status_of_def)
    ultimately show "cr_id c \<in> deployed_ids (pdb s)" by (auto simp: deployed_ids_def)
  qed (auto simp: cr_world_okD(4) [OF ok] CR_TAKEN_def CR_MOVES_def)
  show ?thesis using fail stay success unfolding reconcile_def by (auto split: option.split)
qed

lemma cr_status_new:
  assumes ok: "cr_world_ok (s, T, R)" and t: "crs t = crs s @ [c]" "cr_id c = next_cr s"
  shows "cr_status_of t i = (if i = next_cr s then Some (cr_status c) else cr_status_of s i)" "cr_status_of s (next_cr s) = None"
proof -
  have fresh: "cr_id x \<noteq> next_cr s" if "x \<in> set (crs s)" for x using cr_world_okD(3) [OF ok that] by simp
  then have none: "get_cr s (next_cr s) = None" by (auto simp: get_cr_def find_None_iff)
  then show "cr_status_of s (next_cr s) = None" by (simp add: cr_status_of_def)
  have "get_cr t i = (if i = next_cr s then Some c else get_cr s i)"
    using none t by (auto simp: get_cr_def find_append split: option.split)
  then show "cr_status_of t i = (if i = next_cr s then Some (cr_status c) else cr_status_of s i)" by (simp add: cr_status_of_def)
qed

lemma sim_stage:
  assumes ok: "cr_world_ok (s, T, R)" and new: "create_from_step s now draft hours = Inr (t, c)"
  shows "simulates (s, T, R) (t, T, R)"
proof -
  have t: "crs t = crs s @ [c]" "cr_id c = next_cr s" "cr_status c = ''staged''" "deploy_run_id c = None" "pdb t = pdb s"
    "next_cr t = Suc (next_cr s)"
    using new by (auto simp: create_from_step_def cr_create_def Let_def split: if_splits)
  note st = cr_status_new [OF ok t(1,2)]
  have free: "live_deploys (pdb s) (next_cr s) = {}" "next_cr s \<notin> tk_id ` set T"
    by (rule free_ticket [OF ok], simp add: st(2) CR_TAKEN_def)+
  have "ticket_ok t k" if "k \<in> set T" for k
  proof (rule ticket_ok_cong [OF t(5) cr_world_okD(5) [OF ok that]])
    have "tk_id k \<noteq> next_cr s" using that free(2) by force
    then show "cr_status_of t (tk_id k) \<in> CR_TAKEN" using ticket_taken [OF cr_world_okD(5) [OF ok that]] st(1) by simp
  qed
  moreover have "live_deploys (pdb t) i = {}" if "cr_status_of t i \<notin> CR_TAKEN" for i
    using that free(1) cr_world_okD(8) [OF ok, of i] st(1) [of i] t(5) by (auto split: if_splits)
  moreover have "links_ok (pdb t) c" using t(4) by (simp add: links_ok_def)
  moreover have "next_cr s \<notin> cr_id ` set (crs s)" using cr_world_okD(3) [OF ok] by fastforce
  ultimately have "cr_world_ok (t, T, R)" using cr_world_okD [OF ok] t unfolding cr_world_ok_def
    by (auto simp: less_Suc_eq)
  moreover have "spec_step (cr_abs (s, T, R)) (cr_abs (t, T, R))"
  proof -
    have "cr_status_of t = (cr_status_of s)(next_cr s \<mapsto> ''staged'')" using st(1) t(3) by auto
    then show ?thesis using spec_step.opened [of "cr_status_of s" "next_cr s"] st(2) t(5) by (simp add: cr_abs_def)
  qed
  ultimately show ?thesis by (auto simp: simulates_def)
qed

lemma other_ticket: "distinct (map tk_id (A @ k # B)) \<Longrightarrow> x \<in> set (A @ B) \<Longrightarrow> tk_id x \<noteq> tk_id k"
  by (auto simp: image_iff)

lemma sim_launch:
  assumes ok: "cr_world_ok (s, A @ k # B, R)" and stage: "tk_stage k = Claimed"
    and launch: "deploy_launch env s (tk_cr k) (tk_flow k) (tk_actor k) (tk_via k) = (t, r)"
  shows "simulates (s, A @ k # B, R) (t, A @ k\<lparr>tk_stage := Launched r\<rparr> # B, R)"
proof -
  let ?n = "next_run (pdb s)" and ?k = "k\<lparr>tk_stage := Launched r\<rparr>"
  note eff = launch_effect [OF cr_world_okD(1) [OF ok] launch [unfolded deploy_launch_def], folded tk_id_def]
  have kok: "ticket_ok s k" using cr_world_okD(5) [OF ok] by simp
  then have none: "live_deploys (pdb s) (tk_id k) = {}" using stage by (simp add: ticket_ok_def)
  have st: "cr_status_of t i = cr_status_of s i" for i using eff(1) by (simp add: cr_status_of_def get_cr_def)
  have lab: "(j, l) \<in> labels (pdb s)" if "(j, l) \<in> labels (pdb t)" "j \<noteq> ?n" for j l using that eff(5) by auto
  have live: "j \<in> live_deploys (pdb s) i \<or> (j = ?n \<and> i = tk_id k \<and> \<not> isl r)" if "j \<in> live_deploys (pdb t) i" for i j
  proof (cases "j = ?n")
    case True
    have "(?n, Some i) \<notin> labels (pdb s)" by (rule column_new [OF cr_world_okD(1) [OF ok]])
    then show ?thesis using that True eff(5) eff(7) [of "Some i"] by (auto simp: live_deploys_def deploys_of_def)
  next
    case False
    then show ?thesis using that eff(6) [OF False] lab by (auto simp: live_deploys_def deploys_of_def)
  qed
  have other: "ticket_ok t x" if "x \<in> set (A @ B)" for x
  proof -
    have x: "ticket_ok s x" "tk_id x \<noteq> tk_id k"
      using that cr_world_okD(5) [OF ok] other_ticket [OF cr_world_okD(4) [OF ok] that] by auto
    have "live_deploys (pdb s) (tk_id x) = {} \<Longrightarrow> live_deploys (pdb t) (tk_id x) = {}" using live x(2) by blast
    moreover have "run_id y < next_run (pdb t) \<and> (\<forall>l. (run_id y, l) \<in> labels (pdb t) \<longrightarrow> l = Some (tk_id x))"
      if "run_id y < ?n" "\<forall>l. (run_id y, l) \<in> labels (pdb s) \<longrightarrow> l = Some (tk_id x)" for y using that eff(4) lab by auto
    ultimately show ?thesis using x(1) st unfolding ticket_ok_def by (auto split: deploy_stage.splits sum.splits)
  qed
  have kok': "ticket_ok t ?k"
  proof (cases r)
    case (Inl e)
    then have "live_deploys (pdb t) (tk_id k) = {}" using live none by auto
    then show ?thesis using kok Inl st by (simp add: ticket_ok_def tk_id_def)
  next
    case (Inr y)
    have "(?n, l) \<notin> labels (pdb s)" for l by (rule column_new [OF cr_world_okD(1) [OF ok]])
    then have "(?n, l) \<in> labels (pdb t) \<Longrightarrow> l = Some (tk_id k)" for l using eff(5) by auto
    then show ?thesis using kok Inr st eff(8) [OF Inr] by (simp add: ticket_ok_def tk_id_def)
  qed
  have links: "links_ok (pdb t) c" if "links_ok (pdb s) c" for c
    using that eff(4) lab by (fastforce simp: links_ok_def)
  have one: "\<exists>j. live_deploys (pdb t) i \<subseteq> {j}" for i
  proof (cases "i = tk_id k")
    case True
    then show ?thesis using live none by blast
  next
    case False
    then have "live_deploys (pdb t) i \<subseteq> live_deploys (pdb s) i" using live by blast
    then show ?thesis using cr_world_okD(7) [OF ok, of i] by blast
  qed
  have "live_deploys (pdb t) i = {}" if "cr_status_of t i \<notin> CR_TAKEN" for i
  proof -
    have "i \<noteq> tk_id k" "live_deploys (pdb s) i = {}" using that st ticket_taken [OF kok] cr_world_okD(8) [OF ok] by auto
    then show ?thesis using live by blast
  qed
  with one links kok' other eff(1-3) cr_world_okD [OF ok] have "cr_world_ok (t, A @ ?k # B, R)"
    by (auto simp: cr_world_ok_def tk_id_def)
  moreover have "cr_status_of t = cr_status_of s" using st by blast
  then have "spec_step (cr_abs (s, A @ k # B, R)) (cr_abs (t, A @ ?k # B, R))" by (simp add: cr_abs_def spec_step.runs_change)
  ultimately show ?thesis by (auto simp: simulates_def)
qed

lemma sim_settle:
  assumes ok: "cr_world_ok (s, A @ k # B, R)" and stage: "tk_stage k = Launched r"
    and settle: "deploy_settle reg s now (tk_cr k) (tk_revert k) r = (t, out)"
  shows "simulates (s, A @ k # B, R) (t, A @ B, R)"
proof (cases r)
  case (Inl e)
  have kok: "ticket_ok s k" using cr_world_okD(5) [OF ok] by simp
  have t: "t = fst (cr_transition s now (tk_id k) {''deploying''} (tk_revert k) (revert_fields (tk_revert k)))"
    using settle Inl by (simp add: deploy_settle_def tk_id_def)
  show ?thesis unfolding t
  proof (rule sim_transition [OF ok])
    have "live_deploys (pdb s) (tk_id k) = {}" using kok stage Inl by (simp add: ticket_ok_def)
    moreover have "tk_id k \<notin> tk_id ` set (A @ B)" using cr_world_okD(4) [OF ok] by auto
    ultimately show "Some (tk_revert k) \<in> CR_TAKEN \<or> (live_deploys (pdb s) (tk_id k) = {} \<and> tk_id k \<notin> tk_id ` set (A @ B))" by blast
  qed (use kok cr_world_okD(4) [OF ok] in \<open>auto simp: ticket_ok_def CR_MOVES_def\<close>)
next
  case (Inr y)
  have kok: "ticket_ok s k" using cr_world_okD(5) [OF ok] by simp
  define g where "g = (\<lambda>c :: cr_row. if cr_id c = tk_id k then c\<lparr>deploy_run_id := Some (run_id y), cr_updated_at := now\<rparr> else c)"
  have t: "t = s \<or> t = s\<lparr>crs := map g (crs s)\<rparr>"
    using settle Inr by (auto simp: deploy_settle_def set_deploy_run_id_def g_def tk_id_def Let_def split: if_splits)
  have same: "pdb t = pdb s" "next_cr t = next_cr s" "map cr_id (crs t) = map cr_id (crs s)" using t by (auto simp: g_def)
  have gid: "cr_id (g c) = cr_id c" for c by (simp add: g_def)
  have "get_cr t i = get_cr s i \<or> get_cr t i = map_option g (get_cr s i)" for i
    using t get_cr_map [OF gid, of t s i] by auto
  moreover have "cr_status (g c) = cr_status c" for c by (simp add: g_def)
  ultimately have "cr_status_of t i = cr_status_of s i" for i
    unfolding cr_status_of_def by (cases "get_cr s i") (metis option.simps(8,9))+
  then have st: "cr_status_of t = cr_status_of s" by blast
  have "links_ok (pdb s) (g c)" if "links_ok (pdb s) c" for c
    using that kok stage Inr by (auto simp: links_ok_def g_def ticket_ok_def)
  then have links: "links_ok (pdb s) c" if "c \<in> set (crs t)" for c
    using that t cr_world_okD(6) [OF ok] by auto
  have "cr_world_ok (t, A @ B, R)"
  proof (rule world_crs [OF ok same links])
    show "live_deploys (pdb s) i = {}" if "cr_status_of t i \<notin> CR_TAKEN" for i using cr_world_okD(8) [OF ok] that st by simp
    show "ticket_ok t x" if "x \<in> set (A @ B)" for x
    proof (rule ticket_ok_cong [OF same(1)])
      show "ticket_ok s x" using cr_world_okD(5) [OF ok] that by auto
      then show "cr_status_of t (tk_id x) \<in> CR_TAKEN" using st ticket_taken by simp
    qed
  qed (use cr_world_okD(4) [OF ok] in auto)
  then show ?thesis using st same by (simp add: simulates_def cr_abs_def)
qed

lemma sim_refl: "cr_world_ok w \<Longrightarrow> simulates w w"
  by (simp add: simulates_def)

lemma sim_drop: "cr_world_ok (s, A @ k # B, R) \<Longrightarrow> simulates (s, A @ k # B, R) (s, A @ B, R)"
  by (auto simp: simulates_def cr_world_ok_def cr_abs_def)

lemma cr_step_sim: "cr_step w w' \<Longrightarrow> cr_world_ok w \<Longrightarrow> simulates w w'"
proof (induction rule: cr_step.induct)
  case (stage s now draft hours t c T R)
  then show ?case by (intro sim_stage)
next
  case (approve s now i actor via t c f T R)
  then obtain c0 where "cr_move s now c0 {''staged''} ''deploying'' [ApprovedBy actor, ApprovedVia (Some via), ApprovedAt (Some now)]
      (\<lambda>st. ''Change request is not awaiting approval (status='' @ st @ '')'') = (t, Inr c)"
    by (auto simp: approve_claim_def res_bind_Inr_iff Let_def split: sum.splits prod.splits)
  from sim_claim [OF approve.prems this] show ?case by simp
next
  case (deploy s now i actor t c f T R)
  then obtain c0 where "cr_move s now c0 {''approved''} ''deploying'' []
      (\<lambda>st. ''Change request is not in '' @ py_repr ''approved'' @ '' state (status='' @ st @ '')'') = (t, Inr c)"
    by (auto simp: deploy_claim_def res_bind_Inr_iff Let_def split: sum.splits prod.splits)
  from sim_claim [OF deploy.prems this] show ?case by simp
next
  case (approve_refused s now i actor via t e T R)
  then have "t = s \<or> (\<exists>j fl. t = fst (cr_transition s now j {''staged''} ''deploying'' fl))"
    by (auto simp: approve_claim_def Let_def case_prod_unfold cr_move_def split: sum.splits)
  then show ?case using approve_refused.prems by (auto intro!: sim_move simp: CR_MOVES_def sim_refl)
next
  case (deploy_refused s now i actor t e T R)
  then have "t = s \<or> (\<exists>j fl. t = fst (cr_transition s now j {''approved''} ''deploying'' fl))"
    by (auto simp: deploy_claim_def Let_def case_prod_unfold cr_move_def split: sum.splits)
  then show ?case using deploy_refused.prems by (auto intro!: sim_move simp: CR_MOVES_def sim_refl)
next
  case (launch k env s t r A B R)
  then show ?case by (intro sim_launch)
next
  case (settle k r reg s now t out A B R)
  then show ?case by (intro sim_settle)
next
  case (crash s A k B R)
  then show ?case by (rule sim_drop)
next
  case (review reg s now i via t r T R)
  then have "t = s \<or> (\<exists>j fl. t = fst (cr_transition s now j {''staged''} ''approved'' fl))"
    by (auto simp: mark_reviewed_def Let_def case_prod_unfold cr_move_def split: sum.splits)
  then show ?case using review.prems by (auto intro!: sim_move simp: CR_MOVES_def sim_refl)
next
  case (reject reg s now i actor reason t r T R)
  then have "t = s \<or> (\<exists>j fl. t = fst (cr_transition s now j {''staged'', ''approved''} ''rejected'' fl))"
    by (auto simp: cr_reject_def Let_def case_prod_unfold cr_move_def split: sum.splits)
  then show ?case using reject.prems by (auto intro!: sim_move simp: CR_MOVES_def sim_refl)
next
  case (read s i c T R)
  then show ?case using cr_world_okD(6) [OF read.prems] get_cr_id [OF read.hyps] by (auto simp: simulates_def cr_world_ok_def cr_abs_def)
next
  case (forget s T c R)
  then show ?case by (auto simp: simulates_def cr_world_ok_def cr_abs_def)
next
  case (reconcile c R s T now)
  then show ?case by (intro sim_reconcile)
next
  case (expire s T R now i)
  then show ?case by (intro sim_move) (auto simp: CR_MOVES_def)
next
  case (worker s d T R)
  then show ?case using cr_world_okD(1) [OF worker.prems]
    by (intro sim_quiet [where g = id]) (auto intro: quiet_repo_step)
next
  case (delete s T R ids)
  have "quiet (pdb s) (delete_runs (pdb s) ids)"
    using cr_world_okD(1) [OF delete] repo_step.delete by (rule quiet_repo_step)
  then show ?case
    by (intro sim_quiet [OF delete, where g = "\<lambda>c. if deploy_run_id c \<in> Some ` ids then c\<lparr>deploy_run_id := None\<rparr> else c"]) auto
next
  case (elsewhere g s T R fl au ou)
  then show ?case using quiet_refl [OF cr_world_okD(1) [OF elsewhere.prems]] by (intro sim_quiet [OF elsewhere.prems]) auto
qed

section \<open>The operations as paths of the machine\<close>

lemma path_one: "cr_step w w' \<Longrightarrow> cr_step\<^sup>*\<^sup>* w w'"
  by (rule r_into_rtranclp)

lemma dispatch_path:
  assumes "dispatch_deploy reg env s c f actor via revert = (t, out)"
  shows "cr_step\<^sup>*\<^sup>* (s, \<lparr>tk_cr = c, tk_flow = f, tk_actor = actor, tk_via = via, tk_revert = revert, tk_stage = Claimed\<rparr> # T, R) (t, T, R)"
proof -
  let ?k = "\<lparr>tk_cr = c, tk_flow = f, tk_actor = actor, tk_via = via, tk_revert = revert, tk_stage = Claimed\<rparr>"
  obtain s1 r where l: "deploy_launch env s c f actor via = (s1, r)" by fastforce
  have "deploy_settle reg s1 (utc_now env) c revert r = (t, out)" using assms by (simp add: dispatch_deploy_def l)
  then have "cr_step (s1, [] @ ?k\<lparr>tk_stage := Launched r\<rparr> # T, R) (t, [] @ T, R)" by (intro cr_step.settle) auto
  moreover have "cr_step (s, [] @ ?k # T, R) (s1, [] @ ?k\<lparr>tk_stage := Launched r\<rparr> # T, R)" by (rule cr_step.launch [where env = env]) (auto simp: l)
  ultimately show ?thesis by (auto intro: converse_rtranclp_into_rtranclp)
qed

lemma approve_path:
  assumes "cr_approve reg env s i actor via = (t, out)"
  shows "cr_step\<^sup>*\<^sup>* (s, T, R) (t, T, R)"
proof (cases "approve_claim s (utc_now env) i actor via")
  case (Pair s1 r)
  show ?thesis
  proof (cases r)
    case (Inl e)
    then show ?thesis using assms Pair by (auto simp: cr_approve_def intro: path_one cr_step.approve_refused)
  next
    case (Inr cf)
    obtain c f where [simp]: "cf = (c, f)" by fastforce
    have "dispatch_deploy reg env s1 c f actor via ''staged'' = (t, out)" using assms Pair Inr by (simp add: cr_approve_def)
    from dispatch_path [OF this, of T R] cr_step.approve [of s "utc_now env" i actor via s1 c f T R] show ?thesis
      using Pair Inr by (auto intro: converse_rtranclp_into_rtranclp)
  qed
qed

lemma deploy_path:
  assumes "cr_deploy reg env s i actor = (t, out)"
  shows "cr_step\<^sup>*\<^sup>* (s, T, R) (t, T, R)"
proof (cases "deploy_claim s (utc_now env) i actor")
  case (Pair s1 r)
  show ?thesis
  proof (cases r)
    case (Inl e)
    then show ?thesis using assms Pair by (auto simp: cr_deploy_def intro: path_one cr_step.deploy_refused)
  next
    case (Inr cf)
    obtain c f where [simp]: "cf = (c, f)" by fastforce
    have "dispatch_deploy reg env s1 c f actor ''ui'' ''approved'' = (t, out)" using assms Pair Inr by (simp add: cr_deploy_def)
    from dispatch_path [OF this, of T R] cr_step.deploy [of s "utc_now env" i actor s1 c f T R] show ?thesis
      using Pair Inr by (auto intro: converse_rtranclp_into_rtranclp)
  qed
qed

lemma reconcile_path:
  assumes "get_cr s i = Some c"
  shows "cr_step\<^sup>*\<^sup>* (s, T, R) (reconcile s now c, T, R)"
proof -
  have "cr_step (s, T, R) (s, T, insert c R)" using assms by (rule cr_step.read)
  moreover have "cr_step (s, T, insert c R) (reconcile s now c, T, insert c R)" by (rule cr_step.reconcile) simp
  moreover have "cr_step (reconcile s now c, T, insert c R) (reconcile s now c, T, R)" by (rule cr_step.forget)
  ultimately show ?thesis by (meson converse_rtranclp_into_rtranclp rtranclp.rtrancl_refl)
qed

lemma get_path: "cr_step\<^sup>*\<^sup>* (s, T, R) (fst (cr_get reg s now i user), T, R)"
  by (auto simp: cr_get_def cr_get_or_404_def Let_def res_bind_Inr_iff intro: reconcile_path split: sum.split option.splits)

lemma fold_path:
  assumes "\<And>s x. cr_step\<^sup>*\<^sup>* (s, T, R) (f s x, T, R)"
  shows "cr_step\<^sup>*\<^sup>* (s, T, R) (foldl f s xs, T, R)"
proof (induction xs arbitrary: s)
  case (Cons x xs)
  show ?case using assms [of s x] Cons [of "f s x"] by simp
qed simp

lemma sweep_paths:
  "cr_step\<^sup>*\<^sup>* (s, T, R) (reconcile_all_in_flight s now, T, R)" "cr_step\<^sup>*\<^sup>* (s, T, R) (expire_sweep s now, T, R)"
  unfolding reconcile_all_in_flight_def expire_sweep_def
  by (rule fold_path, auto split: option.split intro: reconcile_path path_one cr_step.expire)+

text \<open>Operations that only touch the run table.\<close>

lemma repo_path: "repo_step\<^sup>*\<^sup>* d e \<Longrightarrow> d = pdb s \<Longrightarrow> cr_step\<^sup>*\<^sup>* (s, T, R) (s\<lparr>pdb := e\<rparr>, T, R)"
proof (induction rule: rtranclp_induct)
  case (step e f)
  then have "cr_step (s\<lparr>pdb := e\<rparr>, T, R) (s\<lparr>pdb := e\<rparr>\<lparr>pdb := f\<rparr>, T, R)" by (intro cr_step.worker) simp
  with step show ?case by simp
qed simp

lemma cancel_active_repo: "\<exists>e. fst (cancel_active_run env s i) = s\<lparr>pdb := e\<rparr> \<and> repo_step\<^sup>*\<^sup>* (pdb s) e"
proof -
  let ?t = "fst (transition_run (pdb s) i ''cancelled'' None [FinishedAt (Some (utc_now env))])"
  let ?f = "finalise_open_step_results ?t i ''Cancelled by the operator'' (utc_now env)"
  have t: "repo_step\<^sup>*\<^sup>* (pdb s) ?t" by (intro r_into_rtranclp repo_step.transition) (simp add: from_ok_def)
  then have f: "repo_step\<^sup>*\<^sup>* (pdb s) ?f" by (rule rtranclp.rtrancl_into_rtrancl) (rule repo_step.finalise)
  then have n: "repo_step\<^sup>*\<^sup>* (pdb s) (fst (transition_run ?f i ''cancelled'' (Some {''cancelled''}) fs))" for fs
    by (rule rtranclp.rtrancl_into_rtrancl) (rule repo_step.transition, simp add: from_ok_def)
  show ?thesis using t f n by (auto simp: cancel_active_run_def Let_def case_prod_unfold)
qed

lemma cancel_walk_repo: "\<exists>e. fst (cancel_walk env cs seen s) = s\<lparr>pdb := e\<rparr> \<and> repo_step\<^sup>*\<^sup>* (pdb s) e"
proof (induction env cs seen s rule: cancel_walk.induct)
  case (1 env seen s)
  show ?case by (intro exI [of _ "pdb s"]) simp
next
  case (2 env c cs seen s)
  have "\<exists>e. cancel_if_active env s c = s\<lparr>pdb := e\<rparr> \<and> repo_step\<^sup>*\<^sup>* (pdb s) e"
  proof (cases "parent_is_active s c")
    case False
    then show ?thesis by (intro exI [of _ "pdb s"]) (simp add: cancel_if_active_def)
  qed (simp add: cancel_if_active_def cancel_active_repo)
  then obtain e where e: "cancel_if_active env s c = s\<lparr>pdb := e\<rparr>" "repo_step\<^sup>*\<^sup>* (pdb s) e" by blast
  show ?case
  proof (cases "c \<in> seen")
    case False
    with 2(2) [OF False e(1) [symmetric]] e show ?thesis by (auto simp: Let_def)
  qed (use 2(1) in simp)
qed

lemma maybe_reconcile_path: "cr_step\<^sup>*\<^sup>* (s, T, R) (maybe_reconcile_deploy_run s now run, T, R)"
  by (auto simp: maybe_reconcile_deploy_run_def intro: reconcile_path split: option.split)

lemma cancel_run_path: "cr_step\<^sup>*\<^sup>* (s, T, R) (fst (cancel_run env s i u), T, R)"
proof -
  have one: "cr_step\<^sup>*\<^sup>* (x, T, R) (fst (cancel_active_run env x i), T, R)" for x
    using cancel_active_repo [of env x i] repo_path by metis
  have walk: "cr_step\<^sup>*\<^sup>* (x, T, R) (cancel_child_runs env i x, T, R)" for x
    unfolding cancel_child_runs_def using cancel_walk_repo repo_path by metis
  have all: "cr_step\<^sup>*\<^sup>* (s, T, R) (maybe_reconcile_deploy_run (cancel_child_runs env i (fst (cancel_active_run env s i))) now run, T, R)" for now run
    using one [of s] walk maybe_reconcile_path by (meson rtranclp_trans)
  show ?thesis using one all by (simp add: cancel_run_def Let_def case_prod_unfold split: option.split sum.split)
qed

section \<open>The contracts\<close>

lemma cr_path_sim: "cr_step\<^sup>*\<^sup>* w w' \<Longrightarrow> cr_world_ok w \<Longrightarrow> simulates w w'"
proof (induction rule: rtranclp_induct)
  case (step y z)
  then show ?case using cr_step_sim [of y z] by (auto simp: simulates_def)
qed (rule sim_refl)

lemma final_no_move: "a \<in> {''deployed'', ''failed'', ''rejected'', ''expired''} \<Longrightarrow> (a, b) \<notin> CR_MOVES"
  by (elim insertE emptyE) (simp_all add: CR_MOVES_def)

lemma spec_final:
  assumes "spec_step\<^sup>*\<^sup>* p q" and "fst p i = Some a" and "a \<in> {''deployed'', ''failed'', ''rejected'', ''expired''}"
  shows "fst q i = Some a"
  using assms(1,2)
proof (induction rule: rtranclp_induct)
  case (step y z)
  have a: "fst y i = Some a" by (rule step.IH [OF step.prems])
  from step.hyps(2) show ?case
  proof cases
    case (moved st j b c W)
    then have "j \<noteq> i" using a final_no_move [OF assms(3)] by auto
    then show ?thesis using a moved by simp
  qed (use a in auto)
qed



text \<open>Change request 1 deploys workflow 8; user 3 approves it.\<close>

definition demo_cr :: cr_row where
  "demo_cr = \<lparr>cr_id = 1, source_workflow_id = Some 7, source_run_id = Some 2, deploy_workflow_id = Some 8, deploy_run_id = None,
     git_repository_id = Some 1, base_branch = None, cr_branch = None, commit_sha = Some ''c0ffee'', cr_title = None,
     cr_device_ids = [], cr_devices = [], cr_run_inputs = [], diff_artifact_id = None, diff_stats = None, cr_status = ''staged'',
     approved_by_id = None, approved_via = None, approved_at = None, rejected_by_id = None, rejected_at = None, reject_reason = None,
     deploy_error = None, expires_at = None, cr_updated_at = 0\<rparr>"

definition demo_cr_platform :: platform where
  "demo_cr_platform = demo_platform\<lparr>crs := [demo_cr], next_cr := 2\<rparr>"

definition demo_approved :: platform where
  "demo_approved = fst (cr_approve None demo_service_env demo_cr_platform 1 (Some 3) ''ui'')"

lemma demo_cr_world_ok: "cr_world_ok (demo_cr_platform, [], {})"
proof -
  have "db_ok (pdb demo_cr_platform)" by code_simp
  moreover have "column change_request_id (pdb demo_cr_platform) = [(1, None), (2, None), (3, None)]" by code_simp
  then have "live_deploys (pdb demo_cr_platform) i = {}" for i by (auto simp: live_deploys_def deploys_of_def)
  ultimately show ?thesis by (simp add: cr_world_ok_def links_ok_def demo_cr_platform_def demo_cr_def)
qed



end
