(* ===== verification/Run_Lifecycle.thy ===== *)
theory Run_Lifecycle
  imports Run_Cancellation
begin

text \<open>
  The safety net for runs the orchestration could not finish (\<open>services/execution/run_lifecycle_service.py\<close>)
  and the retention of finished runs (\<open>services/execution/retention_service.py\<close>). The engine's answer about a
  task is an argument; \<open>None\<close> is an engine that could not be reached.
\<close>

section \<open>The service\<close>

text \<open>\<open>fail_interrupted\<close>: the state, and whether the run was still open.\<close>

definition fail_interrupted :: "service_env \<Rightarrow> platform \<Rightarrow> nat \<Rightarrow> string \<Rightarrow> string \<Rightarrow> string option \<Rightarrow> platform \<times> bool" where
  "fail_interrupted env s i message category error_id =
     (let eid = (if or_empty error_id = [] then new_error_id env else or_empty error_id);
          (d, changed) = transition_run (pdb s) i ''failed'' None
             [ErrorMessage (Some message), ErrorCategory (Some category), ErrorId (Some eid), FinishedAt (Some (utc_now env))]
      in if \<not> changed then (s\<lparr>pdb := d\<rparr>, False)
         else let s1 = s\<lparr>pdb := finalise_open_step_results d i message (utc_now env)\<rparr>;
                  s2 = cancel_child_runs env i s1
              in (case get_run (pdb s2) i of None \<Rightarrow> s2 | Some run \<Rightarrow> maybe_reconcile_deploy_run s2 (utc_now env) run, True))"

text \<open>What the engine's status says about the run: the message to fail it with, or nothing.\<close>

definition engine_verdict :: "string option \<Rightarrow> string option" where
  "engine_verdict status =
     (case status of
        None \<Rightarrow> None
      | Some st \<Rightarrow>
          (let upper = py_upper st in
           if find_from upper ''COMPLETED'' 0 \<noteq> None then Some ''The engine finished the task but no result was recorded.''
           else if find_from upper ''FAILED'' 0 \<noteq> None \<or> find_from upper ''CANCELLED'' 0 \<noteq> None
           then Some ''The engine ended the task before the run finished.'' else None))"

definition reap_message :: "(string \<Rightarrow> string option) \<Rightarrow> run_row \<Rightarrow> string option" where
  "reap_message engine_status r =
     (if or_empty (hatchet_run_id r) = []
      then (if run_status r = ''pending'' then Some ''The run was never handed to the engine.'' else None)
      else engine_verdict (engine_status (or_empty (hatchet_run_id r))))"

text \<open>One turn of the loop: the row is read again after the commits of the turns before.\<close>

definition reap_one :: "service_env \<Rightarrow> (string \<Rightarrow> string option) \<Rightarrow> platform \<times> nat \<Rightarrow> run_row \<Rightarrow> platform \<times> nat" where
  "reap_one env engine_status = (\<lambda>(s, reaped) r.
     case reap_message engine_status (reload_run s r) of
       None \<Rightarrow> (s, reaped)
     | Some message \<Rightarrow>
         (let (t, changed) = fail_interrupted env s (run_id r) message ''internal'' None
          in (t, if changed then reaped + 1 else reaped)))"

definition reap_stuck_runs :: "service_env \<Rightarrow> (string \<Rightarrow> string option) \<Rightarrow> int \<Rightarrow> platform \<Rightarrow> platform \<times> nat" where
  "reap_stuck_runs env engine_status grace s =
     foldl (reap_one env engine_status) (s, 0) (list_active_runs_older_than (pdb s) (utc_now env - grace))"

text \<open>Retention: the number of runs deleted (or to delete); change requests lose their link to a deleted run.\<close>

definition purge_workflow_runs :: "platform \<Rightarrow> int \<Rightarrow> int \<Rightarrow> nat \<Rightarrow> bool \<Rightarrow> platform \<times> nat" where
  "purge_workflow_runs s now retention_days batch_size dry_run =
     (let cutoff = now - retention_days * 86400 in
      if dry_run then (s, count_finished_runs_older_than (pdb s) cutoff)
      else let (d, deleted) = purge_finished_runs_older_than (pdb s) cutoff batch_size 0 in
           (s\<lparr>pdb := d, crs := map (\<lambda>c. case deploy_run_id c of
                None \<Rightarrow> c | Some k \<Rightarrow> if get_run d k = None then c\<lparr>deploy_run_id := None\<rparr> else c) (crs s)\<rparr>, deleted))"

section \<open>Interrupting one run\<close>

lemma transition_noop:
  assumes "\<And>r. get_run d i = Some r \<Longrightarrow> \<not> transition_guard src r" and "db_ok d"
  shows "transition_run d i st src fs = (d, False)"
proof -
  have "\<not> (run_id r = i \<and> transition_guard src r)" if "r \<in> set (runs d)" for r
  proof
    assume r: "run_id r = i \<and> transition_guard src r"
    have "distinct (map run_id (runs d))" using assms(2) by (simp add: db_ok_def)
    moreover have "i \<in> run_id ` set (runs d)" using that r by blast
    then obtain q where q: "get_run d i = Some q" using get_run_mem [of d i] by (cases "get_run d i") auto
    moreover have "q \<in> set (runs d)" "run_id q = i" using q by (auto simp: get_run_def dest: find_key_mem)
    ultimately have "q = r" using that r distinct_map_eq [of run_id "runs d"] by metis
    then show False using assms(1) [OF q] r by simp
  qed
  note miss = this
  then have "map (\<lambda>r. if run_id r = i \<and> transition_guard src r then transition_values st fs r else r) (runs d) = runs d"
    by (intro map_idI if_not_P)
  moreover have "filter (\<lambda>r. run_id r = i \<and> transition_guard src r) (runs d) = []" using miss by (simp add: filter_empty_conv)
  ultimately show ?thesis by (simp add: transition_run_def Let_def)
qed

text \<open>Some active runs of \<open>V\<close> have ended, and nothing else about runs changed.\<close>

definition ended_in :: "nat set \<Rightarrow> db \<Rightarrow> db \<Rightarrow> bool" where
  "ended_in V d e \<longleftrightarrow> db_ok e \<and> links e = links d \<and> (\<forall>k. open_rows e k \<longrightarrow> open_rows d k)
     \<and> (\<forall>k. get_run e k = get_run d k \<or>
          (k \<in> V \<and> (\<exists>st \<in> ACTIVE_RUN_STATUSES. status_of d k = Some st) \<and> status_of e k \<in> {Some ''failed'', Some ''cancelled''}
           \<and> \<not> open_rows e k))"

abbreviation active_in :: "db \<Rightarrow> nat \<Rightarrow> bool" where
  "active_in d k \<equiv> \<exists>st \<in> ACTIVE_RUN_STATUSES. status_of d k = Some st"

lemma ended_inD:
  assumes "ended_in V d e"
  shows "db_ok e" "links e = links d" "open_rows e k \<Longrightarrow> open_rows d k"
    "get_run e k = get_run d k \<or> (k \<in> V \<and> active_in d k \<and> status_of e k \<in> {Some ''failed'', Some ''cancelled''} \<and> \<not> open_rows e k)"
  using assms unfolding ended_in_def by blast+

lemma ended_in_refl: "db_ok d \<Longrightarrow> ended_in V d d"
  by (simp add: ended_in_def)

lemma ended_not_active: "status_of e k \<in> {Some ''failed'', Some ''cancelled''} \<Longrightarrow> \<not> active_in e k"
  by (auto simp: ACTIVE_RUN_STATUSES_def)

lemma status_of_run: "get_run e k = get_run d k \<Longrightarrow> status_of e k = status_of d k"
  by (simp add: status_of_def)

lemma ended_in_trans:
  assumes a: "ended_in V d e" and b: "ended_in V e f"
  shows "ended_in V d f"
proof -
  have "get_run f k = get_run d k \<or> (k \<in> V \<and> active_in d k \<and> status_of f k \<in> {Some ''failed'', Some ''cancelled''} \<and> \<not> open_rows f k)" for k
  proof (cases "get_run e k = get_run d k")
    case True
    then show ?thesis using ended_inD(4) [OF b, of k] unfolding status_of_run [OF True] by simp
  next
    case False
    then have e: "k \<in> V" "active_in d k" "status_of e k \<in> {Some ''failed'', Some ''cancelled''}" "\<not> open_rows e k"
      using ended_inD(4) [OF a, of k] by blast+
    then have "get_run f k = get_run e k" using ended_inD(4) [OF b, of k] ended_not_active by blast
    then have "status_of f k = status_of e k" by (rule status_of_run)
    moreover have "\<not> open_rows f k" using e(4) ended_inD(3) [OF b] by blast
    ultimately show ?thesis using e(1-3) by simp
  qed
  moreover have "\<forall>k. open_rows f k \<longrightarrow> open_rows d k" using ended_inD(3) [OF a] ended_inD(3) [OF b] by blast
  ultimately show ?thesis using ended_inD(1,2) [OF a] ended_inD(1,2) [OF b] unfolding ended_in_def by simp
qed

lemma fail_interrupted_ended:
  assumes "db_ok (pdb s)" and "\<And>st. status_of (pdb s) i = Some st \<Longrightarrow> st \<in> TERMINAL_RUN_STATUSES"
  shows "fail_interrupted env s i m c e = (s, False)"
proof -
  have "\<not> transition_guard None r" if "get_run (pdb s) i = Some r" for r
    using assms(2) that by (simp add: transition_guard_def status_of_def)
  from transition_noop [OF this assms(1)] show ?thesis by (simp add: fail_interrupted_def Let_def)
qed

lemma fail_interrupted_effect:
  assumes ok: "db_ok (pdb s)" and V: "insert i ((child_of (pdb s))\<^sup>+ `` {i}) \<subseteq> V" and act: "active_in (pdb s) i"
    and fi: "fail_interrupted env s i m c e = (t, won)"
  shows "ended_in V (pdb s) (pdb t)" and "status_of (pdb t) i = Some ''failed''" and "\<not> open_rows (pdb t) i" and won
    and "k \<noteq> i \<Longrightarrow> status_of (pdb t) k = status_of (pdb s) k \<or> (active_in (pdb s) k \<and> status_of (pdb t) k = Some ''cancelled'')"
proof -
  let ?fs = "[ErrorMessage (Some m), ErrorCategory (Some c), ErrorId (Some (if or_empty e = [] then new_error_id env else or_empty e)),
    FinishedAt (Some (utc_now env))]"
  let ?d = "fst (transition_run (pdb s) i ''failed'' None ?fs)"
  define s1 where "s1 = s\<lparr>pdb := finalise_open_step_results ?d i m (utc_now env)\<rparr>"
  obtain r where r: "get_run (pdb s) i = Some r" "run_status r \<in> ACTIVE_RUN_STATUSES" using act by (auto simp: status_of_def)
  have guard: "transition_guard None r" using active_not_terminal [OF r(2)] by (simp add: transition_guard_def)
  have w: "snd (transition_run (pdb s) i ''failed'' None ?fs)" using transition_won [OF ok] r(1) guard by blast
  have t: "pdb t = pdb (cancel_child_runs env i s1)" "won"
    using fi w by (auto simp: fail_interrupted_def Let_def case_prod_unfold s1_def split: option.splits)
  show won by (rule t(2))
  have ok1: "db_ok (pdb s1)" unfolding s1_def by (simp add: db_ok_finalise db_ok_transition ok)
  have l1: "links (pdb s1) = links (pdb s)" by (simp add: s1_def)
  have g1: "get_run (pdb s1) k = get_run (pdb s) k" if "k \<noteq> i" for k using that by (simp add: s1_def get_run_transition_other)
  have st1: "status_of (pdb s1) i = Some ''failed''"
    using r(1) guard get_run_id [OF r(1)] by (simp add: s1_def status_of_def get_run_transition)
  have o1: "open_rows (pdb s1) k \<longleftrightarrow> k \<noteq> i \<and> open_rows (pdb s) k" for k by (simp add: s1_def open_rows_finalise)
  have "child_of (pdb s1) = child_of (pdb s)" using l1 by (simp add: child_of_links)
  with cancel_child_runs_effect [OF ok1, of i env] have
    can: "cancelled_in ((child_of (pdb s))\<^sup>+ `` {i} - {i}) (pdb s1) (pdb t)" by (simp add: t(1))
  note canD = cancelled_inD [OF can]
  have gi: "get_run (pdb t) i = get_run (pdb s1) i" by (rule canD(2)) simp
  then show fin: "status_of (pdb t) i = Some ''failed''" using st1 by (simp add: status_of_def)
  show oi: "\<not> open_rows (pdb t) i" using canD(3) [of i] o1 by blast
  have "get_run (pdb t) k = get_run (pdb s) k
      \<or> (k \<in> V \<and> active_in (pdb s) k \<and> status_of (pdb t) k \<in> {Some ''failed'', Some ''cancelled''} \<and> \<not> open_rows (pdb t) k)" for k
  proof (cases "k = i")
    case True
    then show ?thesis using act fin oi V by simp
  next
    case False
    have s1k: "status_of (pdb s1) k = status_of (pdb s) k" using g1 [OF False] by (rule status_of_run)
    show ?thesis
    proof (cases "get_run (pdb t) k = get_run (pdb s1) k")
      case False
      then have k: "k \<in> (child_of (pdb s))\<^sup>+ `` {i} - {i}" "active_in (pdb s1) k" using canD(4) [of k] by blast+
      then show ?thesis using canD(1) [OF k(1)] V unfolding s1k by auto
    qed (simp add: g1 [OF False])
  qed
  moreover show "status_of (pdb t) k = status_of (pdb s) k \<or> (active_in (pdb s) k \<and> status_of (pdb t) k = Some ''cancelled'')" if "k \<noteq> i"
    using can status_of_run [OF g1 [OF that]] by (simp add: cancelled_in_def)
  moreover have "db_ok (pdb t)" "links (pdb t) = links (pdb s)" using can l1 by (simp_all add: cancelled_in_def)
  moreover have "open_rows (pdb t) k \<Longrightarrow> open_rows (pdb s) k" for k using canD(3) [of k] o1 by blast
  ultimately show "ended_in V (pdb s) (pdb t)" unfolding ended_in_def by blast
qed

section \<open>The sweep\<close>

text \<open>An active run that the sweep must end: old, and never handed to the engine or ended there.\<close>

definition stuck :: "(string \<Rightarrow> string option) \<Rightarrow> int \<Rightarrow> db \<Rightarrow> nat \<Rightarrow> bool" where
  "stuck engine_status cutoff d i = (case get_run d i of
     None \<Rightarrow> False
   | Some r \<Rightarrow> run_status r \<in> ACTIVE_RUN_STATUSES \<and> run_created_at r < cutoff \<and> reap_message engine_status r \<noteq> None)"

lemma get_run_row: "db_ok d \<Longrightarrow> r \<in> set (runs d) \<Longrightarrow> get_run d (run_id r) = Some r"
  by (simp add: get_run_def db_ok_def find_key_distinct)

text \<open>The runs a sweep may touch, and the ones it has failed.\<close>

definition reapable :: "(string \<Rightarrow> string option) \<Rightarrow> int \<Rightarrow> db \<Rightarrow> nat set" where
  "reapable engine_status cutoff d =
     {i. stuck engine_status cutoff d i} \<union> (child_of d)\<^sup>+ `` {i. stuck engine_status cutoff d i}"

definition failed_since :: "db \<Rightarrow> db \<Rightarrow> nat set" where
  "failed_since d e = {i. active_in d i \<and> status_of e i = Some ''failed''}"

lemma finite_failed_since: "finite (failed_since d e)"
proof -
  have "i \<in> run_id ` set (runs d)" if "i \<in> failed_since d e" for i
    using that get_run_mem [of d i] by (auto simp: failed_since_def status_of_def)
  then have "failed_since d e \<subseteq> run_id ` set (runs d)" by (rule subsetI)
  then show ?thesis by (rule finite_subset) simp
qed

lemma reap_one_effect:
  assumes ok: "db_ok d" and x: "ended_in (reapable eng cutoff d) d (pdb x)"
    and r: "get_run d (run_id r) = Some r" "run_status r \<in> ACTIVE_RUN_STATUSES" "run_created_at r < cutoff"
    and one: "reap_one env eng (x, n) r = (y, m)"
  shows "ended_in (reapable eng cutoff d) (pdb x) (pdb y)"
    and "stuck eng cutoff d (run_id r) \<Longrightarrow> status_of (pdb y) (run_id r) \<in> {Some ''failed'', Some ''cancelled''} \<and> \<not> open_rows (pdb y) (run_id r)"
    and "n = card (failed_since d (pdb x)) \<Longrightarrow> m = card (failed_since d (pdb y))"
proof (atomize (full), cases "get_run (pdb x) (run_id r) = get_run d (run_id r)")
  case False
  then have st: "status_of (pdb x) (run_id r) \<in> {Some ''failed'', Some ''cancelled''}" "\<not> open_rows (pdb x) (run_id r)"
    using ended_inD(4) [OF x] by blast+
  then have "fail_interrupted env x (run_id r) msg cat eid = (x, False)" for msg cat eid
    by (intro fail_interrupted_ended [OF ended_inD(1) [OF x]]) (auto simp: TERMINAL_RUN_STATUSES_def)
  then have "y = x" "m = n" using one by (auto simp: reap_one_def split: option.splits)
  then show "ended_in (reapable eng cutoff d) (pdb x) (pdb y) \<and> (stuck eng cutoff d (run_id r) \<longrightarrow>
      status_of (pdb y) (run_id r) \<in> {Some ''failed'', Some ''cancelled''} \<and> \<not> open_rows (pdb y) (run_id r))
    \<and> (n = card (failed_since d (pdb x)) \<longrightarrow> m = card (failed_since d (pdb y)))"
    using st ended_in_refl [OF ended_inD(1) [OF x]] by simp
next
  case True
  then have same: "reload_run x r = r" "stuck eng cutoff d (run_id r) \<longleftrightarrow> reap_message eng r \<noteq> None" using r by (simp_all add: reload_run_def stuck_def)
  show "ended_in (reapable eng cutoff d) (pdb x) (pdb y) \<and> (stuck eng cutoff d (run_id r) \<longrightarrow>
      status_of (pdb y) (run_id r) \<in> {Some ''failed'', Some ''cancelled''} \<and> \<not> open_rows (pdb y) (run_id r))
    \<and> (n = card (failed_since d (pdb x)) \<longrightarrow> m = card (failed_since d (pdb y)))"
  proof (cases "reap_message eng r")
    case None
    then have "y = x" "m = n" using one same by (simp_all add: reap_one_def)
    then show ?thesis using None same ended_in_refl [OF ended_inD(1) [OF x]] by simp
  next
    case (Some msg)
    obtain won where fi: "fail_interrupted env x (run_id r) msg ''internal'' None = (y, won)" and m: "m = (if won then n + 1 else n)"
      using one same Some by (auto simp: reap_one_def split: prod.splits)
    have d: "active_in d (run_id r)" "status_of (pdb x) (run_id r) = status_of d (run_id r)"
      using r status_of_run [OF True] by (auto simp: status_of_def)
    have "child_of (pdb x) = child_of d" using ended_inD(2) [OF x] by (simp add: child_of_links)
    then have V: "insert (run_id r) ((child_of (pdb x))\<^sup>+ `` {run_id r}) \<subseteq> reapable eng cutoff d"
      using Some same(2) by (auto simp: reapable_def)
    have act: "active_in (pdb x) (run_id r)" using d by simp
    note eff = fail_interrupted_effect [OF ended_inD(1) [OF x] V act fi]
    have "failed_since d (pdb y) = insert (run_id r) (failed_since d (pdb x))"
    proof (intro set_eqI)
      fix k show "k \<in> failed_since d (pdb y) \<longleftrightarrow> k \<in> insert (run_id r) (failed_since d (pdb x))"
      proof (cases "k = run_id r")
        case False
        have "status_of (pdb x) k \<noteq> Some ''failed''" if "active_in (pdb x) k" using that by (auto simp: ACTIVE_RUN_STATUSES_def)
        then show ?thesis using eff(5) [OF False] False by (auto simp: failed_since_def)
      qed (use eff(2) d(1) in \<open>simp add: failed_since_def\<close>)
    qed
    moreover have "run_id r \<notin> failed_since d (pdb x)" using d by (auto simp: failed_since_def ACTIVE_RUN_STATUSES_def)
    ultimately have "card (failed_since d (pdb y)) = Suc (card (failed_since d (pdb x)))" by (simp add: finite_failed_since)
    then show ?thesis using eff m by simp
  qed
qed

lemma ended_kept:
  assumes "ended_in V d e" and "status_of d k \<in> {Some ''failed'', Some ''cancelled''}" and "\<not> open_rows d k"
  shows "status_of e k \<in> {Some ''failed'', Some ''cancelled''} \<and> \<not> open_rows e k"
proof -
  have "get_run e k = get_run d k" using ended_inD(4) [OF assms(1), of k] ended_not_active [OF assms(2)] by blast
  then show ?thesis using assms(2,3) ended_inD(3) [OF assms(1)] status_of_run by metis
qed

lemma reap_fold_effect:
  assumes ok: "db_ok d" and xs: "\<forall>r \<in> set xs. get_run d (run_id r) = Some r \<and> run_status r \<in> ACTIVE_RUN_STATUSES \<and> run_created_at r < cutoff"
    and x: "ended_in (reapable eng cutoff d) d (pdb x)" and n: "n = card (failed_since d (pdb x))"
    and fold: "foldl (reap_one env eng) (x, n) xs = (t, m)"
  shows "ended_in (reapable eng cutoff d) (pdb x) (pdb t)"
    and "\<forall>r \<in> set xs. stuck eng cutoff d (run_id r) \<longrightarrow>
      status_of (pdb t) (run_id r) \<in> {Some ''failed'', Some ''cancelled''} \<and> \<not> open_rows (pdb t) (run_id r)"
    and "m = card (failed_since d (pdb t))"
  using xs x n fold
proof (atomize (full), induction xs arbitrary: x n)
  case Nil
  then show ?case using ended_in_refl ended_inD(1) by auto
next
  case (Cons r xs)
  obtain y k where y: "reap_one env eng (x, n) r = (y, k)" by fastforce
  note eff = reap_one_effect [OF ok Cons.prems(2) _ _ _ y]
  have r: "get_run d (run_id r) = Some r" "run_status r \<in> ACTIVE_RUN_STATUSES" "run_created_at r < cutoff" using Cons.prems(1) by auto
  have xy: "ended_in (reapable eng cutoff d) (pdb x) (pdb y)" and k: "k = card (failed_since d (pdb y))"
    using eff(1,3) [OF r] Cons.prems(3) by blast+
  have "\<forall>r \<in> set xs. get_run d (run_id r) = Some r \<and> run_status r \<in> ACTIVE_RUN_STATUSES \<and> run_created_at r < cutoff"
    "foldl (reap_one env eng) (y, k) xs = (t, m)" using Cons.prems y by simp_all
  from Cons.IH [OF this(1) ended_in_trans [OF Cons.prems(2) xy] k this(2)]
  have IH: "ended_in (reapable eng cutoff d) (pdb y) (pdb t)" "\<forall>r \<in> set xs. stuck eng cutoff d (run_id r) \<longrightarrow>
      status_of (pdb t) (run_id r) \<in> {Some ''failed'', Some ''cancelled''} \<and> \<not> open_rows (pdb t) (run_id r)"
    "m = card (failed_since d (pdb t))" by blast+
  have "status_of (pdb t) (run_id r) \<in> {Some ''failed'', Some ''cancelled''} \<and> \<not> open_rows (pdb t) (run_id r)"
    if "stuck eng cutoff d (run_id r)" using ended_kept [OF IH(1)] eff(2) [OF r that] by blast
  with IH ended_in_trans [OF xy IH(1)] show ?case by simp
qed


text \<open>Run 1 was never handed to the engine; run 2, which it started, is running; the engine is silent.\<close>

definition demo_stuck_platform :: platform where
  "demo_stuck_platform = demo_platform\<lparr>pdb := (pdb demo_platform)\<lparr>runs :=
     [demo_run_row 1 None ''pending'', demo_run_row 2 (Some 1) ''running'', demo_run_row 3 None ''running'']\<rparr>\<rparr>"


end
