(* ===== verification/Schedules.thy ===== *)
theory Schedules
  imports Run_Columns
begin

text \<open>
  Schedules (\<open>services/execution/schedule_service.py\<close>, \<open>schedule_fire.py\<close>, the trigger task of
  \<open>hatchet/workflows/scheduled_trigger.py\<close>), the background tier a scheduled workflow is published to
  (\<open>background_tier_service.py\<close>) and the check of reference inputs (\<open>reference_resolver.py\<close>), with their
  repositories. The engine's schedule API is an argument: each call says what it answered.
\<close>

section \<open>Tables\<close>

record schedule_row =
  sc_id :: nat
  sc_workflow_id :: nat
  sc_name :: "string option"
  sc_run_inputs :: jdict
  schedule_type :: string
  cron_expression :: "string option"
  run_at :: "int option"
  sc_enabled :: bool
  hatchet_cron_id :: "string option"
  hatchet_scheduled_id :: "string option"
  last_triggered_at :: "int option"
  created_by_id :: "nat option"

record tier_row =
  tier_workflow_id :: nat
  hatchet_workflow_name :: string
  concurrency_limit :: "nat option"
  published_by_id :: "nat option"

record scheduler =
  plat :: platform
  schedules :: "schedule_row list"
  next_schedule :: nat
  tiers :: "tier_row list"

text \<open>What the engine answers: an id, a rejected request, no connection, another failure; and for a
  removal: removed, already gone, failed.\<close>

datatype create_reply = Entry string | Rejected string | Unreachable | Broken
datatype delete_reply = Removed | Gone | Not_Removed

record inventory_row =
  inv_active :: bool

record credential_row =
  cred_name :: string
  cred_type :: string
  cred_status :: string
  cred_visibility :: string

record schedule_env = service_env +
  cron_create :: "schedule_row \<Rightarrow> string \<Rightarrow> create_reply"
  scheduled_create :: "schedule_row \<Rightarrow> create_reply"
  cron_delete :: "string \<Rightarrow> delete_reply"
  scheduled_delete :: "string \<Rightarrow> delete_reply"
  name_suffix :: string
  get_inventory :: "int \<Rightarrow> string option \<Rightarrow> (unit + inventory_row option)"
  list_credentials :: "nat option \<Rightarrow> credential_row list"
  secret_registry :: "string list option"
  str_json :: "json \<Rightarrow> string"
  repr_json :: "json \<Rightarrow> string"

section \<open>Repositories\<close>

definition get_schedule_row :: "scheduler \<Rightarrow> nat \<Rightarrow> schedule_row option" where
  "get_schedule_row s i = List.find (\<lambda>c. sc_id c = i) (schedules s)"

definition list_by_workflow_id :: "scheduler \<Rightarrow> nat \<Rightarrow> schedule_row list" where
  "list_by_workflow_id s w = sort_key sc_id (filter (\<lambda>c. sc_workflow_id c = w) (schedules s))"

definition list_by_creator :: "scheduler \<Rightarrow> nat \<Rightarrow> schedule_row list" where
  "list_by_creator s u = sort_key sc_id (filter (\<lambda>c. created_by_id c = Some u) (schedules s))"

definition list_visible_schedules :: "scheduler \<Rightarrow> nat \<Rightarrow> nat option \<Rightarrow> (schedule_row \<times> string) list" where
  "list_visible_schedules s user w =
     rev (sort_key (\<lambda>p. sc_id (fst p)) (List.map_filter (\<lambda>c.
        case get_workflow (plat s) (sc_workflow_id c) of
          None \<Rightarrow> None
        | Some f \<Rightarrow> if (visibility f = ''public'' \<or> creator_id f = Some user) \<and> (w = None \<or> w = Some (sc_workflow_id c))
                   then Some (c, wf_name f) else None) (schedules s)))"

definition schedule_create :: "scheduler \<Rightarrow> schedule_row \<Rightarrow> scheduler \<times> schedule_row" where
  "schedule_create s draft =
     (let c = draft\<lparr>sc_id := next_schedule s, hatchet_cron_id := None, hatchet_scheduled_id := None, last_triggered_at := None\<rparr>
      in (s\<lparr>schedules := schedules s @ [c], next_schedule := next_schedule s + 1\<rparr>, c))"

definition write_schedule :: "scheduler \<Rightarrow> nat \<Rightarrow> (schedule_row \<Rightarrow> schedule_row) \<Rightarrow> scheduler" where
  "write_schedule s i g = s\<lparr>schedules := map (\<lambda>c. if sc_id c = i then g c else c) (schedules s)\<rparr>"

text \<open>\<open>update\<close>: the named columns, and the engine ids are cleared.\<close>

definition schedule_update :: "scheduler \<Rightarrow> nat \<Rightarrow> (schedule_row \<Rightarrow> schedule_row) \<Rightarrow> scheduler" where
  "schedule_update s i g = write_schedule s i (\<lambda>c. (g c)\<lparr>hatchet_cron_id := None, hatchet_scheduled_id := None\<rparr>)"

definition set_hatchet_ids :: "scheduler \<Rightarrow> nat \<Rightarrow> string option \<Rightarrow> string option \<Rightarrow> scheduler" where
  "set_hatchet_ids s i cron once = write_schedule s i (\<lambda>c. c\<lparr>hatchet_cron_id := cron, hatchet_scheduled_id := once\<rparr>)"

definition mark_triggered :: "scheduler \<Rightarrow> nat \<Rightarrow> int \<Rightarrow> bool \<Rightarrow> scheduler" where
  "mark_triggered s i now disable = write_schedule s i (\<lambda>c.
     let c1 = c\<lparr>last_triggered_at := Some now\<rparr>
     in if disable then c1\<lparr>sc_enabled := False, hatchet_cron_id := None, hatchet_scheduled_id := None\<rparr> else c1)"

definition schedule_delete :: "scheduler \<Rightarrow> nat \<Rightarrow> scheduler" where
  "schedule_delete s i = s\<lparr>schedules := filter (\<lambda>c. sc_id c \<noteq> i) (schedules s)\<rparr>"

definition get_tier :: "scheduler \<Rightarrow> nat \<Rightarrow> tier_row option" where
  "get_tier s w = List.find (\<lambda>x. tier_workflow_id x = w) (tiers s)"

definition repo_publish :: "scheduler \<Rightarrow> nat \<Rightarrow> nat option \<Rightarrow> nat option \<Rightarrow> scheduler" where
  "repo_publish s w limit user =
     (case get_tier s w of
        Some _ \<Rightarrow> s\<lparr>tiers := map (\<lambda>x. if tier_workflow_id x = w then x\<lparr>concurrency_limit := limit\<rparr> else x) (tiers s)\<rparr>
      | None \<Rightarrow> s\<lparr>tiers := tiers s @ [\<lparr>tier_workflow_id = w, hatchet_workflow_name = ''WorkflowBackground-'' @ nat_str w,
                    concurrency_limit = limit, published_by_id = user\<rparr>]\<rparr>)"

definition repo_unpublish :: "scheduler \<Rightarrow> nat \<Rightarrow> scheduler" where
  "repo_unpublish s w = s\<lparr>tiers := filter (\<lambda>x. tier_workflow_id x \<noteq> w) (tiers s)\<rparr>"

section \<open>The background tier\<close>

definition publish :: "scheduler \<Rightarrow> nat \<Rightarrow> nat option \<Rightarrow> nat \<Rightarrow> scheduler res" where
  "publish s w limit user = res_bind (assert_workflow_access (plat s) w user) (\<lambda>_. Inr (repo_publish s w limit (Some user)))"

definition tier_status :: "scheduler \<Rightarrow> nat \<Rightarrow> nat \<Rightarrow> tier_row option res" where
  "tier_status s w user = res_bind (assert_workflow_access (plat s) w user) (\<lambda>_. Inr (get_tier s w))"

definition unpublish :: "scheduler \<Rightarrow> nat \<Rightarrow> nat \<Rightarrow> scheduler res" where
  "unpublish s w user =
     res_bind (assert_workflow_access (plat s) w user) (\<lambda>_.
       case get_tier s w of None \<Rightarrow> Inl (NotFoundError ''Workflow is not published'') | Some _ \<Rightarrow> Inr (repo_unpublish s w))"

definition unpublish_for_workflow_unchecked :: "scheduler \<Rightarrow> nat \<Rightarrow> scheduler" where
  "unpublish_for_workflow_unchecked s w = (case get_tier s w of None \<Rightarrow> s | Some _ \<Rightarrow> repo_unpublish s w)"

section \<open>Reference inputs\<close>

text \<open>\<open>Inl\<close> carries the message of a \<open>ReferenceValidationError\<close>.\<close>

definition acting_username :: "scheduler \<Rightarrow> nat option \<Rightarrow> string option" where
  "acting_username s user = (case user of None \<Rightarrow> None | Some u \<Rightarrow> map_option username (get_user (auth (plat s)) u))"

definition reference_int :: "json \<Rightarrow> int option" where
  "reference_int v = (case v of
     JInt i \<Rightarrow> Some i | JBool b \<Rightarrow> Some (if b then 1 else 0) | JFloat q \<Rightarrow> Some (if 0 \<le> q then \<lfloor>q\<rfloor> else \<lceil>q\<rceil>)
   | JStr t \<Rightarrow> py_int t | _ \<Rightarrow> None)"

definition validate_inventory :: "schedule_env \<Rightarrow> scheduler \<Rightarrow> nat option \<Rightarrow> json \<Rightarrow> string + unit" where
  "validate_inventory env s user v =
     (case reference_int v of
        None \<Rightarrow> Inl (repr_json env v @ '' is not a valid inventory id'')
      | Some i \<Rightarrow>
          (case get_inventory env i (acting_username s user) of
             Inl _ \<Rightarrow> Inl (''inventory '' @ int_str i @ '' is private to another user'')
           | Inr None \<Rightarrow> Inl (''inventory '' @ int_str i @ '' does not exist'')
           | Inr (Some x) \<Rightarrow> if inv_active x then Inr () else Inl (''inventory '' @ int_str i @ '' is inactive'')))"

definition prefer_private :: "credential_row list \<Rightarrow> credential_row option" where
  "prefer_private xs =
     (case List.find (\<lambda>c. cred_visibility c = ''private'') xs of Some c \<Rightarrow> Some c | None \<Rightarrow> (case xs of [] \<Rightarrow> None | c # _ \<Rightarrow> Some c))"

definition validate_credential :: "schedule_env \<Rightarrow> nat option \<Rightarrow> json \<Rightarrow> string + unit" where
  "validate_credential env user v =
     (let nm = py_strip (if truthy v then str_json env v else []) in
      if nm = [] then Inl ''credential name is empty''
      else case prefer_private (filter (\<lambda>c. cred_name c = nm) (list_credentials env user)) of
             None \<Rightarrow> Inl (''no credential named '' @ py_repr nm @ '' is visible to you'')
           | Some c \<Rightarrow>
               if cred_type c \<noteq> ''ssh''
               then Inl (''credential '' @ py_repr nm @ '' is type '' @ py_repr (cred_type c) @ '', expected '' @ py_repr ''ssh'')
               else if cred_status c = ''expired'' then Inl (''credential '' @ py_repr nm @ '' is expired'')
               else Inr ())"

fun check_references :: "schedule_env \<Rightarrow> scheduler \<Rightarrow> jdict \<Rightarrow> nat option \<Rightarrow> static_attribute_def list \<Rightarrow> string + unit" where
  "check_references env s inputs user [] = Inr ()"
| "check_references env s inputs user (a # defs) =
     (case (if attr_type a = ''reference'' then map_of inputs (attr_name a) else None) of
        None \<Rightarrow> check_references env s inputs user defs
      | Some v \<Rightarrow>
          (case (if ref_kind a = Some ''inventory'' then validate_inventory env s user v
                 else if ref_kind a = Some ''credential'' then validate_credential env user v
                 else Inl (''unknown ref_kind '' @ (case ref_kind a of None \<Rightarrow> ''None'' | Some k \<Rightarrow> py_repr k))) of
             Inl m \<Rightarrow> Inl (attr_name a @ '': '' @ m)
           | Inr _ \<Rightarrow> check_references env s inputs user defs))"

definition validate_reference_inputs :: "schedule_env \<Rightarrow> scheduler \<Rightarrow> static_attribute_def list \<Rightarrow> jdict \<Rightarrow> nat option \<Rightarrow>
    string + unit" where
  "validate_reference_inputs env s defs inputs user = check_references env s inputs user defs"

section \<open>Starting a scheduled run\<close>

definition resolve_scheduled_inputs :: "schedule_env \<Rightarrow> scheduler \<Rightarrow> workflow \<Rightarrow> jdict \<Rightarrow> nat option \<Rightarrow> jdict res" where
  "resolve_scheduled_inputs env s f supplied user =
     (case resolve_run_inputs (to_float env) (sealer env) (static_attributes f) supplied of
        Inl (RunInputValidationError m) \<Rightarrow> Inl (ValidationFailedError m)
      | Inl e \<Rightarrow> Inl e
      | Inr resolved \<Rightarrow>
          (case validate_reference_inputs env s (static_attributes f) resolved user of
             Inl m \<Rightarrow> Inl (ValidationFailedError m)
           | Inr _ \<Rightarrow> Inr resolved))"

definition fail_run :: "scheduler \<Rightarrow> nat \<Rightarrow> run_field list \<Rightarrow> scheduler" where
  "fail_run s i flds = s\<lparr>plat := (plat s)\<lparr>pdb := update_run_status (pdb (plat s)) i ''failed'' flds False\<rparr>\<rparr>"

definition with_inputs :: "db \<Rightarrow> nat \<Rightarrow> jdict \<Rightarrow> db" where
  "with_inputs d i inputs = d\<lparr>runs := map (\<lambda>x. if run_id x = i then x\<lparr>run_inputs := inputs\<rparr> else x) (runs d)\<rparr>"

definition reload_scheduled :: "scheduler \<Rightarrow> run_row \<Rightarrow> run_row" where
  "reload_scheduled s r = reload_run (plat s) r"

text \<open>Errors of \<open>StaticAttributeDef.model_validate\<close> on a stored declaration propagate; everything else
  becomes a failed run.\<close>

definition start_scheduled_run :: "schedule_env \<Rightarrow> scheduler \<Rightarrow> schedule_row \<Rightarrow> workflow \<Rightarrow> nat option \<Rightarrow> bool \<Rightarrow> scheduler \<times> run_row res" where
  "start_scheduled_run env s c f user use_breaker =
     (let (d, r) = create_run (pdb (plat s)) (new_uuid env) (sc_workflow_id c) user ''scheduled'' [] [] None None (utc_now env);
          s1 = s\<lparr>plat := (plat s)\<lparr>pdb := d\<rparr>\<rparr>;
          failed = (\<lambda>s flds. let t = fail_run s (run_id r) flds in (t, Inr (reload_scheduled t r)))
      in if validation_errors env f user \<noteq> []
         then failed s1 [ErrorMessage (Some (''Blocked by pre-run validation: '' @ join ''; '' (validation_errors env f user))),
                         ErrorCategory (Some ''configuration'')]
         else case resolve_scheduled_inputs env s1 f (sc_run_inputs c) user of
                Inl (ValidationFailedError m) \<Rightarrow> failed s1 [ErrorMessage (Some m), ErrorCategory (Some ''configuration'')]
              | Inl e \<Rightarrow> (s1, Inl e)
              | Inr inputs \<Rightarrow>
                  (let s2 = s1\<lparr>plat := (plat s1)\<lparr>pdb := with_inputs (pdb (plat s1)) (run_id r) inputs\<rparr>\<rparr>;
                       down = [ErrorCategory (Some ''internal''), ErrorId (Some (new_error_id env)),
                               ErrorMessage (Some ''Workflow execution engine unavailable''), FinishedAt (Some (utc_now env))];
                       record_down = (\<lambda>s. if use_breaker then s\<lparr>plat := record_failure (plat s) (mono_clock env)\<rparr> else s)
                   in if use_breaker \<and> breaker_is_open (plat s2) (mono_clock env) then failed (record_down s2) down
                      else case run_no_wait env (run_id r) f of
                             None \<Rightarrow> failed (record_down s2) down
                           | Some h \<Rightarrow>
                               (let s3 = (if use_breaker then s2\<lparr>plat := record_success (plat s2)\<rparr> else s2);
                                    s4 = s3\<lparr>plat := (plat s3)\<lparr>pdb := record_hatchet_run_id (pdb (plat s3)) (run_id r) h\<rparr>\<rparr>
                                in (s4, Inr (reload_scheduled s4 r)))))"

section \<open>The trigger\<close>

datatype fire_outcome = Skipped | Creator_Not_Authorised | Started run_row | Fire_Error py_exn

definition fire_authorised :: "scheduler \<Rightarrow> schedule_row \<Rightarrow> workflow option \<Rightarrow> bool" where
  "fire_authorised s c f =
     (case (created_by_id c, f) of
        (Some u, Some flow) \<Rightarrow>
          (case get_user (auth (plat s)) u of
             None \<Rightarrow> False
           | Some x \<Rightarrow> is_active x \<and> has_permission (auth (plat s)) u ''workflows'' ''execute''
                       \<and> \<not> (visibility flow = ''private'' \<and> creator_id flow \<noteq> Some u))
      | _ \<Rightarrow> False)"

definition fire :: "schedule_env \<Rightarrow> scheduler \<Rightarrow> nat \<Rightarrow> nat \<Rightarrow> scheduler \<times> fire_outcome" where
  "fire env s w i =
     (case get_schedule_row s i of
        None \<Rightarrow> (s, Skipped)
      | Some c \<Rightarrow>
          if \<not> sc_enabled c \<or> sc_workflow_id c \<noteq> w then (s, Skipped)
          else if \<not> fire_authorised s c (get_workflow (plat s) w)
          then (schedule_update s i (\<lambda>c. c\<lparr>sc_enabled := False\<rparr>), Creator_Not_Authorised)
          else case get_workflow (plat s) w of
                 None \<Rightarrow> (schedule_update s i (\<lambda>c. c\<lparr>sc_enabled := False\<rparr>), Creator_Not_Authorised)
               | Some f \<Rightarrow>
                   (let s1 = mark_triggered s i (utc_now env) (schedule_type c = ''once'') in
                    case start_scheduled_run env s1 c f (created_by_id c) False of
                      (t, Inl e) \<Rightarrow> (t, Fire_Error e)
                    | (t, Inr r) \<Rightarrow> (t, Started r)))"

section \<open>The service: access, responses, engine entries\<close>

definition assert_schedule_owner :: "scheduler \<Rightarrow> schedule_row \<Rightarrow> nat \<Rightarrow> string \<Rightarrow> unit res" where
  "assert_schedule_owner s c user denied =
     (if created_by_id c = Some user \<or> has_role (auth (plat s)) user ''admin'' then Inr () else Inl (AccessDeniedError denied))"

definition OWNER_DENIED :: string where
  "OWNER_DENIED = ''Only the creator of a schedule can change or delete it''"

text \<open>The row with its inputs redacted, the name of its workflow and its concurrency limit.\<close>

definition schedule_response :: "schedule_env \<Rightarrow> scheduler \<Rightarrow> schedule_row \<Rightarrow> schedule_row \<times> string option \<times> nat option" where
  "schedule_response env s c =
     (c\<lparr>sc_run_inputs := (case redact_secrets_in_data (secret_registry env) (JObj (sc_run_inputs c)) of JObj d \<Rightarrow> d | _ \<Rightarrow> [])\<rparr>,
      map_option wf_name (get_workflow (plat s) (sc_workflow_id c)),
      (case get_tier s (sc_workflow_id c) of None \<Rightarrow> None | Some x \<Rightarrow> concurrency_limit x))"

definition keep_stored_secrets :: "workflow \<Rightarrow> jdict \<Rightarrow> jdict \<Rightarrow> jdict" where
  "keep_stored_secrets f supplied old =
     foldl (\<lambda>merged a.
       if attr_type a = ''secret'' \<and> (map_of merged (attr_name a) = None \<or> map_of merged (attr_name a) = Some (JStr REDACTED_PLACEHOLDER))
       then (case map_of old (attr_name a) of None \<Rightarrow> merged | Some v \<Rightarrow> AList.update (attr_name a) v merged)
       else merged) supplied (static_attributes f)"

definition validate_timing :: "int \<Rightarrow> string \<Rightarrow> string option \<Rightarrow> int option \<Rightarrow> unit res" where
  "validate_timing now ty cron once =
     (if ty = ''cron''
      then (if or_empty cron = [] then Inl (ValidationFailedError ''cron_expression is required for a recurring schedule'') else Inr ())
      else case once of
             None \<Rightarrow> Inl (ValidationFailedError ''run_at is required for a one-time schedule'')
           | Some t \<Rightarrow> if t \<le> now then Inl (ValidationFailedError ''run_at must be in the future'') else Inr ())"

definition delete_failed :: "nat option \<Rightarrow> py_exn" where
  "delete_failed w = OtherError (''Failed to remove Hatchet schedule for workflow_id='' @ (case w of None \<Rightarrow> ''None'' | Some i \<Rightarrow> nat_str i))"

text \<open>The two removals in order: one that is already gone ends the sequence quietly.\<close>

definition delete_entry_ids :: "schedule_env \<Rightarrow> string option \<Rightarrow> string option \<Rightarrow> bool \<Rightarrow> nat option \<Rightarrow> unit res" where
  "delete_entry_ids env cron once best_effort w =
     (let first = (if or_empty cron = [] then Removed else cron_delete env (or_empty cron));
          second = (if or_empty once = [] then Removed else scheduled_delete env (or_empty once));
          failed = (if best_effort then Inr () else Inl (delete_failed w))
      in case first of Gone \<Rightarrow> Inr () | Not_Removed \<Rightarrow> failed
         | Removed \<Rightarrow> (case second of Not_Removed \<Rightarrow> failed | _ \<Rightarrow> Inr ()))"

definition delete_hatchet_entry :: "schedule_env \<Rightarrow> schedule_row \<Rightarrow> unit res" where
  "delete_hatchet_entry env c = delete_entry_ids env (hatchet_cron_id c) (hatchet_scheduled_id c) False (Some (sc_workflow_id c))"

definition reply_error :: "schedule_row \<Rightarrow> create_reply \<Rightarrow> string res" where
  "reply_error c reply =
     (case reply of
        Entry h \<Rightarrow> Inr h
      | Rejected problems \<Rightarrow> Inl (ValidationFailedError (''Invalid schedule configuration ('' @ problems @ '')''))
      | Unreachable \<Rightarrow> Inl (OtherError ENGINE_UNAVAILABLE_MESSAGE)
      | Broken \<Rightarrow> Inl (OtherError (''Failed to register Hatchet schedule for workflow_id='' @ nat_str (sc_workflow_id c))))"

text \<open>The ids the engine gave, nothing for a disabled schedule.\<close>

definition register_hatchet_entry :: "schedule_env \<Rightarrow> schedule_row \<Rightarrow> string \<Rightarrow> (string option \<times> string option) option res" where
  "register_hatchet_entry env c sfx =
     (if \<not> sc_enabled c then Inr None
      else if schedule_type c = ''cron''
      then res_bind (reply_error c (cron_create env c sfx)) (\<lambda>h. Inr (Some (Some h, None)))
      else if run_at c = None then Inl (ValidationFailedError ''run_at is required for a one-time schedule'')
      else res_bind (reply_error c (scheduled_create env c)) (\<lambda>h. Inr (Some (None, Some h))))"

definition publication_state :: "scheduler \<Rightarrow> nat \<Rightarrow> bool \<times> nat option" where
  "publication_state s w = (case get_tier s w of None \<Rightarrow> (False, None) | Some x \<Rightarrow> (True, concurrency_limit x))"

definition undo_publish :: "scheduler \<Rightarrow> nat \<Rightarrow> nat \<Rightarrow> bool \<times> nat option \<Rightarrow> nat option \<Rightarrow> scheduler" where
  "undo_publish s w user before requested =
     (let (was_published, previous) = before in
      if \<not> was_published then unpublish_for_workflow_unchecked s w
      else if previous \<noteq> requested then (case publish s w previous user of Inl _ \<Rightarrow> s | Inr t \<Rightarrow> t)
      else s)"

section \<open>The service: operations\<close>

type_synonym schedule_result = "schedule_row \<times> string option \<times> nat option"

definition list_schedules :: "schedule_env \<Rightarrow> scheduler \<Rightarrow> nat \<Rightarrow> nat option \<Rightarrow> schedule_result list" where
  "list_schedules env s user w =
     map (\<lambda>(c, nm). (case schedule_response env s c of (r, _, limit) \<Rightarrow> (r, Some nm, limit))) (list_visible_schedules s user w)"

definition require_schedule :: "scheduler \<Rightarrow> nat \<Rightarrow> nat \<Rightarrow> (schedule_row \<times> workflow) res" where
  "require_schedule s i user =
     (case get_schedule_row s i of
        None \<Rightarrow> Inl (NotFoundError ''Schedule not found'')
      | Some c \<Rightarrow> res_bind (assert_workflow_access (plat s) (sc_workflow_id c) user) (\<lambda>f. Inr (c, f)))"

definition require_owned_schedule :: "scheduler \<Rightarrow> nat \<Rightarrow> nat \<Rightarrow> string \<Rightarrow> (schedule_row \<times> workflow) res" where
  "require_owned_schedule s i user denied =
     res_bind (require_schedule s i user) (\<lambda>(c, f). res_bind (assert_schedule_owner s c user denied) (\<lambda>_. Inr (c, f)))"

definition get_schedule :: "schedule_env \<Rightarrow> scheduler \<Rightarrow> nat \<Rightarrow> nat \<Rightarrow> schedule_result res" where
  "get_schedule env s i user = res_bind (require_schedule s i user) (\<lambda>(c, _). Inr (schedule_response env s c))"

definition run_now :: "schedule_env \<Rightarrow> scheduler \<Rightarrow> nat \<Rightarrow> nat \<Rightarrow> scheduler \<times> (nat \<times> string \<times> string option) res" where
  "run_now env s i user =
     (case require_owned_schedule s i user ''Only the creator of a schedule can run it'' of
        Inl e \<Rightarrow> (s, Inl e)
      | Inr (c, f) \<Rightarrow>
          (case start_scheduled_run env s c f (Some user) True of
             (t, Inl e) \<Rightarrow> (t, Inl e)
           | (t, Inr r) \<Rightarrow> (t, Inr (run_id r, run_status r, if run_status r = ''failed'' then run_error_message r else None))))"

text \<open>\<open>create_schedule\<close>: the draft carries the requested columns. The row is stored disabled and enabled
  together with its engine ids; a failed registration removes it and restores the tier.\<close>

definition create_schedule :: "schedule_env \<Rightarrow> scheduler \<Rightarrow> schedule_row \<Rightarrow> nat option \<Rightarrow> nat \<Rightarrow> scheduler \<times> schedule_result res" where
  "create_schedule env s data limit user =
     (case res_bind (assert_workflow_access (plat s) (sc_workflow_id data) user) (\<lambda>f.
             res_bind (validate_timing (utc_now env) (schedule_type data) (cron_expression data) (run_at data)) (\<lambda>_.
             resolve_scheduled_inputs env s f (sc_run_inputs data) (Some user))) of
        Inl e \<Rightarrow> (s, Inl e)
      | Inr inputs \<Rightarrow>
          (let w = sc_workflow_id data; before = publication_state s w in
           case publish s w limit user of
             Inl e \<Rightarrow> (s, Inl e)
           | Inr s1 \<Rightarrow>
               (let (s2, c) = schedule_create s1 (data\<lparr>sc_enabled := False, sc_run_inputs := inputs, created_by_id := Some user\<rparr>)
                in case register_hatchet_entry env (c\<lparr>sc_enabled := sc_enabled data\<rparr>) [] of
                     Inl e \<Rightarrow> (undo_publish (schedule_delete s2 (sc_id c)) w user before limit, Inl e)
                   | Inr None \<Rightarrow> (s2, Inr (schedule_response env s2 c))
                   | Inr (Some (cron, once)) \<Rightarrow>
                       (let s3 = write_schedule s2 (sc_id c) (\<lambda>c. c\<lparr>sc_enabled := sc_enabled data, hatchet_cron_id := cron, hatchet_scheduled_id := once\<rparr>)
                        in (s3, Inr (schedule_response env s3 (c\<lparr>sc_enabled := sc_enabled data, hatchet_cron_id := cron,
                                        hatchet_scheduled_id := once\<rparr>)))))))"

record schedule_changes =
  new_name :: "string option"
  new_type :: "string option"
  new_cron :: "string option"
  new_run_at :: "int option"
  new_enabled :: "bool option"
  new_inputs :: "jdict option"
  new_limit :: "nat option"

definition or_else :: "'a option \<Rightarrow> 'a \<Rightarrow> 'a" where
  "or_else x d = (case x of None \<Rightarrow> d | Some y \<Rightarrow> y)"

definition changed_row :: "schedule_changes \<Rightarrow> jdict \<Rightarrow> schedule_row \<Rightarrow> schedule_row" where
  "changed_row data inputs c =
     c\<lparr>sc_name := (if new_name data \<noteq> None then new_name data else sc_name c),
       schedule_type := (if or_empty (new_type data) = [] then schedule_type c else or_empty (new_type data)),
       cron_expression := (if new_cron data \<noteq> None then new_cron data else cron_expression c),
       run_at := (if new_run_at data \<noteq> None then new_run_at data else run_at c),
       sc_enabled := or_else (new_enabled data) (sc_enabled c), sc_run_inputs := inputs\<rparr>"

definition update_checks :: "schedule_env \<Rightarrow> scheduler \<Rightarrow> nat \<Rightarrow> schedule_changes \<Rightarrow> nat \<Rightarrow> (schedule_row \<times> jdict) res" where
  "update_checks env s i data user =
     res_bind (require_owned_schedule s i user OWNER_DENIED) (\<lambda>(c, f).
     let c1 = changed_row data (sc_run_inputs c) c;
         timing_changed = (new_type data \<noteq> None \<or> new_cron data \<noteq> None \<or> new_run_at data \<noteq> None);
         becoming_active = (new_enabled data = Some True \<and> \<not> sc_enabled c)
     in res_bind (if timing_changed \<or> becoming_active
                  then validate_timing (utc_now env) (schedule_type c1) (cron_expression c1) (run_at c1) else Inr ()) (\<lambda>_.
        res_bind (case new_inputs data of
                    None \<Rightarrow> Inr (sc_run_inputs c)
                  | Some supplied \<Rightarrow> resolve_scheduled_inputs env s f (keep_stored_secrets f supplied (sc_run_inputs c)) (Some user)) (\<lambda>inputs.
        Inr (c, inputs))))"

definition update_schedule :: "schedule_env \<Rightarrow> scheduler \<Rightarrow> nat \<Rightarrow> schedule_changes \<Rightarrow> nat \<Rightarrow> scheduler \<times> schedule_result res" where
  "update_schedule env s i data user =
     (case update_checks env s i data user of
        Inl e \<Rightarrow> (s, Inl e)
      | Inr (c, inputs) \<Rightarrow>
          (let w = sc_workflow_id c; before = publication_state s w;
               published = (case new_limit data of None \<Rightarrow> Inr s | Some n \<Rightarrow> publish s w (Some n) user)
           in case published of
                Inl e \<Rightarrow> (s, Inl e)
              | Inr s1 \<Rightarrow>
                  (let s2 = schedule_update s1 i (changed_row data inputs);
                       c2 = (changed_row data inputs c)\<lparr>hatchet_cron_id := None, hatchet_scheduled_id := None\<rparr>;
                       drop_old = delete_entry_ids env (hatchet_cron_id c) (hatchet_scheduled_id c) True None
                   in case register_hatchet_entry env c2 (''-'' @ take 8 (name_suffix env)) of
                        Inl e \<Rightarrow>
                          (let s3 = schedule_update s2 i (\<lambda>c. c\<lparr>sc_enabled := False\<rparr>)
                           in (if new_limit data \<noteq> None then undo_publish s3 w user before (new_limit data) else s3, Inl e))
                      | Inr ids \<Rightarrow>
                          (let (cron, once) = (case ids of None \<Rightarrow> (None, None) | Some p \<Rightarrow> p);
                               s3 = (if ids = None then s2 else set_hatchet_ids s2 i cron once)
                           in (s3, res_bind drop_old (\<lambda>_. Inr (schedule_response env s3 (c2\<lparr>hatchet_cron_id := cron, hatchet_scheduled_id := once\<rparr>))))))))"

definition delete_schedule :: "schedule_env \<Rightarrow> scheduler \<Rightarrow> nat \<Rightarrow> nat \<Rightarrow> scheduler \<times> unit res" where
  "delete_schedule env s i user =
     (case res_bind (require_owned_schedule s i user OWNER_DENIED) (\<lambda>(c, _). delete_hatchet_entry env c) of
        Inl e \<Rightarrow> (s, Inl e)
      | Inr _ \<Rightarrow> (schedule_delete s i, Inr ()))"

text \<open>The loops over a user's or a workflow's schedules stop at the first engine failure; what was done
  before it stays.\<close>

fun for_schedules :: "schedule_env \<Rightarrow> (scheduler \<Rightarrow> nat \<Rightarrow> scheduler) \<Rightarrow> scheduler \<Rightarrow> schedule_row list \<Rightarrow> scheduler \<times> unit res" where
  "for_schedules env act s [] = (s, Inr ())"
| "for_schedules env act s (c # cs) =
     (case delete_hatchet_entry env c of
        Inl e \<Rightarrow> (s, Inl e)
      | Inr _ \<Rightarrow> for_schedules env act (act s (sc_id c)) cs)"

definition disable_for_user :: "schedule_env \<Rightarrow> scheduler \<Rightarrow> nat \<Rightarrow> scheduler \<times> unit res" where
  "disable_for_user env s user =
     for_schedules env (\<lambda>s i. schedule_update s i (\<lambda>c. c\<lparr>sc_enabled := False\<rparr>)) s (list_by_creator s user)"

definition delete_for_user :: "schedule_env \<Rightarrow> scheduler \<Rightarrow> nat \<Rightarrow> scheduler \<times> unit res" where
  "delete_for_user env s user = for_schedules env schedule_delete s (list_by_creator s user)"

definition delete_schedules_for_workflow_unchecked :: "schedule_env \<Rightarrow> scheduler \<Rightarrow> nat \<Rightarrow> scheduler \<times> unit res" where
  "delete_schedules_for_workflow_unchecked env s w = for_schedules env schedule_delete s (list_by_workflow_id s w)"

end
