(* ===== verification/Schedule_Contracts.thy ===== *)
theory Schedule_Contracts
  imports Schedules
begin

text \<open>
  What the schedule service guarantees: on whose behalf a fire runs a workflow and how often, that a run which
  cannot start is never left open, that every enabled schedule has an entry in the engine, and that a
  failed change leaves nothing half done.
\<close>

section \<open>Rows\<close>

lemma get_schedule_id: "get_schedule_row s i = Some c \<Longrightarrow> c \<in> set (schedules s) \<and> sc_id c = i"
  by (auto simp: get_schedule_row_def dest: find_key_mem)

lemma get_schedule_write:
  assumes "\<And>c. sc_id (g c) = sc_id c"
  shows "get_schedule_row (write_schedule s i g) k = (if k = i then map_option g (get_schedule_row s i) else get_schedule_row s k)"
proof -
  let ?f = "\<lambda>c. if sc_id c = i then g c else c"
  have "sc_id (?f c) = sc_id c" for c using assms by simp
  from find_key_map [where key = sc_id and f = ?f, OF this]
  have eq: "get_schedule_row (write_schedule s i g) k = map_option ?f (get_schedule_row s k)"
    by (simp add: get_schedule_row_def write_schedule_def)
  show ?thesis unfolding eq by (cases "get_schedule_row s k") (auto dest: get_schedule_id)
qed

lemma write_schedule_simps [simp]:
  "plat (write_schedule s i g) = plat s" "tiers (write_schedule s i g) = tiers s"
  "next_schedule (write_schedule s i g) = next_schedule s"
  by (simp_all add: write_schedule_def)

section \<open>Starting a scheduled run\<close>

lemma status_fail_run:
  assumes "db_ok (pdb (plat s))" and "get_run (pdb (plat s)) i = Some r" and "run_status r \<notin> TERMINAL_RUN_STATUSES"
  shows "\<exists>q. get_run (pdb (plat (fail_run s i flds))) i = Some q \<and> run_status q = ''failed''
    \<and> triggered_by_id q = triggered_by_id r \<and> run_workflow_id q = run_workflow_id r \<and> run_id q = i"
proof -
  obtain fs where u: "update_run_status (pdb (plat s)) i ''failed'' flds False = fst (transition_run (pdb (plat s)) i ''failed'' None fs)"
    using update_run_status_transition by blast
  have f: "triggered_by_id (set_field f x) = triggered_by_id x \<and> run_workflow_id (set_field f x) = run_workflow_id x" for f x by (cases f) simp_all
  have "triggered_by_id (foldl (\<lambda>r f. set_field f r) x fs) = triggered_by_id x \<and> run_workflow_id (foldl (\<lambda>r f. set_field f r) x fs) = run_workflow_id x" for x
    by (induction fs arbitrary: x) (simp_all add: f)
  then have "triggered_by_id (transition_values ''failed'' fs r) = triggered_by_id r \<and> run_workflow_id (transition_values ''failed'' fs r) = run_workflow_id r"
    by (simp add: transition_values_def Let_def)
  moreover have "get_run (pdb (plat (fail_run s i flds))) i = Some (transition_values ''failed'' fs r)"
    using assms(2,3) get_run_id [OF assms(2)] by (simp add: fail_run_def u get_run_transition transition_guard_def)
  ultimately show ?thesis using get_run_id [OF assms(2)] by simp
qed

lemma fail_run_simps [simp]:
  "schedules (fail_run s i flds) = schedules s" "tiers (fail_run s i flds) = tiers s" "next_schedule (fail_run s i flds) = next_schedule s"
  "auth (plat (fail_run s i flds)) = auth (plat s)" "flows (plat (fail_run s i flds)) = flows (plat s)"
  by (simp_all add: fail_run_def)

text \<open>The ways a start can end, over the tables: the row is created, given its inputs, and then failed or
  handed to the engine.\<close>

lemma get_run_with_inputs: "get_run d i = Some r \<Longrightarrow> get_run (with_inputs d i inputs) i = Some (r\<lparr>run_inputs := inputs\<rparr>)"
proof -
  assume r: "get_run d i = Some r"
  let ?f = "\<lambda>x :: run_row. if run_id x = i then x\<lparr>run_inputs := inputs\<rparr> else x"
  have "run_id (?f x) = run_id x" for x by simp
  from find_key_map [where key = run_id and f = ?f, OF this] r get_run_id [OF r] show ?thesis
    by (simp add: get_run_def with_inputs_def)
qed

lemma db_ok_with_inputs: "db_ok d \<Longrightarrow> db_ok (with_inputs d i inputs)"
  by (erule db_okI) (auto simp: with_inputs_def)

lemma start_scheduled_run_cases:
  assumes c: "create_run (pdb (plat s)) (new_uuid env) (sc_workflow_id c) user ''scheduled'' [] [] None None (utc_now env) = (d, r)"
    and start: "start_scheduled_run env s c f user brk = (t, res)"
  shows "((\<exists>x flds inputs. t = fail_run x (run_id r) flds \<and> (pdb (plat x) = d \<or> pdb (plat x) = with_inputs d (run_id r) inputs)
        \<and> res = Inr (reload_scheduled t r))
    \<or> (\<exists>e. res = Inl e \<and> (\<forall>m. e \<noteq> ValidationFailedError m) \<and> resolve_scheduled_inputs env (s\<lparr>plat := (plat s)\<lparr>pdb := d\<rparr>\<rparr>) f (sc_run_inputs c) user = Inl e)
    \<or> (\<exists>inputs h. pdb (plat t) = record_hatchet_run_id (with_inputs d (run_id r) inputs) (run_id r) h \<and> res = Inr (reload_scheduled t r)))
    \<and> schedules t = schedules s \<and> tiers t = tiers s \<and> next_schedule t = next_schedule s \<and> auth (plat t) = auth (plat s) \<and> flows (plat t) = flows (plat s)"
proof (cases "validation_errors env f user = []")
  case False
  then show ?thesis using start by (auto simp: start_scheduled_run_def c Let_def)
next
  case True
  show ?thesis
  proof (cases "resolve_scheduled_inputs env (s\<lparr>plat := (plat s)\<lparr>pdb := d\<rparr>\<rparr>) f (sc_run_inputs c) user")
    case (Inl e)
    then show ?thesis using start True by (cases e) (auto simp: start_scheduled_run_def c Let_def)
  next
    case (Inr inputs)
    show ?thesis
    proof (cases "(brk \<and> breaker_is_open (plat s) (mono_clock env)) \<or> run_no_wait env (run_id r) f = None")
      case down: True
      let ?y = "(plat s)\<lparr>pdb := with_inputs d (run_id r) inputs\<rparr>"
      let ?x = "s\<lparr>plat := if brk then record_failure ?y (mono_clock env) else ?y\<rparr>"
      let ?fs = "[ErrorCategory (Some ''internal''), ErrorId (Some (new_error_id env)),
        ErrorMessage (Some ''Workflow execution engine unavailable''), FinishedAt (Some (utc_now env))]"
      have x: "pdb (plat ?x) = with_inputs d (run_id r) inputs" "schedules ?x = schedules s" "tiers ?x = tiers s"
        "next_schedule ?x = next_schedule s" "auth (plat ?x) = auth (plat s)" "flows (plat ?x) = flows (plat s)"
        by (simp_all add: record_failure_def)
      have "(t, res) = (fail_run ?x (run_id r) ?fs, Inr (reload_scheduled (fail_run ?x (run_id r) ?fs) r))"
        using start True Inr down by (cases "brk \<and> breaker_is_open (plat s) (mono_clock env)")
          (auto simp: start_scheduled_run_def c Let_def breaker_is_open_def split: if_splits)
      then have t: "t = fail_run ?x (run_id r) ?fs" "res = Inr (reload_scheduled t r)" by simp_all
      have "schedules t = schedules s \<and> tiers t = tiers s \<and> next_schedule t = next_schedule s \<and> auth (plat t) = auth (plat s) \<and> flows (plat t) = flows (plat s)"
        unfolding t(1) fail_run_simps using x by simp
      then show ?thesis using t x(1) by blast
    next
      case False
      then obtain h where "run_no_wait env (run_id r) f = Some h" by auto
      with False have "pdb (plat t) = record_hatchet_run_id (with_inputs d (run_id r) inputs) (run_id r) h" "res = Inr (reload_scheduled t r)"
        "schedules t = schedules s \<and> tiers t = tiers s \<and> next_schedule t = next_schedule s \<and> auth (plat t) = auth (plat s) \<and> flows (plat t) = flows (plat s)"
        using start True Inr
        by (auto simp: start_scheduled_run_def c Let_def record_success_def breaker_is_open_def)
      then show ?thesis by blast
    qed
  qed
qed

lemma start_scheduled_run_effect:
  assumes ok: "db_ok (pdb (plat s))" and start: "start_scheduled_run env s c f user brk = (t, Inr q)"
  shows "get_run (pdb (plat t)) (run_id q) = Some q \<and> run_id q = next_run (pdb (plat s)) \<and> triggered_by_id q = user
    \<and> run_workflow_id q = sc_workflow_id c \<and> (run_status q = ''failed'' \<or> run_status q = ''pending'' \<and> hatchet_run_id q \<noteq> None)"
proof -
  obtain d r where c: "create_run (pdb (plat s)) (new_uuid env) (sc_workflow_id c) user ''scheduled'' [] [] None None (utc_now env) = (d, r)"
    by fastforce
  have r: "run_id r = next_run (pdb (plat s))" "triggered_by_id r = user" "run_workflow_id r = sc_workflow_id c" "run_status r = ''pending''"
    using c by (auto simp: create_run_def Let_def)
  have g: "get_run d (run_id r) = Some r" using get_run_create [OF ok c] r(1) by simp
  have g2: "get_run (with_inputs d (run_id r) inputs) (run_id r) = Some (r\<lparr>run_inputs := inputs\<rparr>)" for inputs by (rule get_run_with_inputs [OF g])
  have dok: "db_ok d" by (rule db_ok_create_run [OF ok c])
  have fin: "?thesis" if "get_run (pdb (plat t)) (run_id r) = Some z" "q = reload_scheduled t r" "triggered_by_id z = user" "run_workflow_id z = sc_workflow_id c"
    "run_status z = ''failed'' \<or> run_status z = ''pending'' \<and> hatchet_run_id z \<noteq> None" for z
    using that r(1) get_run_id [OF that(1)] by (simp add: reload_scheduled_def reload_run_def)
  from start_scheduled_run_cases [OF c start] consider
    (failed) x flds inputs where "t = fail_run x (run_id r) flds" "pdb (plat x) = d \<or> pdb (plat x) = with_inputs d (run_id r) inputs" "q = reload_scheduled t r"
  | (handed) inputs h where "pdb (plat t) = record_hatchet_run_id (with_inputs d (run_id r) inputs) (run_id r) h" "q = reload_scheduled t r"
    by auto
  then show ?thesis
  proof cases
    case failed
    then obtain r' where r': "get_run (pdb (plat x)) (run_id r) = Some r'" "run_status r' = ''pending''" "triggered_by_id r' = user" "run_workflow_id r' = sc_workflow_id c"
      using g g2 r by fastforce
    have "db_ok (pdb (plat x))" using failed(2) dok db_ok_with_inputs by metis
    from status_fail_run [OF this r'(1), of flds] r'(2-) obtain z where
      z: "get_run (pdb (plat t)) (run_id r) = Some z" "run_status z = ''failed''" "triggered_by_id z = user" "run_workflow_id z = sc_workflow_id c"
      unfolding failed(1) by (auto simp: TERMINAL_RUN_STATUSES_def)
    show ?thesis by (rule fin [OF z(1) failed(3) z(3,4)]) (simp add: z(2))
  next
    case handed
    have "get_run (pdb (plat t)) (run_id r) = Some (r\<lparr>run_inputs := inputs, hatchet_run_id := Some h\<rparr>)"
      unfolding handed(1) record_hatchet_run_id_def get_run_def by (simp add: find_key_map [where key = run_id] g2 [unfolded get_run_def])
    then show ?thesis by (rule fin [OF _ handed(2)]) (use r in simp_all)
  qed
qed

section \<open>A fire\<close>

lemma start_tables:
  assumes "start_scheduled_run env s c f user brk = (t, res)"
  shows "schedules t = schedules s" "tiers t = tiers s" "next_schedule t = next_schedule s"
proof -
  obtain d r where "create_run (pdb (plat s)) (new_uuid env) (sc_workflow_id c) user ''scheduled'' [] [] None None (utc_now env) = (d, r)" by fastforce
  from start_scheduled_run_cases [OF this assms] show "schedules t = schedules s" "tiers t = tiers s" "next_schedule t = next_schedule s" by blast+
qed

lemma resolve_scheduled_error:
  assumes "resolve_scheduled_inputs env s f inp user = Inl e" and "\<And>m. e \<noteq> ValidationFailedError m"
  shows "\<exists>a \<in> set (static_attributes f). validate_def a \<noteq> Inr ()"
proof -
  have r: "resolve_run_inputs (to_float env) (sealer env) (static_attributes f) inp = Inl e" "\<And>m. e \<noteq> RunInputValidationError m"
    using assms by (auto simp: resolve_scheduled_inputs_def split: sum.splits py_exn.splits)
  then have "res_fold (\<lambda>_ a. validate_def a) () (static_attributes f) = Inl e"
    by (cases "res_fold (\<lambda>_ a. validate_def a) () (static_attributes f)")
      (auto simp: resolve_run_inputs_def Let_def case_prod_unfold split: if_splits)
  moreover have "res_fold (\<lambda>_ a. validate_def a) () xs = Inr ()" if "\<forall>a \<in> set xs. validate_def a = Inr ()" for xs
    using that by (induction xs) simp_all
  ultimately show ?thesis by fastforce
qed

lemma fire_disabled:
  assumes "get_schedule_row t i = Some c" and "\<not> sc_enabled c"
  shows "fire env t w i = (t, Skipped)"
  using assms by (simp add: fire_def)

lemma get_schedule_same: "schedules t = schedules s \<Longrightarrow> get_schedule_row t i = get_schedule_row s i"
  by (simp add: get_schedule_row_def)

lemma get_schedule_mark:
  "get_schedule_row (mark_triggered s i now dis) k = (if k = i then map_option (\<lambda>c. if dis
     then c\<lparr>last_triggered_at := Some now, sc_enabled := False, hatchet_cron_id := None, hatchet_scheduled_id := None\<rparr>
     else c\<lparr>last_triggered_at := Some now\<rparr>) (get_schedule_row s i) else get_schedule_row s k)"
proof -
  let ?g = "\<lambda>c :: schedule_row. let c1 = c\<lparr>last_triggered_at := Some now\<rparr>
     in if dis then c1\<lparr>sc_enabled := False, hatchet_cron_id := None, hatchet_scheduled_id := None\<rparr> else c1"
  have "sc_id (?g c) = sc_id c" for c by (simp add: Let_def)
  from get_schedule_write [of ?g, OF this, of s i k] show ?thesis
    by (cases "get_schedule_row s i") (simp_all add: mark_triggered_def Let_def)
qed

lemma get_schedule_disable:
  "get_schedule_row (schedule_update s i (\<lambda>c. c\<lparr>sc_enabled := False\<rparr>)) k = (if k = i then map_option (\<lambda>c.
     c\<lparr>sc_enabled := False, hatchet_cron_id := None, hatchet_scheduled_id := None\<rparr>) (get_schedule_row s i) else get_schedule_row s k)"
  unfolding schedule_update_def by (subst get_schedule_write) simp_all

lemma fire_cases:
  assumes "fire env s w i = (t, out)"
  shows "(out = Skipped \<and> t = s)
    \<or> (\<exists>c :: schedule_row. get_schedule_row s i = Some c \<and> out = Creator_Not_Authorised \<and> t = schedule_update s i (\<lambda>c. c\<lparr>sc_enabled := False\<rparr>))
    \<or> (\<exists>c f. get_schedule_row s i = Some c \<and> sc_enabled c \<and> sc_workflow_id c = w \<and> fire_authorised s c (Some f) \<and> get_workflow (plat s) w = Some f
        \<and> (\<exists>res. start_scheduled_run env (mark_triggered s i (utc_now env) (schedule_type c = ''once'')) c f (created_by_id c) False = (t, res)
             \<and> out = (case res of Inl e \<Rightarrow> Fire_Error e | Inr r \<Rightarrow> Started r)))"
proof (cases "get_schedule_row s i")
  case (Some c)
  show ?thesis
  proof (cases "get_workflow (plat s) w")
    case None
    then show ?thesis using assms Some by (auto simp: fire_def split: if_splits)
  next
    case f: (Some f)
    obtain t' res where st: "start_scheduled_run env (mark_triggered s i (utc_now env) (schedule_type c = ''once'')) c f (created_by_id c) False = (t', res)"
      by fastforce
    show ?thesis
    proof (cases "sc_enabled c \<and> sc_workflow_id c = w \<and> fire_authorised s c (Some f)")
      case True
      then have "t = t' \<and> out = (case res of Inl e \<Rightarrow> Fire_Error e | Inr r \<Rightarrow> Started r)"
        using assms Some f st by (cases res) (auto simp: fire_def Let_def)
      then show ?thesis using Some f st True by blast
    qed (use assms Some f in \<open>auto simp: fire_def split: if_splits\<close>)
  qed
qed (use assms in \<open>simp add: fire_def\<close>)

lemma fire_authorisedD:
  assumes "fire_authorised s c (Some f)" and "get_workflow (plat s) w = Some f"
  shows "\<exists>u x. created_by_id c = Some u \<and> get_user (auth (plat s)) u = Some x \<and> is_active x
    \<and> has_permission (auth (plat s)) u ''workflows'' ''execute'' \<and> assert_workflow_access (plat s) w u = Inr f"
  using assms by (auto simp: fire_authorised_def assert_workflow_access_def split: option.splits)


section \<open>Publishing and taking it back\<close>

lemma get_tier_map:
  assumes "\<And>x. tier_workflow_id (g x) = tier_workflow_id x" and "tiers t = map g (tiers s)"
  shows "get_tier t w = map_option g (get_tier s w)"
  using find_key_map [where key = tier_workflow_id and f = g, OF assms(1)] by (simp add: get_tier_def assms(2))

lemma tier_limit_same:
  assumes "distinct (map tier_workflow_id ts)" and "List.find (\<lambda>x. tier_workflow_id x = w) ts = Some x"
  shows "map (\<lambda>y. if tier_workflow_id y = w then y\<lparr>concurrency_limit := concurrency_limit x\<rparr> else y) ts = ts"
proof (rule map_idI)
  fix y assume y: "y \<in> set ts"
  have "x \<in> set ts" "tier_workflow_id x = w" using assms(2) by (auto dest: find_key_mem)
  then have "tier_workflow_id y = w \<Longrightarrow> y = x" using distinct_map_eq [OF assms(1) y] by simp
  then show "(if tier_workflow_id y = w then y\<lparr>concurrency_limit := concurrency_limit x\<rparr> else y) = y" by auto
qed

lemma publish_undone:
  assumes dist: "distinct (map tier_workflow_id (tiers s))" and pub: "publish s w limit u = Inr s1" and t: "tiers t = tiers s1" "plat t = plat s1"
  shows "tiers (undo_publish t w u (publication_state s w) limit) = tiers s" and "plat (undo_publish t w u (publication_state s w) limit) = plat s"
    and "schedules (undo_publish t w u (publication_state s w) limit) = schedules t"
proof -
  from pub obtain f where acc: "assert_workflow_access (plat s) w u = Inr f" and s1: "s1 = repo_publish s w limit (Some u)"
    by (auto simp: publish_def res_bind_Inr_iff)
  have p1: "plat s1 = plat s" by (auto simp: s1 repo_publish_def split: option.split)
  have "tiers (undo_publish t w u (publication_state s w) limit) = tiers s \<and> plat (undo_publish t w u (publication_state s w) limit) = plat s
      \<and> schedules (undo_publish t w u (publication_state s w) limit) = schedules t"
  proof (cases "get_tier s w")
    case None
    then have ts: "tiers s1 = tiers s @ [\<lparr>tier_workflow_id = w, hatchet_workflow_name = ''WorkflowBackground-'' @ nat_str w,
                    concurrency_limit = limit, published_by_id = Some u\<rparr>]" by (simp add: s1 repo_publish_def)
    have no: "filter (\<lambda>x. tier_workflow_id x \<noteq> w) (tiers s) = tiers s"
      using None by (auto simp: get_tier_def find_None_iff filter_id_conv)
    have "get_tier t w \<noteq> None" using ts t(1) by (auto simp: get_tier_def find_None_iff)
    then show ?thesis using None ts no t p1
      by (auto simp: undo_publish_def publication_state_def unpublish_for_workflow_unchecked_def repo_unpublish_def)
  next
    case (Some x)
    let ?g = "\<lambda>l y :: tier_row. if tier_workflow_id y = w then y\<lparr>concurrency_limit := l\<rparr> else y"
    have ts: "tiers t = map (?g limit) (tiers s)" using Some t(1) by (simp add: s1 repo_publish_def)
    note same = tier_limit_same [OF dist Some [unfolded get_tier_def]]
    have tt: "get_tier t w = map_option (?g limit) (get_tier s w)" by (rule get_tier_map [OF _ ts]) simp
    show ?thesis
    proof (cases "concurrency_limit x = limit")
      case True
      then have "tiers t = tiers s" using ts same by (simp only:)
      then show ?thesis using True Some t(2) p1 by (simp add: undo_publish_def publication_state_def)
    next
      case False
      have "map (?g (concurrency_limit x)) (map (?g limit) (tiers s)) = map (?g (concurrency_limit x)) (tiers s)" by simp
      then show ?thesis using False Some ts same t(2) p1 acc tt
        by (simp add: undo_publish_def publication_state_def publish_def repo_publish_def)
    qed
  qed
  then show "tiers (undo_publish t w u (publication_state s w) limit) = tiers s" "plat (undo_publish t w u (publication_state s w) limit) = plat s"
    "schedules (undo_publish t w u (publication_state s w) limit) = schedules t" by blast+
qed

section \<open>Engine entries\<close>

definition entry_ok :: "schedule_row \<Rightarrow> bool" where
  "entry_ok c \<longleftrightarrow> (sc_enabled c \<longrightarrow> (if schedule_type c = ''cron'' then hatchet_cron_id c \<noteq> None else hatchet_scheduled_id c \<noteq> None))"

definition schedules_ok :: "scheduler \<Rightarrow> bool" where
  "schedules_ok s \<longleftrightarrow> distinct (map sc_id (schedules s)) \<and> (\<forall>c \<in> set (schedules s). sc_id c < next_schedule s \<and> entry_ok c)
     \<and> distinct (map tier_workflow_id (tiers s))"

inductive schedule_step :: "scheduler \<Rightarrow> scheduler \<Rightarrow> bool" where
  create: "create_schedule env s data limit user = (t, r) \<Longrightarrow> schedule_step s t"
| update: "update_schedule env s i data user = (t, r) \<Longrightarrow> schedule_step s t"
| delete: "delete_schedule env s i user = (t, r') \<Longrightarrow> schedule_step s t"
| disable_user: "disable_for_user env s user = (t, r') \<Longrightarrow> schedule_step s t"
| delete_user: "delete_for_user env s user = (t, r') \<Longrightarrow> schedule_step s t"
| delete_workflow: "delete_schedules_for_workflow_unchecked env s w = (t, r') \<Longrightarrow> schedule_step s t"
| fired: "fire env s w i = (t, out) \<Longrightarrow> schedule_step s t"
| by_hand: "run_now env s i user = (t, r'') \<Longrightarrow> schedule_step s t"
| published: "publish s w limit user = Inr t \<Longrightarrow> schedule_step s t"
| unpublished: "unpublish s w user = Inr t \<Longrightarrow> schedule_step s t"
| elsewhere: "schedule_step s (s\<lparr>plat := q\<rparr>)"

lemma schedules_ok_same:
  "schedules_ok s \<Longrightarrow> schedules t = schedules s \<Longrightarrow> next_schedule t = next_schedule s \<Longrightarrow> distinct (map tier_workflow_id (tiers t)) \<Longrightarrow> schedules_ok t"
  by (simp add: schedules_ok_def)

lemma schedules_ok_write:
  assumes "schedules_ok s" and "\<And>c. sc_id (g c) = sc_id c" and "\<And>c. entry_ok c \<Longrightarrow> entry_ok (g c)"
  shows "schedules_ok (write_schedule s i g)"
proof -
  have "map sc_id (schedules (write_schedule s i g)) = map sc_id (schedules s)" using assms(2) by (simp add: write_schedule_def)
  moreover have "\<forall>c \<in> set (schedules (write_schedule s i g)). sc_id c < next_schedule s \<and> entry_ok c"
    using assms by (auto simp: write_schedule_def schedules_ok_def)
  ultimately show ?thesis using assms(1) by (simp add: schedules_ok_def)
qed

lemma schedules_ok_disable: "schedules_ok s \<Longrightarrow> schedules_ok (schedule_update s i (\<lambda>c. c\<lparr>sc_enabled := False\<rparr>))"
  unfolding schedule_update_def by (rule schedules_ok_write) (simp_all add: entry_ok_def)

lemma schedules_ok_mark: "schedules_ok s \<Longrightarrow> schedules_ok (mark_triggered s i now dis)"
  unfolding mark_triggered_def by (rule schedules_ok_write) (auto simp: entry_ok_def Let_def split: if_splits)

lemma schedules_ok_delete: "schedules_ok s \<Longrightarrow> schedules_ok (schedule_delete s i)"
  by (auto simp: schedules_ok_def schedule_delete_def distinct_map_filter)

lemma tiers_publish: "distinct (map tier_workflow_id (tiers s)) \<Longrightarrow> distinct (map tier_workflow_id (tiers (repo_publish s w l u)))"
  by (auto simp: repo_publish_def get_tier_def find_None_iff o_def if_distrib [of tier_workflow_id] cong: if_cong split: option.split)

lemma publish_tables:
  assumes "publish s w limit user = Inr t"
  shows "schedules t = schedules s" "next_schedule t = next_schedule s" "plat t = plat s"
    "distinct (map tier_workflow_id (tiers s)) \<Longrightarrow> distinct (map tier_workflow_id (tiers t))"
proof -
  have "t = repo_publish s w limit (Some user)" using assms by (auto simp: publish_def res_bind_Inr_iff)
  then show "schedules t = schedules s" "next_schedule t = next_schedule s" "plat t = plat s"
    "distinct (map tier_workflow_id (tiers s)) \<Longrightarrow> distinct (map tier_workflow_id (tiers t))"
    using tiers_publish by (auto simp: repo_publish_def split: option.splits)
qed

lemma undo_next: "next_schedule (undo_publish t w u b l) = next_schedule t"
  by (cases b) (auto simp: undo_publish_def unpublish_for_workflow_unchecked_def repo_unpublish_def
      dest: publish_tables(2) split: option.split sum.split)

lemma register_entry_ok:
  assumes "register_hatchet_entry env c sfx = Inr ids"
  shows "ids = None \<Longrightarrow> \<not> sc_enabled c"
    and "ids = Some (cron, once) \<Longrightarrow> if schedule_type c = ''cron'' then cron \<noteq> None else once \<noteq> None"
  using assms by (auto simp: register_hatchet_entry_def res_bind_Inr_iff split: if_splits)

lemma create_schedule_ok:
  assumes ok: "schedules_ok s" and create: "create_schedule env s data limit user = (t, r)"
  shows "schedules_ok t" and "isl r \<Longrightarrow> schedules t = schedules s \<and> tiers t = tiers s \<and> plat t = plat s"
proof (atomize (full), cases "res_bind (assert_workflow_access (plat s) (sc_workflow_id data) user) (\<lambda>f.
             res_bind (validate_timing (utc_now env) (schedule_type data) (cron_expression data) (run_at data)) (\<lambda>_.
             resolve_scheduled_inputs env s f (sc_run_inputs data) (Some user)))")
  case (Inl e)
  then show "schedules_ok t \<and> (isl r \<longrightarrow> schedules t = schedules s \<and> tiers t = tiers s \<and> plat t = plat s)" using create ok by (simp add: create_schedule_def)
next
  case (Inr inputs)
  let ?w = "sc_workflow_id data"
  let ?draft = "data\<lparr>sc_enabled := False, sc_run_inputs := inputs, created_by_id := Some user\<rparr>"
  show "schedules_ok t \<and> (isl r \<longrightarrow> schedules t = schedules s \<and> tiers t = tiers s \<and> plat t = plat s)"
  proof (cases "publish s ?w limit user")
    case Inl: (Inl e)
    then show ?thesis using create ok Inr by (simp add: create_schedule_def Let_def)
  next
    case pub: (Inr s1)
    obtain s2 c where sc: "schedule_create s1 ?draft = (s2, c)" by fastforce
    have c: "sc_id c = next_schedule s" "\<not> sc_enabled c" "schedules s2 = schedules s @ [c]" "next_schedule s2 = Suc (next_schedule s)"
      "tiers s2 = tiers s1" "plat s2 = plat s1" "schedule_type c = schedule_type data"
      using sc publish_tables [OF pub] by (auto simp: schedule_create_def Let_def)
    have fresh: "\<forall>x \<in> set (schedules s). sc_id x \<noteq> next_schedule s" using ok by (auto simp: schedules_ok_def)
    have ok2: "schedules_ok s2" using ok c(1-5) publish_tables(4) [OF pub] fresh
      by (auto simp: schedules_ok_def entry_ok_def less_Suc_eq)
    show ?thesis
    proof (cases "register_hatchet_entry env (c\<lparr>sc_enabled := sc_enabled data\<rparr>) []")
      case (Inl e)
      let ?d = "schedule_delete s2 (sc_id c)"
      have d: "tiers ?d = tiers s1" "plat ?d = plat s1" "schedules ?d = schedules s" "next_schedule ?d = next_schedule s2"
        using c fresh by (auto simp: schedule_delete_def filter_id_conv)
      have t: "t = undo_publish ?d ?w user (publication_state s ?w) limit" using create Inr pub sc Inl by (simp add: create_schedule_def Let_def)
      have dist: "distinct (map tier_workflow_id (tiers s))" using ok by (simp add: schedules_ok_def)
      note und = publish_undone [OF dist pub d(1,2), folded t]
      have "next_schedule t = next_schedule s2" by (simp add: t undo_next d(4))
      then have "schedules_ok t" using und d(3) ok c(4) by (auto simp: schedules_ok_def)
      then show ?thesis using und d(3) by simp
    next
      case reg: (Inr ids)
      show ?thesis
      proof (cases ids)
        case None
        then show ?thesis using create Inr pub sc reg ok2 by (auto simp: create_schedule_def Let_def)
      next
        case (Some p)
        obtain cron once where p: "p = (cron, once)" by fastforce
        let ?g = "\<lambda>c. c\<lparr>sc_enabled := sc_enabled data, hatchet_cron_id := cron, hatchet_scheduled_id := once\<rparr>"
        have t: "t = write_schedule s2 (sc_id c) ?g" "\<not> isl r" using create Inr pub sc reg Some p by (auto simp: create_schedule_def Let_def)
        have "schedules t = schedules s @ [?g c]" using fresh c by (auto simp: t(1) write_schedule_def intro: map_idI)
        moreover have "entry_ok (?g c)" using register_entry_ok(2) [OF reg] Some p by (simp add: entry_ok_def split: if_splits)
        ultimately have "schedules_ok t" using ok2 c by (auto simp: schedules_ok_def t(1))
        then show ?thesis using t(2) by blast
      qed
    qed
  qed
qed

lemma schedules_ok_set:
  assumes ok: "schedules_ok s" and t: "schedules t = map (\<lambda>c. if sc_id c = i then g c else c) (schedules s)" "next_schedule t = next_schedule s"
    and g: "\<And>c. sc_id (g c) = sc_id c" "\<And>c. get_schedule_row s i = Some c \<Longrightarrow> entry_ok (g c)" and tiers: "distinct (map tier_workflow_id (tiers t))"
  shows "schedules_ok t"
proof -
  have "map sc_id (schedules t) = map sc_id (schedules s)" using g(1) by (simp add: t(1))
  moreover have "sc_id x < next_schedule t \<and> entry_ok x" if "x \<in> set (schedules t)" for x
  proof -
    from that obtain c where c: "c \<in> set (schedules s)" "x = (if sc_id c = i then g c else c)" unfolding t(1) by auto
    show ?thesis
    proof (cases "sc_id c = i")
      case True
      have "distinct (map sc_id (schedules s))" using ok by (simp add: schedules_ok_def)
      then have "get_schedule_row s i = Some c" using find_key_distinct [of sc_id "schedules s" c] c(1) True by (simp add: get_schedule_row_def)
      then show ?thesis using c True g ok t(2) by (auto simp: schedules_ok_def)
    next
      case False
      then show ?thesis using c ok t(2) by (auto simp: schedules_ok_def)
    qed
  qed
  ultimately show ?thesis using ok tiers by (simp add: schedules_ok_def)
qed

lemma write_write:
  "(\<And>c. sc_id (g c) = sc_id c) \<Longrightarrow> write_schedule (write_schedule s i g) i h = write_schedule s i (\<lambda>c. h (g c))"
  by (simp add: write_schedule_def)

lemma changed_row_id [simp]: "sc_id (changed_row data inputs c) = sc_id c"
  by (simp add: changed_row_def)

lemma update_checks_row: "update_checks env s i data user = Inr (c, inputs) \<Longrightarrow> get_schedule_row s i = Some c"
  by (auto simp: update_checks_def require_owned_schedule_def require_schedule_def res_bind_Inr_iff Let_def split: option.splits)

lemma update_schedule_ok:
  assumes ok: "schedules_ok s" and upd: "update_schedule env s i data user = (t, r)"
  shows "schedules_ok t \<and> (isl r \<longrightarrow> tiers t = tiers s \<and> plat t = plat s \<and> (\<forall>k. get_schedule_row t k = get_schedule_row s k
      \<or> k = i \<and> (\<exists>c. get_schedule_row t i = Some c \<and> \<not> sc_enabled c)))"
proof (cases "update_checks env s i data user")
  case (Inl e)
  then show ?thesis using upd ok by (simp add: update_schedule_def)
next
  case (Inr p)
  obtain c inputs where p: "p = (c, inputs)" by fastforce
  let ?w = "sc_workflow_id c" and ?new = "changed_row data inputs"
  let ?clear = "\<lambda>c :: schedule_row. (?new c)\<lparr>hatchet_cron_id := None, hatchet_scheduled_id := None\<rparr>"
  have c: "get_schedule_row s i = Some c" using update_checks_row Inr p by simp
  have dist: "distinct (map tier_workflow_id (tiers s))" using ok by (simp add: schedules_ok_def)
  show ?thesis
  proof (cases "case new_limit data of None \<Rightarrow> Inr s | Some n \<Rightarrow> publish s ?w (Some n) user")
    case Inl: (Inl e)
    then show ?thesis using upd ok Inr p by (simp add: update_schedule_def Let_def)
  next
    case pub: (Inr s1)
    have s1: "schedules s1 = schedules s" "next_schedule s1 = next_schedule s" "plat s1 = plat s" "distinct (map tier_workflow_id (tiers s1))"
      using pub dist publish_tables [of s ?w _ user s1] by (auto split: option.splits)
    have g1: "get_schedule_row s1 k = get_schedule_row s k" for k by (rule get_schedule_same [OF s1(1)])
    have s2: "schedule_update s1 i ?new = write_schedule s1 i ?clear" by (simp add: schedule_update_def)
    show ?thesis
    proof (cases "register_hatchet_entry env (?clear c) (''-'' @ take 8 (name_suffix env))")
      case (Inl e)
      let ?off = "\<lambda>c. (?new c)\<lparr>sc_enabled := False, hatchet_cron_id := None, hatchet_scheduled_id := None\<rparr>"
      let ?s3 = "write_schedule s1 i ?off"
      have "schedule_update (schedule_update s1 i ?new) i (\<lambda>c. c\<lparr>sc_enabled := False\<rparr>) = ?s3"
        unfolding schedule_update_def by (subst write_write) simp_all
      then have t: "t = (if new_limit data \<noteq> None then undo_publish ?s3 ?w user (publication_state s ?w) (new_limit data) else ?s3)"
        using upd Inr p pub Inl by (simp add: update_schedule_def Let_def s2)
      have "tiers t = tiers s \<and> plat t = plat s \<and> schedules t = schedules ?s3 \<and> next_schedule t = next_schedule s"
      proof (cases "new_limit data")
        case None
        then show ?thesis using pub t by auto
      next
        case (Some n)
        then have "publish s ?w (Some n) user = Inr s1" using pub by simp
        from publish_undone [OF dist this, of ?s3] show ?thesis using Some t s1(2) by (simp add: undo_next)
      qed
      then have t3: "tiers t = tiers s" "plat t = plat s" "schedules t = schedules ?s3" "next_schedule t = next_schedule s" by blast+
      have "schedules_ok t"
      proof (rule schedules_ok_set [OF ok _ t3(4)])
        show "schedules t = map (\<lambda>c. if sc_id c = i then ?off c else c) (schedules s)" by (simp add: t3(3) write_schedule_def s1(1))
        show "distinct (map tier_workflow_id (tiers t))" using dist t3(1) by simp
      qed (simp_all add: entry_ok_def)
      moreover have "get_schedule_row t k = (if k = i then Some (?off c) else get_schedule_row s k)" for k
        unfolding get_schedule_same [OF t3(3)] by (subst get_schedule_write) (simp_all add: g1 c)
      ultimately show ?thesis using t3(1,2) by simp
    next
      case reg: (Inr ids)
      define g where "g = (case ids of None \<Rightarrow> ?clear | Some (cron, once) \<Rightarrow> (\<lambda>c. (?new c)\<lparr>hatchet_cron_id := cron, hatchet_scheduled_id := once\<rparr>))"
      have "set_hatchet_ids (schedule_update s1 i ?new) i a b = write_schedule s1 i (\<lambda>c. (?new c)\<lparr>hatchet_cron_id := a, hatchet_scheduled_id := b\<rparr>)" for a b
        unfolding s2 set_hatchet_ids_def by (subst write_write) simp_all
      then have t: "t = write_schedule s1 i g" "\<not> isl r"
        using upd Inr p pub reg by (auto simp: update_schedule_def Let_def s2 g_def delete_entry_ids_def split: option.splits delete_reply.splits prod.splits)
      have "entry_ok (g c)" using register_entry_ok [OF reg]
        by (cases ids) (auto simp: g_def entry_ok_def split: if_splits)
      then have "schedules_ok t" using c s1
        by (intro schedules_ok_set [OF ok, of t i g]) (auto simp: t(1) write_schedule_def g_def split: option.splits)
      then show ?thesis using t(2) by simp
    qed
  qed
qed

lemma for_schedules_ok:
  assumes act: "\<And>s i. schedules_ok s \<Longrightarrow> schedules_ok (act s i)" and "schedules_ok s" and "for_schedules env act s cs = (t, r)"
  shows "schedules_ok t"
  using assms(2,3)
proof (induction cs arbitrary: s)
  case (Cons c cs)
  then show ?case using Cons.IH [OF act [OF Cons.prems(1)]] by (auto split: sum.splits)
qed simp

lemma schedule_step_ok: "schedule_step s t \<Longrightarrow> schedules_ok s \<Longrightarrow> schedules_ok t"
proof (induction rule: schedule_step.induct)
  case (create env s data limit user t r)
  then show ?case using create_schedule_ok(1) by blast
next
  case (update env s i data user t r)
  then show ?case using update_schedule_ok by blast
next
  case (delete env s i user t r')
  then show ?case by (auto simp: delete_schedule_def schedules_ok_delete split: sum.splits)
next
  case (disable_user env s user t r')
  then show ?case unfolding disable_for_user_def by (elim for_schedules_ok [rotated 2]) (rule schedules_ok_disable)
next
  case (delete_user env s user t r')
  then show ?case unfolding delete_for_user_def by (elim for_schedules_ok [rotated 2]) (rule schedules_ok_delete)
next
  case (delete_workflow env s w t r')
  then show ?case unfolding delete_schedules_for_workflow_unchecked_def by (elim for_schedules_ok [rotated 2]) (rule schedules_ok_delete)
next
  case (fired env s w i t out)
  have "schedules_ok t" if "start_scheduled_run env (mark_triggered s i now b) c f u False = (t, res)" for now b c f u res
    using schedules_ok_mark [OF fired.prems, of i now b] start_tables [OF that] by (simp add: schedules_ok_def)
  with fire_cases [OF fired.hyps] fired.prems schedules_ok_disable show ?case by blast
next
  case (by_hand env s i user t r'')
  have "schedules_ok t" if "start_scheduled_run env s c f u True = (t, res)" for c f u res
    using by_hand.prems start_tables [OF that] by (simp add: schedules_ok_def)
  then show ?case using by_hand by (auto simp: run_now_def split: sum.splits prod.splits)
next
  case (published s w limit user t)
  then show ?case using publish_tables [OF published.hyps] by (simp add: schedules_ok_def)
next
  case (unpublished s w user t)
  then show ?case by (auto simp: unpublish_def res_bind_Inr_iff repo_unpublish_def schedules_ok_def distinct_map_filter split: option.splits)
next
  case (elsewhere s q)
  then show ?case by (simp add: schedules_ok_def)
qed


text \<open>User 3, active and allowed to execute workflows, schedules workflow 7 once; the engine is up, then down.\<close>

definition demo_schedule_env :: schedule_env where
  "demo_schedule_env = service_env.extend demo_service_env
     (schedule_env.fields (\<lambda>_ _. Entry ''cron-1'') (\<lambda>_. Entry ''once-1'') (\<lambda>_. Removed) (\<lambda>_. Removed) ''suffix''
        (\<lambda>_ _. Inr None) (\<lambda>_. []) None (\<lambda>_. []) (\<lambda>_. []))"

definition demo_scheduler :: scheduler where
  "demo_scheduler = \<lparr>plat = demo_platform\<lparr>auth := (auth demo_platform)\<lparr>
       permissions := [\<lparr>perm_id = 1, perm_resource = ''workflows'', perm_action = ''execute'', perm_description = None\<rparr>],
       user_permissions := [((3, 1), True)],
       users := [\<lparr>user_id = 3, username = ''u'', password_hash = [], is_active = True, must_change_password = False, token_version = 0\<rparr>]\<rparr>\<rparr>,
     schedules = [], next_schedule = 1, tiers = []\<rparr>"

definition demo_schedule :: schedule_row where
  "demo_schedule = \<lparr>sc_id = 0, sc_workflow_id = 7, sc_name = None, sc_run_inputs = [], schedule_type = ''once'', cron_expression = None,
     run_at = Some 9, sc_enabled = True, hatchet_cron_id = None, hatchet_scheduled_id = None, last_triggered_at = None, created_by_id = None\<rparr>"

definition demo_scheduled :: scheduler where
  "demo_scheduled = fst (create_schedule demo_schedule_env demo_scheduler demo_schedule (Some 1) 3)"



end
