(* ===== verification/Run_Race.thy ===== *)
theory Run_Race
  imports Run_Chains
begin

text \<open>
  Starting a child run races the cancellation of its parent: the two requests of
  \<open>services/execution/run_service.py\<close> commit after each of their steps, and anything else may commit in
  between. The steps below are those of \<open>start_child_run\<close> from the creation of the child's row on, and those of
  \<open>cancel_run\<close> from the mark on the parent to the end of its sweep.
\<close>

section \<open>The two requests\<close>

datatype starter = Starting | Created nat | Returned nat | Withdrawn nat
datatype canceller = Idle | Marked | Sweeping "nat list" | Swept

type_synonym race = "db \<times> starter \<times> canceller"

definition run_active :: "db \<Rightarrow> nat \<Rightarrow> bool" where
  "run_active d i \<longleftrightarrow> (\<exists>st \<in> ACTIVE_RUN_STATUSES. status_of d i = Some st)"

lemma parent_is_active_run: "parent_is_active s i = run_active (pdb s) i"
  by (auto simp: parent_is_active_def run_active_def status_of_def split: option.splits)

definition known_statuses :: "db \<Rightarrow> bool" where
  "known_statuses d \<longleftrightarrow> (\<forall>r \<in> set (runs d). run_status r \<in> ACTIVE_RUN_STATUSES \<union> TERMINAL_RUN_STATUSES)"

text \<open>The sweep reads the children once and then cancels those it read as active.\<close>

definition active_children :: "db \<Rightarrow> nat \<Rightarrow> nat list" where
  "active_children d p = map run_id (filter (\<lambda>r. run_status r \<in> ACTIVE_RUN_STATUSES) (list_children d p))"

inductive race_step :: "nat \<Rightarrow> race \<Rightarrow> race \<Rightarrow> bool" for p where
  create: "create_run d u w tb tt ds ri (Some p) a now = (e, r) \<Longrightarrow> race_step p (d, Starting, C) (e, Created (run_id r), C)"
| confirm: "run_active d p \<Longrightarrow> race_step p (d, Created k, C) (d, Returned k, C)"
| withdraw: "\<not> run_active d p \<Longrightarrow> race_step p (d, Created k, C) (fst (transition_run d k ''cancelled'' None fs), Withdrawn k, C)"
| mark: "transition_run d p ''cancelled'' None fs = (e, True) \<Longrightarrow> race_step p (d, S, Idle) (e, S, Marked)"
| read: "race_step p (d, S, Marked) (d, S, Sweeping (active_children d p))"
| sweep: "race_step p (d, S, Sweeping (c # cs)) (fst (transition_run d c ''cancelled'' None fs), S, Sweeping cs)"
| swept: "race_step p (d, S, Sweeping []) (d, S, Swept)"
| other: "repo_step d e \<Longrightarrow> get_run e p \<noteq> None \<Longrightarrow> known_statuses e \<Longrightarrow> race_step p (d, S, C) (e, S, C)"

section \<open>The invariant\<close>

definition ended :: "db \<Rightarrow> nat \<Rightarrow> bool" where
  "ended d k \<longleftrightarrow> k < next_run d \<and> (\<forall>st. status_of d k = Some st \<longrightarrow> st \<in> TERMINAL_RUN_STATUSES)"

text \<open>A child that is still there is linked to the parent.\<close>

definition linked :: "nat \<Rightarrow> db \<Rightarrow> nat \<Rightarrow> bool" where
  "linked p d k \<longleftrightarrow> k < next_run d \<and> (get_run d k = None \<or> (k, Some p) \<in> set (links d))"

fun starter_ok :: "nat \<Rightarrow> db \<Rightarrow> canceller \<Rightarrow> starter \<Rightarrow> bool" where
  "starter_ok p d C Starting = True"
| "starter_ok p d C (Created k) = (linked p d k)"
| "starter_ok p d C (Returned k) = (linked p d k \<and> (case C of Idle \<Rightarrow> True | Marked \<Rightarrow> True
     | Sweeping cs \<Rightarrow> ended d k \<or> k \<in> set cs | Swept \<Rightarrow> ended d k))"
| "starter_ok p d C (Withdrawn k) = ended d k"

definition race_ok :: "nat \<Rightarrow> race \<Rightarrow> bool" where
  "race_ok p x = (case x of (d, S, C) \<Rightarrow> db_ok d \<and> known_statuses d \<and> get_run d p \<noteq> None
     \<and> (C \<noteq> Idle \<longrightarrow> status_of d p = Some ''cancelled'') \<and> starter_ok p d C S)"

section \<open>Steps of the store\<close>

lemma links_repo [simp]:
  "links (update_run_status d i st fs c) = links d"
  "links (record_hatchet_run_id d i h) = links d"
  "links (update_step_result d x st v) = links d"
  "links (update_group d i n f) = links d"
  by (simp add: update_run_status_def) (auto simp: links_def record_hatchet_run_id_def update_step_result_def update_group_def)

lemma links_create: "create_run d u w tb tt ds ri q a now = (e, r) \<Longrightarrow> set (links d) \<subseteq> set (links e)"
  by (auto simp: links_def create_run_def Let_def)

lemma links_delete:
  assumes "(k, Some p) \<in> set (links d)" and "k \<notin> ids" and "p \<notin> ids"
  shows "(k, Some p) \<in> set (links (delete_runs d ids))"
proof -
  from assms(1) obtain r where r: "r \<in> set (runs d)" "run_id r = k" "parent_run_id r = Some p" by (auto simp: links_def)
  let ?g = "\<lambda>r :: run_row. if parent_run_id r \<in> Some ` ids then r\<lparr>parent_run_id := None\<rparr> else r"
  have "?g r = r" using r(3) assms(3) by auto
  moreover have "?g r \<in> set (runs (delete_runs d ids))"
    unfolding delete_runs_def using r(1,2) assms(2) by (simp del: if_image_distrib)
  ultimately have "r \<in> set (runs (delete_runs d ids))" by simp
  then show ?thesis unfolding links_def set_map using r(2,3) by (metis (mono_tags, lifting) image_eqI)
qed

lemma repo_step_kept:
  assumes "repo_step d e" and "get_run e p \<noteq> None" and l: "(k, Some p) \<in> set (links d)"
  shows "get_run e k = None \<or> (k, Some p) \<in> set (links e)"
  using assms(1)
proof (cases rule: repo_step.cases)
  case create_run
  then show ?thesis using l links_create by blast
next
  case create_step
  then show ?thesis using l create_step_result_InrD(1) by (simp add: links_def)
next
  case create_groups
  then show ?thesis using l create_device_groups_InrD(1) by (simp add: links_def)
next
  case (delete ids)
  then have "p \<notin> ids" using assms(2) by (auto simp: get_run_delete)
  then show ?thesis using links_delete [OF l] delete by (cases "k \<in> ids") (simp_all add: get_run_delete)
qed (use l in simp_all)

lemma repo_step_links:
  assumes "repo_step d e" and "get_run e p \<noteq> None" and "linked p d k" and "db_ok d"
  shows "linked p e k"
proof -
  have n: "next_run d \<le> next_run e" using repo_step_next [OF assms(4,1)] by simp
  have k: "k < next_run d" using assms(3) by (simp add: linked_def)
  have gone: "get_run d k = None \<Longrightarrow> get_run e k = None"
    using run_status.gone [OF assms(4,1) k] by (simp add: status_of_def)
  show ?thesis using assms(3) gone repo_step_kept [OF assms(1,2), of k] k n unfolding linked_def by (auto intro: less_le_trans)
qed

lemma ended_step: "db_ok d \<Longrightarrow> repo_step d e \<Longrightarrow> ended d k \<Longrightarrow> ended e k"
  using run_status.final_kept [of d e k] run_status.gone [of d e k] repo_step_next [of d e]
  unfolding ended_def by (cases "status_of d k") auto

section \<open>The race\<close>

lemma known_transition:
  assumes "known_statuses d"
  shows "known_statuses (fst (transition_run d k ''cancelled'' src fs))"
  using assms by (auto simp: known_statuses_def transition_run_def Let_def TERMINAL_RUN_STATUSES_def)

lemma known_status_of: "known_statuses d \<Longrightarrow> status_of d k = Some st \<Longrightarrow> st \<in> ACTIVE_RUN_STATUSES \<union> TERMINAL_RUN_STATUSES"
  by (auto simp: known_statuses_def status_of_def get_run_def dest: find_key_mem)

lemma cancel_step: "repo_step d (fst (transition_run d k ''cancelled'' None fs))"
  by (rule repo_step.transition) (simp add: from_ok_def)

lemma cancel_ends: "k < next_run d \<Longrightarrow> ended (fst (transition_run d k ''cancelled'' None fs)) k"
  unfolding ended_def status_of_transition
  by (cases "get_run d k") (auto simp: transition_guard_def TERMINAL_RUN_STATUSES_def status_of_def)

lemma starter_step:
  assumes "db_ok d" and "repo_step d e" and "get_run e p \<noteq> None" and "starter_ok p d C S"
  shows "starter_ok p e C S"
  using assms(4) repo_step_links [OF assms(2,3) _ assms(1)] ended_step [OF assms(1,2)]
  by (cases S) (auto split: canceller.splits)

lemma get_run_kept: "get_run d p \<noteq> None \<Longrightarrow> get_run (fst (transition_run d k st src fs)) p \<noteq> None"
  by (simp add: get_run_transition)

lemma cancelled_kept:
  "db_ok d \<Longrightarrow> repo_step d e \<Longrightarrow> get_run e p \<noteq> None \<Longrightarrow> status_of d p = Some ''cancelled'' \<Longrightarrow> status_of e p = Some ''cancelled''"
  using run_status.final_kept [of d e p "''cancelled''"] by (auto simp: status_of_def TERMINAL_RUN_STATUSES_def)

lemma race_ok_repo:
  assumes "race_ok p (d, S, C)" and "repo_step d e" and "get_run e p \<noteq> None" and "known_statuses e"
  shows "race_ok p (e, S, C)"
  using assms repo_step_ok [OF _ assms(2)] cancelled_kept [OF _ assms(2,3)] starter_step [OF _ assms(2,3)]
  by (auto simp: race_ok_def)

lemma race_ok_cancel:
  assumes "race_ok p (d, S, C)"
  shows "race_ok p (fst (transition_run d k ''cancelled'' None fs), S, C)"
  by (rule race_ok_repo [OF assms cancel_step get_run_kept known_transition]) (use assms in \<open>simp_all add: race_ok_def\<close>)

lemma race_step_ok: "race_step p x y \<Longrightarrow> race_ok p x \<Longrightarrow> race_ok p y"
proof (induction rule: race_step.induct)
  case (create d u w tb tt ds ri a now e r C)
  have step: "repo_step d e" by (rule repo_step.create_run [OF create.hyps])
  have r: "run_id r = next_run d" "next_run e = Suc (next_run d)" "(run_id r, Some p) \<in> set (links e)" "runs e = runs d @ [r]" "run_status r = ''pending''"
    using create.hyps by (auto simp: create_run_def Let_def links_def)
  have p: "get_run e p \<noteq> None" using create.prems r(4) by (auto simp: race_ok_def get_run_mem)
  have "known_statuses e" using create.prems r(4,5) by (auto simp: race_ok_def known_statuses_def ACTIVE_RUN_STATUSES_def)
  from race_ok_repo [OF create.prems step p this] show ?case using r by (simp add: race_ok_def linked_def)
next
  case (confirm d k C)
  have "C = Idle"
  proof (rule ccontr)
    assume "C \<noteq> Idle"
    then have "status_of d p = Some ''cancelled''" using confirm.prems by (simp add: race_ok_def)
    then show False using confirm.hyps by (auto simp: run_active_def ACTIVE_RUN_STATUSES_def)
  qed
  with confirm.prems show ?case by (simp add: race_ok_def)
next
  case (withdraw d k C fs)
  then have "k < next_run d" by (simp add: race_ok_def linked_def)
  with race_ok_cancel [OF withdraw.prems, of k fs] cancel_ends show ?case by (simp add: race_ok_def)
next
  case (mark d fs e S)
  have e: "e = fst (transition_run d p ''cancelled'' None fs)" using mark.hyps by simp
  have won: "snd (transition_run d p ''cancelled'' None fs)" using mark.hyps by simp
  have ok: "db_ok d" using mark.prems by (simp add: race_ok_def)
  obtain r where r: "get_run d p = Some r" "transition_guard None r" using won transition_won [OF ok] by blast
  have "status_of e p = Some ''cancelled''" unfolding e status_of_transition using r by simp
  with race_ok_cancel [OF mark.prems, of p fs, folded e] show ?case by (cases S) (simp_all add: race_ok_def)
next
  case (read d S)
  have "ended d k \<or> k \<in> set (active_children d p)" if l: "linked p d k" for k
  proof (cases "(k, Some p) \<in> set (links d) \<and> get_run d k \<noteq> None")
    case True
    then obtain r where r: "r \<in> set (runs d)" "run_id r = k" "parent_run_id r = Some p" by (auto simp: links_def)
    have ok: "db_ok d" "known_statuses d" using read.prems by (simp_all add: race_ok_def)
    have g: "get_run d k = Some r" using find_key_distinct [of run_id "runs d" r] ok(1) r by (simp add: get_run_def db_ok_def)
    show ?thesis
    proof (cases "run_status r \<in> ACTIVE_RUN_STATUSES")
      case True
      then show ?thesis using r by (auto simp: active_children_def list_children_def)
    next
      case False
      then show ?thesis using ok(2) r(1) g l by (auto simp: ended_def known_statuses_def status_of_def linked_def)
    qed
  next
    case False
    then show ?thesis using l by (auto simp: ended_def linked_def status_of_def)
  qed
  with read.prems show ?case by (cases S) (simp_all add: race_ok_def)
next
  case (sweep d S c cs fs)
  let ?e = "fst (transition_run d c ''cancelled'' None fs)"
  have "starter_ok p ?e (Sweeping (c # cs)) S" and rest: "race_ok p (?e, S, Sweeping (c # cs))"
    using race_ok_cancel [OF sweep, of c fs] by (simp_all add: race_ok_def)
  moreover have "ended ?e c" if "linked p ?e c" using cancel_ends [of c d fs] that by (simp add: linked_def transition_run_def Let_def)
  ultimately have "starter_ok p ?e (Sweeping cs) S" by (cases S) auto
  then show ?case using rest by (simp add: race_ok_def)
next
  case (swept d S)
  then show ?case by (cases S) (simp_all add: race_ok_def)
next
  case (other d e S C)
  show ?case by (rule race_ok_repo [OF other.prems other.hyps])
qed

lemma race_path_ok: "(race_step p)\<^sup>*\<^sup>* x y \<Longrightarrow> race_ok p x \<Longrightarrow> race_ok p y"
  by (induction rule: rtranclp_induct) (use race_step_ok in blast)+

lemma returned_stays: "(race_step p)\<^sup>*\<^sup>* x y \<Longrightarrow> fst (snd x) = Returned k \<Longrightarrow> fst (snd y) = Returned k"
  by (induction rule: rtranclp_induct) (auto elim: race_step.cases)

lemma ended_inactive: "ended d k \<Longrightarrow> \<not> run_active d k"
  by (auto simp: ended_def run_active_def dest: active_not_terminal)

section \<open>The operations as steps\<close>

lemma cancel_active_run_race:
  assumes "race_ok p (pdb s, S, Idle)" and "cancel_active_run env s p = (t, True)"
  shows "(race_step p)\<^sup>*\<^sup>* (pdb s, S, Idle) (pdb t, S, Marked)"
proof -
  let ?t = "transition_run (pdb s) p ''cancelled'' None [FinishedAt (Some (utc_now env))]"
  let ?d = "finalise_open_step_results (fst ?t) p ''Cancelled by the operator'' (utc_now env)"
  have won: "snd ?t" using assms(2) by (auto simp: cancel_active_run_def Let_def case_prod_unfold split: if_splits)
  then have "?t = (fst ?t, True)" by (simp add: prod_eq_iff)
  then have mark: "race_step p (pdb s, S, Idle) (fst ?t, S, Marked)" by (rule race_step.mark)
  have ok: "race_ok p (fst ?t, S, Marked)" using race_step_ok [OF mark assms(1)] .
  have g: "get_run ?d p \<noteq> None" and k: "known_statuses ?d"
    using ok by (simp_all add: race_ok_def get_run_def known_statuses_def finalise_open_step_results_def)
  have fin: "race_step p (fst ?t, S, Marked) (?d, S, Marked)" by (rule race_step.other [OF repo_step.finalise g k])
  have "\<exists>fs. pdb t = ?d \<or> pdb t = fst (transition_run ?d p ''cancelled'' (Some {''cancelled''}) fs)"
    using assms(2) won by (auto simp: cancel_active_run_def Let_def case_prod_unfold split: if_splits)
  then obtain fs where t: "pdb t = ?d \<or> pdb t = fst (transition_run ?d p ''cancelled'' (Some {''cancelled''}) fs)" by blast
  have noted: "race_step p (?d, S, Marked) (fst (transition_run ?d p ''cancelled'' (Some {''cancelled''}) fs), S, Marked)"
    by (rule race_step.other [OF repo_step.transition get_run_kept [OF g] known_transition [OF k]]) (simp add: from_ok_def)
  have path: "(race_step p)\<^sup>*\<^sup>* (pdb s, S, Idle) (?d, S, Marked)"
    by (rule rtranclp.rtrancl_into_rtrancl [of "race_step p", OF r_into_rtranclp [of "race_step p", OF mark] fin])
  from t show ?thesis
  proof
    assume "pdb t = ?d"
    then show ?thesis using path by simp
  next
    assume t2: "pdb t = fst (transition_run ?d p ''cancelled'' (Some {''cancelled''}) fs)"
    show ?thesis unfolding t2 by (rule rtranclp.rtrancl_into_rtrancl [of "race_step p", OF path noted])
  qed
qed

lemma start_child_run_race:
  assumes "race_ok (run_id parent) (pdb s, Starting, Idle)"
    and "\<forall>x k. (race_step (run_id parent))\<^sup>*\<^sup>* (pdb x, Created k, Idle) (pdb (meanwhile env x), Created k, Idle)"
    and "start_child_run env s parent w inputs = (t, Inr child)"
  shows "(race_step (run_id parent))\<^sup>*\<^sup>* (pdb s, Starting, Idle) (pdb t, Returned (run_id child), Idle)"
proof -
  let ?p = "run_id parent"
  from assms(3) obtain f an res s1 where
    cd: "create_and_dispatch_run env s f (triggered_by_id parent) ''workflow'' [] res None (Some ?p) (Some an) None = (s1, Inr child)"
    and t: "t = meanwhile env s1" and act: "parent_is_active t ?p"
    by (auto simp: start_child_run_def Let_def split: sum.splits prod.splits if_splits)
  obtain d r where c: "create_run (pdb s) (new_uuid env) (wf_id f) (triggered_by_id parent) ''workflow'' [] res (Some ?p) (Some an) (utc_now env) = (d, r)"
    by fastforce
  have new: "race_step ?p (pdb s, Starting, Idle) (d, Created (run_id r), Idle)" by (rule race_step.create [OF c])
  have ok: "race_ok ?p (d, Created (run_id r), Idle)" using race_step_ok [OF new assms(1)] .
  from cd obtain h where s1: "pdb s1 = record_hatchet_run_id d (run_id r) h"
    by (auto simp: create_and_dispatch_run_def c Let_def label_run_def dispatch_failed_def record_success_def split: sum.splits option.splits if_splits)
  have id: "run_id child = run_id r"
    using dispatched_row(5) [OF _ cd] assms(1) c by (auto simp: race_ok_def create_run_def Let_def)
  have "map run_id (runs (pdb s1)) = map run_id (runs d)" unfolding s1 by (simp add: record_hatchet_run_id_def)
  then have "run_id ` set (runs (pdb s1)) = run_id ` set (runs d)" by (metis set_map)
  then have "get_run (pdb s1) ?p \<noteq> None" using ok by (simp add: get_run_mem race_ok_def)
  moreover have "known_statuses (pdb s1)"
    using ok unfolding s1 by (auto simp: race_ok_def record_hatchet_run_id_def known_statuses_def)
  ultimately have rec: "race_step ?p (d, Created (run_id r), Idle) (pdb s1, Created (run_id r), Idle)"
    unfolding s1 by (intro race_step.other repo_step.record_id)
  have "(race_step ?p)\<^sup>*\<^sup>* (pdb s1, Created (run_id r), Idle) (pdb t, Created (run_id r), Idle)" using assms(2) t by blast
  moreover have "race_step ?p (pdb t, Created (run_id r), Idle) (pdb t, Returned (run_id r), Idle)"
    by (rule race_step.confirm) (use act in \<open>simp add: parent_is_active_run\<close>)
  ultimately show ?thesis unfolding id
    using new rec by (meson converse_rtranclp_into_rtranclp rtranclp.rtrancl_into_rtrancl)
qed

section \<open>Properties\<close>


text \<open>The child started by the running run 1 of the example, after that run is cancelled and its children swept.\<close>

definition demo_swept :: db where
  "demo_swept = fst (transition_run (fst (transition_run (pdb (fst demo_child)) 1 ''cancelled'' None [])) 4 ''cancelled'' None [])"


end
