(* ===== verification/Fan_Out_Child.thy ===== *)
theory Fan_Out_Child
  imports Platform Secret_Fields
begin

text \<open>
  A fan-out child: the walk over the child branch (\<open>services/execution/step_runner/subgraph.py\<close>), the progress it
  reports on its device-group row (\<open>services/execution/step_runner/progress.py\<close>) and the task around it
  (\<open>hatchet/workflows/device_group_execution.py\<close>). The walk reuses the per-step primitives of \<open>Step_Runner\<close> and
  writes no step rows. Exceptions are those a Python \<open>except Exception\<close> catches.

  As in the main walk the steps of a wave run one after the other. A progress write that fails is swallowed by the
  code; in the model it succeeds. Serialisation by pydantic and the secrets a child has decrypted by its end are
  arguments.
\<close>

section \<open>Progress\<close>

record step_error =
  se_message :: string
  se_category :: string
  se_error_id :: string
  se_failure :: "failure_info option"

record subwalk =
  sw_db :: db
  sw_outcomes :: outcome_table
  sw_errors :: "(string, step_error) dict"
  sw_blocked :: "string set"
  sw_states :: "(string, string) dict"

text \<open>The sink of a child is named by its run and its child index.\<close>

definition overall_status :: "(string, string) dict \<Rightarrow> string" where
  "overall_status states =
     (let vs = set (map snd states) in
      if ''failed'' \<in> vs then ''failed'' else if ''partial'' \<in> vs then ''partial'' else ''success'')"

definition sink_set :: "nat \<times> nat \<Rightarrow> string \<Rightarrow> string \<Rightarrow> subwalk \<Rightarrow> subwalk" where
  "sink_set sink n st w =
     w\<lparr>sw_states := AList.update n st (sw_states w),
       sw_db := set_device_group_node_state (sw_db w) (fst sink) (snd sink) n st\<rparr>"

definition report_node_started :: "(nat \<times> nat) option \<Rightarrow> string \<Rightarrow> subwalk \<Rightarrow> subwalk" where
  "report_node_started sink n w = (case sink of None \<Rightarrow> w | Some k \<Rightarrow> sink_set k n ''running'' w)"

definition report_node_finished :: "(nat \<times> nat) option \<Rightarrow> string \<Rightarrow> string \<Rightarrow> subwalk \<Rightarrow> subwalk" where
  "report_node_finished sink n st w = (case sink of None \<Rightarrow> w | Some k \<Rightarrow> sink_set k n st w)"

section \<open>One node\<close>

definition subgraph_node_blocked :: "runner_env \<Rightarrow> canvas_edge list \<Rightarrow> canvas_node \<Rightarrow> subwalk \<Rightarrow> bool res" where
  "subgraph_node_blocked env es n w =
     res_bind (step_requires_devices env (step_type_of n)) (\<lambda>needs.
       Inr (needs \<and> blocked_by_upstream_failure (nid n) es (sw_outcomes w) (sw_blocked w)))"

definition execute_one_subgraph_node :: "runner_env \<Rightarrow> run_row \<Rightarrow> workflow_row \<Rightarrow> canvas_edge list \<Rightarrow> (nat \<times> nat) option \<Rightarrow>
    canvas_node \<Rightarrow> subwalk \<Rightarrow> subwalk \<times> unit res" where
  "execute_one_subgraph_node env run flow es sink n w =
     (let w1 = report_node_started sink (nid n) w in
      case assemble_input_context env run flow (nid n) es (sw_outcomes w1) of
        Inl e \<Rightarrow> (w1, Inl e)
      | Inr c \<Rightarrow>
          (let (s, r) = execute_step env (step_type_of n) (data_plugin_config (node_data n)) c run (nid n) (sw_db w1);
               w2 = w1\<lparr>sw_db := s\<rparr>
           in case r of
                Inl e \<Rightarrow> (w2, Inl e)
              | Inr raw \<Rightarrow>
                  (let outcomes = seed_run_inputs run raw;
                       w3 = w2\<lparr>sw_outcomes := store_step_outcomes (sw_outcomes w2) (nid n) outcomes\<rparr>
                   in (report_node_finished sink (nid n) (derive_step_result_status outcomes) w3, Inr ()))))"

definition failure_outcome :: "workflow_context \<Rightarrow> step_outcome" where
  "failure_outcome c = \<lparr>outcome_name = ''failure'', outcome_context = c, outcome_summary = None, outcome_failure = None\<rparr>"

definition record_subgraph_node_error :: "runner_env \<Rightarrow> workflow_context \<Rightarrow> string \<Rightarrow> py_exn \<Rightarrow> subwalk \<Rightarrow> subwalk" where
  "record_subgraph_node_error env init n_id e w =
     (let (category, message) = classify_step_exception e in
      w\<lparr>sw_errors := AList.update n_id \<lparr>se_message = take 4000 (env_scrub env message), se_category = category,
            se_error_id = env_error_uuid env n_id, se_failure = failure_for_step_exception env e category\<rparr> (sw_errors w),
        sw_outcomes := store_step_outcomes (sw_outcomes w) n_id [failure_outcome init]\<rparr>)"

definition run_one_subgraph_node :: "runner_env \<Rightarrow> run_row \<Rightarrow> workflow_row \<Rightarrow> canvas_edge list \<Rightarrow> (nat \<times> nat) option \<Rightarrow>
    workflow_context \<Rightarrow> canvas_node \<Rightarrow> subwalk \<Rightarrow> subwalk \<times> unit res" where
  "run_one_subgraph_node env run flow es sink init n w =
     (case subgraph_node_blocked env es n w of
        Inl e \<Rightarrow> (w, Inl e)
      | Inr True \<Rightarrow> (report_node_finished sink (nid n) ''skipped'' (w\<lparr>sw_blocked := insert (nid n) (sw_blocked w)\<rparr>), Inr ())
      | Inr False \<Rightarrow>
          (case execute_one_subgraph_node env run flow es sink n w of
             (w1, Inr _) \<Rightarrow> (w1, Inr ())
           | (w1, Inl e) \<Rightarrow> (record_subgraph_node_error env init (nid n) e (report_node_finished sink (nid n) ''failed'' w1), Inr ())))"

section \<open>The walk\<close>

text \<open>A wave: every node runs, the first exception of the block check is raised.\<close>

fun gather_subgraph :: "runner_env \<Rightarrow> run_row \<Rightarrow> workflow_row \<Rightarrow> canvas_edge list \<Rightarrow> (nat \<times> nat) option \<Rightarrow>
    workflow_context \<Rightarrow> canvas_node list \<Rightarrow> subwalk \<Rightarrow> subwalk \<times> unit res" where
  "gather_subgraph env run flow es sink init [] w = (w, Inr ())"
| "gather_subgraph env run flow es sink init (n # ns) w =
     (let (w1, r) = run_one_subgraph_node env run flow es sink init n w;
          (w2, rs) = gather_subgraph env run flow es sink init ns w1
      in (w2, res_bind r (\<lambda>_. rs)))"

definition skip_subgraph_wave :: "(nat \<times> nat) option \<Rightarrow> canvas_node list \<Rightarrow> subwalk \<Rightarrow> subwalk" where
  "skip_subgraph_wave sink wave w = foldl (\<lambda>w n. report_node_finished sink (nid n) ''skipped'' w) w wave"

fun subgraph_waves :: "runner_env \<Rightarrow> run_row \<Rightarrow> workflow_row \<Rightarrow> canvas_edge list \<Rightarrow> (nat \<times> nat) option \<Rightarrow>
    workflow_context \<Rightarrow> canvas_node list list \<Rightarrow> bool \<Rightarrow> subwalk \<Rightarrow> subwalk \<times> unit res" where
  "subgraph_waves env run flow es sink init [] cancelled w = (w, Inr ())"
| "subgraph_waves env run flow es sink init (wave # waves) cancelled w =
     (case (if \<not> cancelled \<and> sw_errors w = [] then cancel_requested (sw_db w) (run_id run) else Inr cancelled) of
        Inl e \<Rightarrow> (w, Inl e)
      | Inr stop \<Rightarrow>
          if sw_errors w \<noteq> [] \<or> stop
          then subgraph_waves env run flow es sink init waves stop (skip_subgraph_wave sink wave w)
          else (case gather_subgraph env run flow es sink init wave w of
                  (w1, Inl e) \<Rightarrow> (w1, Inl e)
                | (w1, Inr _) \<Rightarrow> subgraph_waves env run flow es sink init waves stop w1))"

definition start_subwalk :: "db \<Rightarrow> string \<Rightarrow> workflow_context \<Rightarrow> subwalk" where
  "start_subwalk s inventory init =
     \<lparr>sw_db = s, sw_outcomes = [(inventory, [(''success'', init)])], sw_errors = [], sw_blocked = {}, sw_states = []\<rparr>"

definition run_subgraph :: "runner_env \<Rightarrow> run_row \<Rightarrow> workflow_row \<Rightarrow> workflow_context \<Rightarrow> string \<Rightarrow> string set \<Rightarrow>
    (nat \<times> nat) option \<Rightarrow> db \<Rightarrow> subwalk \<times> unit res" where
  "run_subgraph env run flow init inventory allowed sink s =
     (let w = start_subwalk s inventory init in
      case load_execution_graph (canvas_nodes flow) (canvas_edges flow) of
        Inl e \<Rightarrow> (w, Inl e)
      | Inr (nodes, es) \<Rightarrow>
     (case build_execution_plan env nodes es of
        Inl e \<Rightarrow> (w, Inl e)
      | Inr ordered \<Rightarrow>
     (case topological_generations (filter (\<lambda>n. nid n \<in> allowed) ordered) es of
        Inl e \<Rightarrow> (w, Inl e)
      | Inr gens \<Rightarrow> subgraph_waves env run flow es sink init gens False w)))"

section \<open>The task\<close>

record device_group_input =
  gi_parent_run_id :: nat
  gi_context_json :: string
  gi_start_node_id :: string
  gi_child_index :: nat
  gi_join_node_id :: "string option"

text \<open>\<open>model_dump(mode="json")\<close>, \<open>model_validate\<close> and their text forms; the secrets known at the end of a child, by
  child index; the id of a group error.\<close>

record fan_env =
  fe_dump :: "workflow_context \<Rightarrow> json"
  fe_validate :: "json \<Rightarrow> workflow_context res"
  fe_dump_json :: "workflow_context \<Rightarrow> string"
  fe_validate_json :: "string \<Rightarrow> workflow_context res"
  fe_child_secrets :: "nat \<Rightarrow> string list option"
  fe_group_error_id :: "nat \<Rightarrow> string"

text \<open>What a child returns: the reserved entry \<open>__step_errors__\<close> and the serialised outcomes per node.\<close>

record child_output =
  co_errors :: "(string, step_error) dict"
  co_outcomes :: "(string, (string, json) dict) dict"

definition scrub_message :: "string list option \<Rightarrow> string \<Rightarrow> string" where
  "scrub_message registry m = (case scrub_known_secrets registry (JStr m) of JStr t \<Rightarrow> t | _ \<Rightarrow> m)"

definition child_result :: "fan_env \<Rightarrow> device_group_input \<Rightarrow> subwalk \<Rightarrow> child_output" where
  "child_result fe inp w =
     (let known = fe_child_secrets fe (gi_child_index inp) in
      \<lparr>co_errors = map (\<lambda>(n, x). (n, x\<lparr>se_message := scrub_message known (se_message x)\<rparr>)) (sw_errors w),
       co_outcomes = map (\<lambda>(n, os). (n, map (\<lambda>(name, c). (name, scrub_known_secrets known (fe_dump fe c))) os))
                       (filter (\<lambda>(n, os). n \<noteq> gi_start_node_id inp) (sw_outcomes w))\<rparr>)"

definition run_device_group_inner :: "fan_env \<Rightarrow> runner_env \<Rightarrow> platform \<Rightarrow> device_group_input \<Rightarrow> platform \<times> child_output res" where
  "run_device_group_inner fe env s inp =
     (case get_run (pdb s) (gi_parent_run_id inp) of
        None \<Rightarrow> (s, Inl (ValueError (''DeviceGroupExecution: WorkflowRun '' @ nat_str (gi_parent_run_id inp) @ '' not found'')))
      | Some run \<Rightarrow>
     (case get_workflow s (run_workflow_id run) of
        None \<Rightarrow> (s, Inl (ValueError (''DeviceGroupExecution: Workflow '' @ nat_str (run_workflow_id run) @ '' not found'')))
      | Some f \<Rightarrow>
     (case fe_validate_json fe (gi_context_json inp) of
        Inl e \<Rightarrow> (s, Inl e)
      | Inr init \<Rightarrow>
     (case load_execution_graph (canvas_nodes f) (canvas_edges f) of
        Inl e \<Rightarrow> (s, Inl e)
      | Inr (nodes, es) \<Rightarrow>
          (let allowed = child_node_ids (gi_start_node_id inp) (gi_join_node_id inp) nodes es;
               (w, r) = run_subgraph env run (workflow_row.truncate f) init (gi_start_node_id inp) allowed
                          (Some (gi_parent_run_id inp, gi_child_index inp)) (pdb s)
           in case r of
                Inl e \<Rightarrow> (s\<lparr>pdb := sw_db w\<rparr>, Inl e)
              | Inr _ \<Rightarrow>
                  (s\<lparr>pdb := finish_device_group (sw_db w) (gi_parent_run_id inp) (gi_child_index inp)
                        (if sw_errors w \<noteq> [] then ''failed'' else overall_status (sw_states w)) None (env_now env)\<rparr>,
                   Inr (child_result fe inp w)))))))"

definition run_device_group :: "fan_env \<Rightarrow> runner_env \<Rightarrow> platform \<Rightarrow> device_group_input \<Rightarrow> platform \<times> child_output res" where
  "run_device_group fe env s inp =
     (let s1 = s\<lparr>pdb := mark_device_group_started (pdb s) (gi_parent_run_id inp) (gi_child_index inp) (env_now env)\<rparr> in
      case run_device_group_inner fe env s1 inp of
        (s2, Inr r) \<Rightarrow> (s2, Inr r)
      | (s2, Inl e) \<Rightarrow>
          (s2\<lparr>pdb := finish_device_group (pdb s2) (gi_parent_run_id inp) (gi_child_index inp) ''failed''
                (Some (''The device group failed ('' @ exn_class e @ ''); see the worker log, error id '' @
                       fe_group_error_id fe (gi_child_index inp))) (env_now env)\<rparr>, Inl e))"

end
