(* ===== verification/Fan_Out_Dispatch.thy ===== *)
theory Fan_Out_Dispatch
  imports Fan_Out_Child Run_Lifecycle
begin

text \<open>
  The fan-out parent, first half: the device groups and their dispatch
  (\<open>hatchet/workflows/workflow_run/fan_out_dispatch.py\<close>), the approval gate between batches
  (\<open>batch_approval.py\<close>) and the merge of what the children return (\<open>aggregation.py\<close>).

  The engine is an argument: it may fail a child before it starts, lose or pass on what it returned, and wake or
  cancel a wait; while it waits others commit, which is the state the wait returns. Children of one batch run one
  after the other in the model; the semaphore that bounds them has no other effect. A Python set of node ids is
  walked in canvas order.
\<close>

record orchestration =
  oc_service :: service_env
  oc_runner :: runner_env
  oc_fan :: fan_env
  oc_lost :: "nat \<Rightarrow> py_exn option"
  oc_reply :: "nat \<Rightarrow> child_output \<Rightarrow> child_output res"
  oc_wait :: "string \<Rightarrow> platform \<Rightarrow> platform \<times> unit res"
  oc_parent_secrets :: "string list option"

section \<open>Device groups\<close>

record dispatch_plan =
  dp_groups :: "string list list"
  dp_max_concurrency :: int
  dp_approval_enabled :: bool
  dp_approval_cfg :: jdict
  dp_device_ids :: "string list"
  dp_all_devices :: "(string, device_context) dict"

text \<open>Python's \<open>int(value)\<close> on a configuration value, and \<open>[xs[i:i+n] for i in range(0, len(xs), n)]\<close>.\<close>

definition config_int :: "json \<Rightarrow> int res" where
  "config_int v = (case v of
     JInt i \<Rightarrow> Inr i | JBool b \<Rightarrow> Inr (if b then 1 else 0) | JFloat q \<Rightarrow> Inr (if 0 \<le> q then \<lfloor>q\<rfloor> else \<lceil>q\<rceil>)
   | JStr t \<Rightarrow> (case py_int t of None \<Rightarrow> Inl (ValueError ''invalid literal for int()'') | Some i \<Rightarrow> Inr i)
   | _ \<Rightarrow> Inl (OtherError ''TypeError''))"

definition slices :: "nat \<Rightarrow> 'a list \<Rightarrow> 'a list list" where
  "slices n xs = map (\<lambda>k. take n (drop (k * n) xs)) [0..<(length xs + n - 1) div n]"

definition approval_config :: "jdict \<Rightarrow> jdict res" where
  "approval_config cfg =
     (let v = dget cfg ''approval'' JNull in
      if \<not> truthy v then Inr [] else case v of JObj d \<Rightarrow> Inr d | _ \<Rightarrow> Inl (OtherError ''AttributeError''))"

definition parse_fan_out_dispatch :: "fan_out_signal \<Rightarrow> dispatch_plan res" where
  "parse_fan_out_dispatch sig =
     (let cfg = fan_out_config sig; all = devices (inventory_outcome sig); ids = map fst all in
      res_bind (config_int (dget cfg ''chunk_size'' (JInt 1))) (\<lambda>chunk.
      res_bind (config_int (dget cfg ''max_concurrency'' (JInt 0))) (\<lambda>conc.
      res_bind (approval_config cfg) (\<lambda>approval.
        Inr \<lparr>dp_groups = (if dget cfg ''mode'' (JStr ''per_device'') = JStr ''chunked'' then slices (nat (max 1 chunk)) ids
                          else map (\<lambda>d. [d]) ids),
             dp_max_concurrency = max 0 conc, dp_approval_enabled = truthy (dget approval ''enabled'' JNull),
             dp_approval_cfg = approval, dp_device_ids = ids, dp_all_devices = all\<rparr>))))"

text \<open>Every id of a group is a key of the device dictionary.\<close>

definition pick :: "('k, 'v) dict \<Rightarrow> 'k list \<Rightarrow> ('k, 'v) dict" where
  "pick d ks = List.map_filter (\<lambda>k. map_option (\<lambda>v. (k, v)) (map_of d k)) ks"

definition group_device_names :: "dispatch_plan \<Rightarrow> string list \<Rightarrow> string list" where
  "group_device_names plan ids = map (\<lambda>(k, v). if dev_name v = [] then k else dev_name v) (pick (dp_all_devices plan) ids)"

definition precreate_device_groups :: "platform \<Rightarrow> nat \<Rightarrow> dispatch_plan \<Rightarrow> platform" where
  "precreate_device_groups s i plan =
     (case create_device_groups (pdb s) i (enumerate 0 (map (group_device_names plan) (dp_groups plan))) of
        Inl _ \<Rightarrow> s
      | Inr d \<Rightarrow> s\<lparr>pdb := d\<rparr>)"

section \<open>Dispatch\<close>

definition build_child_inputs :: "fan_env \<Rightarrow> fan_out_signal \<Rightarrow> nat \<Rightarrow> (string, device_context) dict \<Rightarrow> string list list \<Rightarrow>
    nat \<Rightarrow> device_group_input list" where
  "build_child_inputs fe sig i all group_list offset =
     map (\<lambda>(k, ids). \<lparr>gi_parent_run_id = i,
            gi_context_json = fe_dump_json fe ((inventory_outcome sig)\<lparr>devices := pick all ids\<rparr>),
            gi_start_node_id = inventory_node_id sig, gi_child_index = k, gi_join_node_id = join_node_id sig\<rparr>)
       (enumerate offset group_list)"

text \<open>\<open>child_workflow.aio_run\<close>: the engine starts the child and delivers its result.\<close>

definition run_child :: "orchestration \<Rightarrow> platform \<Rightarrow> device_group_input \<Rightarrow> platform \<times> child_output res" where
  "run_child oc s inp =
     (case oc_lost oc (gi_child_index inp) of
        Some e \<Rightarrow> (s, Inl e)
      | None \<Rightarrow> (case run_device_group (oc_fan oc) (oc_runner oc) s inp of
                  (t, Inl e) \<Rightarrow> (t, Inl e)
                | (t, Inr r) \<Rightarrow> (t, oc_reply oc (gi_child_index inp) r)))"

fun gather_children :: "orchestration \<Rightarrow> device_group_input list \<Rightarrow> platform \<Rightarrow> platform \<times> child_output res list" where
  "gather_children oc [] s = (s, [])"
| "gather_children oc (inp # inps) s =
     (let (s1, r) = run_child oc s inp; (s2, rs) = gather_children oc inps s1 in (s2, r # rs))"

definition run_groups :: "orchestration \<Rightarrow> fan_out_signal \<Rightarrow> nat \<Rightarrow> (string, device_context) dict \<Rightarrow> string list list \<Rightarrow> nat \<Rightarrow>
    platform \<Rightarrow> platform \<times> child_output res list" where
  "run_groups oc sig i all group_list offset s = gather_children oc (build_child_inputs (oc_fan oc) sig i all group_list offset) s"

definition tally_batch_failures :: "string list list \<Rightarrow> child_output res list \<Rightarrow> nat \<times> nat" where
  "tally_batch_failures batch results =
     (sum_list (map length batch), sum_list (map (\<lambda>(g, r). if isl r then length g else 0) (zip batch results)))"

section \<open>Merging the children\<close>

definition derive_child_node_status :: "(string, workflow_context list) dict \<Rightarrow> bool \<Rightarrow> string" where
  "derive_child_node_status outs has_any_failure =
     (let count = (\<lambda>cs. sum_list (map (length \<circ> devices) cs));
          bad = count (dget outs ''failure'' []);
          ok = sum_list (map (\<lambda>(name, cs). if name \<noteq> ''failure'' then count cs else 0) outs)
      in if has_any_failure \<or> bad > 0 then (if ok > 0 then ''partial'' else ''failed'') else ''success'')"

record collected =
  cl_nodes :: "(string, (string, workflow_context list) dict) dict"
  cl_errors :: "(string, step_error) dict"
  cl_failure :: bool

definition setdefault :: "('k, 'v) dict \<Rightarrow> 'k \<times> 'v \<Rightarrow> ('k, 'v) dict" where
  "setdefault d kv = (if map_of d (fst kv) = None then d @ [kv] else d)"

definition add_outcome :: "fan_env \<Rightarrow> string \<Rightarrow> collected \<Rightarrow> string \<times> json \<Rightarrow> collected res" where
  "add_outcome fe n acc kv =
     res_bind (fe_validate fe (snd kv)) (\<lambda>c.
       let old = dget (cl_nodes acc) n [] in
       Inr (acc\<lparr>cl_nodes := AList.update n (AList.update (fst kv) (dget old (fst kv) [] @ [c]) old) (cl_nodes acc)\<rparr>))"

definition add_node :: "fan_env \<Rightarrow> string list \<Rightarrow> collected \<Rightarrow> string \<times> (string, json) dict \<Rightarrow> collected res" where
  "add_node fe ids acc kv = (if fst kv \<in> set ids then res_fold (add_outcome fe (fst kv)) acc (snd kv) else Inr acc)"

definition add_child :: "fan_env \<Rightarrow> string list \<Rightarrow> collected \<Rightarrow> child_output res \<Rightarrow> collected res" where
  "add_child fe ids acc r =
     (case r of
        Inl _ \<Rightarrow> Inr (acc\<lparr>cl_failure := True\<rparr>)
      | Inr out \<Rightarrow> res_fold (add_node fe ids) (acc\<lparr>cl_errors := foldl setdefault (cl_errors acc) (co_errors out)\<rparr>) (co_outcomes out))"

definition collect_children :: "fan_env \<Rightarrow> string list \<Rightarrow> child_output res list \<Rightarrow> collected res" where
  "collect_children fe ids results =
     res_fold (add_child fe ids) \<lparr>cl_nodes = map (\<lambda>n. (n, [])) ids, cl_errors = [], cl_failure = False\<rparr> results"

definition merge_outcome :: "string \<Rightarrow> workflow_context list \<Rightarrow> workflow_context res" where
  "merge_outcome n cs = (if length cs > 1 then merge_fan_out_contexts (Some n) cs else case cs of c # _ \<Rightarrow> Inr c | [] \<Rightarrow> Inl IndexError)"

fun merge_outcomes :: "string \<Rightarrow> (string, workflow_context list) dict \<Rightarrow> (string, workflow_context) dict res" where
  "merge_outcomes n [] = Inr []"
| "merge_outcomes n ((name, cs) # outs) =
     res_bind (merge_outcome n cs) (\<lambda>c. res_bind (merge_outcomes n outs) (\<lambda>ms. Inr ((name, c) # ms)))"

definition node_values :: "orchestration \<Rightarrow> (string, workflow_context) dict \<Rightarrow> step_error option \<Rightarrow> step_values" where
  "node_values oc merged err =
     no_values\<lparr>v_output := Some (JObj [(''outcomes'', JObj (map (\<lambda>(name, c).
                  (name, redact_secrets_in_data (oc_parent_secrets oc) (fe_dump (oc_fan oc) c))) merged))]),
       v_error_message := map_option se_message err, v_error_category := map_option se_category err,
       v_error_id := map_option se_error_id err, v_failure := (case err of None \<Rightarrow> None | Some x \<Rightarrow> se_failure x),
       v_started_at := Some (env_now (oc_runner oc)), v_finished_at := Some (env_now (oc_runner oc))\<rparr>"

text \<open>The loop over the child-branch nodes: the database, the merged outcomes so far, and whether a row failed.\<close>

fun persist_nodes :: "orchestration \<Rightarrow> bool \<Rightarrow> collected \<Rightarrow> (string, nat) dict \<Rightarrow> string list \<Rightarrow> db \<Rightarrow> outcome_table \<Rightarrow> bool \<Rightarrow>
    db \<times> (outcome_table \<times> bool) res" where
  "persist_nodes oc final cl rows [] d merged failed = (d, Inr (merged, failed))"
| "persist_nodes oc final cl rows (n # ns) d merged failed =
     (let outs = dget (cl_nodes cl) n [] in
      if outs = []
      then (case map_of rows n of
              Some x \<Rightarrow>
                if final then (case persist_step_result d x ''skipped'' (no_values\<lparr>v_finished_at := Some (env_now (oc_runner oc))\<rparr>) of
                    Inl e \<Rightarrow> (d, Inl e)
                  | Inr d' \<Rightarrow> persist_nodes oc final cl rows ns d' merged failed)
                else persist_nodes oc final cl rows ns d merged failed
            | None \<Rightarrow> persist_nodes oc final cl rows ns d merged failed)
      else (case merge_outcomes n outs of
              Inl e \<Rightarrow> (d, Inl e)
            | Inr ms \<Rightarrow>
                (let merged' = AList.update n ms merged in
                 case map_of rows n of
                   None \<Rightarrow> persist_nodes oc final cl rows ns d merged' failed
                 | Some x \<Rightarrow>
                     (let st = derive_child_node_status outs (cl_failure cl) in
                      case persist_step_result d x st (node_values oc ms (map_of (cl_errors cl) n)) of
                        Inl e \<Rightarrow> (d, Inl e)
                      | Inr d' \<Rightarrow> persist_nodes oc final cl rows ns d' merged' (failed \<or> st = ''failed'')))))"

definition child_branch :: "fan_out_signal \<Rightarrow> canvas_node list \<Rightarrow> canvas_edge list \<Rightarrow> string list" where
  "child_branch sig nodes es =
     filter (\<lambda>i. i \<in> child_node_ids (inventory_node_id sig) (join_node_id sig) nodes es) (remdups (node_ids nodes))"

definition aggregate_and_persist :: "orchestration \<Rightarrow> nat \<Rightarrow> fan_out_signal \<Rightarrow> canvas_node list \<Rightarrow> canvas_edge list \<Rightarrow>
    child_output res list \<Rightarrow> bool \<Rightarrow> db \<Rightarrow> db \<times> (bool \<times> outcome_table) res" where
  "aggregate_and_persist oc i sig nodes es results final d =
     (let ids = child_branch sig nodes es;
          rows = dict_of (map (\<lambda>x. (sr_node_id x, sr_id x)) (get_step_results_for_run d i))
      in case collect_children (oc_fan oc) ids results of
           Inl e \<Rightarrow> (d, Inl e)
         | Inr cl \<Rightarrow>
             (case persist_nodes oc final cl rows ids d [] False of
                (d', Inl e) \<Rightarrow> (d', Inl e)
              | (d', Inr (merged, failed)) \<Rightarrow> (d', Inr (\<not> (cl_failure cl \<or> failed), merged))))"

end
