(* ===== verification/Fan_Out_Parent.thy ===== *)
theory Fan_Out_Parent
  imports Fan_Out_Dispatch
begin

text \<open>
  The workflow task (\<open>hatchet/workflows/workflow_run\<close>): preparation, the first phase, the dispatch of the children
  with its approval gates, the final merge with the steps after the join, and the net under all of it that leaves no
  run open. \<open>OtherError ''CancelledError''\<close> stands for \<open>asyncio.CancelledError\<close>.
\<close>

section \<open>Approval between batches\<close>

definition MAX_APPROVAL_STATE_DEVICE_NAMES :: nat where
  "MAX_APPROVAL_STATE_DEVICE_NAMES = 25"

definition build_approval_state :: "nat \<Rightarrow> nat \<Rightarrow> nat \<Rightarrow> nat \<Rightarrow> nat \<Rightarrow> string list \<Rightarrow> jdict" where
  "build_approval_state next_index batch_count devices_total completed failed names =
     [(''awaiting'', JBool True), (''next_batch_index'', JInt (int next_index)), (''total_batches'', JInt (int batch_count)),
      (''batches_completed'', JInt (int next_index)), (''devices_total'', JInt (int devices_total)),
      (''devices_completed'', JInt (int completed)), (''devices_failed'', JInt (int failed)),
      (''next_batch_device_names'', JList (map JStr (take MAX_APPROVAL_STATE_DEVICE_NAMES names))),
      (''auto_approve_remaining'', JBool False)]"

text \<open>Strings are the bytes of their UTF-8 encoding; the ellipsis has three.\<close>

definition format_approval_pause_message :: "nat \<Rightarrow> nat \<Rightarrow> nat \<Rightarrow> nat \<Rightarrow> string list \<Rightarrow> string" where
  "format_approval_pause_message next_index batch_count completed failed names =
     (let intro_text = (if next_index = 0 then ''Ready to run batch '' @ nat_str (next_index + 1) @ ''/'' @ nat_str batch_count @ ''.''
                    else ''Batch '' @ nat_str next_index @ ''/'' @ nat_str batch_count @ '' finished ('' @
                      int_str (int completed - int failed) @ '' device(s) ok, '' @ nat_str failed @ '' failed).'');
          preview = join '', '' (take 10 names) @ (if length names > 10 then '', '' @ [CHR 0xE2, CHR 0x80, CHR 0xA6] else [])
      in intro_text @ '' Waiting for approval to run batch '' @ nat_str (next_index + 1) @ '' ('' @ nat_str (length names) @
         '' device(s): '' @ preview @ ''). Click \"Run next batch\" to continue or Cancel to stop.'')"

definition batch_needs_approval_gate :: "nat \<Rightarrow> bool \<Rightarrow> bool \<Rightarrow> bool" where
  "batch_needs_approval_gate batch_index first_batch_auto auto_approve_remaining \<longleftrightarrow>
     \<not> auto_approve_remaining \<and> \<not> (batch_index = 0 \<and> first_batch_auto)"

definition device_names_for_groups :: "dispatch_plan \<Rightarrow> string list list \<Rightarrow> string list" where
  "device_names_for_groups plan batch = map (\<lambda>(k, v). dev_name v) (pick (dp_all_devices plan) (concat batch))"

definition approval_state_of :: "run_row \<Rightarrow> jdict" where
  "approval_state_of r = (case approval_state r of None \<Rightarrow> [] | Some d \<Rightarrow> d)"

definition wait_and_resume_batch_approval :: "orchestration \<Rightarrow> fan_out_signal \<Rightarrow> nat \<Rightarrow> string \<Rightarrow> nat \<Rightarrow> nat \<Rightarrow> nat \<Rightarrow> nat \<Rightarrow>
    string list \<Rightarrow> nat \<Rightarrow> platform \<Rightarrow> platform \<times> bool res" where
  "wait_and_resume_batch_approval oc sig i uuid batch_index batch_count completed failed names devices_total s =
     (case get_run (pdb s) i of
        None \<Rightarrow> (s, Inl (ValueError (''WorkflowRun '' @ nat_str i @ '' not found (approval gate)'')))
      | Some _ \<Rightarrow>
          (let s1 = s\<lparr>pdb := update_run_status (pdb s) i ''paused''
                 [CurrentNodeId (Some (inventory_node_id sig)),
                  DebugMessage (Some (format_approval_pause_message batch_index batch_count completed failed names)),
                  ApprovalState (Some (build_approval_state batch_index batch_count devices_total completed failed names))] False\<rparr>
           in case oc_wait oc (batch_approval_event_key uuid batch_index) s1 of
                (s2, Inl e) \<Rightarrow> (s2, Inl e)
              | (s2, Inr _) \<Rightarrow>
                 (case get_run (pdb s2) i of
                    None \<Rightarrow> (s2, Inl (ValueError (''WorkflowRun '' @ nat_str i @ '' not found (approval resume)'')))
                  | Some r \<Rightarrow>
                      (s2\<lparr>pdb := update_run_status (pdb s2) i ''running''
                          [ApprovalState (Some (AList.update ''awaiting'' (JBool False) (approval_state_of r)))] False\<rparr>,
                       Inr (truthy (dget (approval_state_of r) ''auto_approve_remaining'' JNull))))))"

section \<open>Dispatch\<close>

record batch_state =
  bs_index :: nat
  bs_offset :: nat
  bs_completed :: nat
  bs_failed :: nat
  bs_auto :: bool
  bs_results :: "child_output res list"

definition start_batches :: batch_state where
  "start_batches = \<lparr>bs_index = 0, bs_offset = 0, bs_completed = 0, bs_failed = 0, bs_auto = False, bs_results = []\<rparr>"

definition batch_gate :: "orchestration \<Rightarrow> fan_out_signal \<Rightarrow> nat \<Rightarrow> string \<Rightarrow> dispatch_plan \<Rightarrow> bool \<Rightarrow> nat \<Rightarrow> string list list \<Rightarrow>
    batch_state \<Rightarrow> platform \<Rightarrow> platform \<times> bool res" where
  "batch_gate oc sig i uuid plan first_auto batch_count batch b s =
     (if batch_needs_approval_gate (bs_index b) first_auto (bs_auto b)
      then wait_and_resume_batch_approval oc sig i uuid (bs_index b) batch_count (bs_completed b) (bs_failed b)
             (device_names_for_groups plan batch) (length (dp_device_ids plan)) s
      else (s, Inr (bs_auto b)))"

definition after_batch :: "string list list \<Rightarrow> child_output res list \<Rightarrow> bool \<Rightarrow> batch_state \<Rightarrow> batch_state" where
  "after_batch batch results auto b =
     (let (n, bad) = tally_batch_failures batch results in
      \<lparr>bs_index = bs_index b + 1, bs_offset = bs_offset b + length batch, bs_completed = bs_completed b + n,
       bs_failed = bs_failed b + bad, bs_auto = auto, bs_results = bs_results b @ results\<rparr>)"

fun dispatch_batches :: "orchestration \<Rightarrow> fan_out_signal \<Rightarrow> nat \<Rightarrow> string \<Rightarrow> canvas_node list \<Rightarrow> canvas_edge list \<Rightarrow>
    dispatch_plan \<Rightarrow> bool \<Rightarrow> nat \<Rightarrow> string list list list \<Rightarrow> batch_state \<Rightarrow> platform \<Rightarrow> platform \<times> child_output res list res" where
  "dispatch_batches oc sig i uuid nodes es plan first_auto batch_count [] b s = (s, Inr (bs_results b))"
| "dispatch_batches oc sig i uuid nodes es plan first_auto batch_count (batch # batches) b s =
     (case batch_gate oc sig i uuid plan first_auto batch_count batch b s of
        (s1, Inl e) \<Rightarrow> (s1, Inl e)
      | (s1, Inr auto) \<Rightarrow>
          (let (s2, results) = run_groups oc sig i (dp_all_devices plan) batch (bs_offset b) s1;
               b' = after_batch batch results auto b
           in case aggregate_and_persist oc i sig nodes es (bs_results b') False (pdb s2) of
                (d, Inl e) \<Rightarrow> (s2\<lparr>pdb := d\<rparr>, Inl e)
              | (d, Inr _) \<Rightarrow> dispatch_batches oc sig i uuid nodes es plan first_auto batch_count batches b' (s2\<lparr>pdb := d\<rparr>)))"

definition dispatch_with_approval :: "orchestration \<Rightarrow> fan_out_signal \<Rightarrow> nat \<Rightarrow> string \<Rightarrow> canvas_node list \<Rightarrow> canvas_edge list \<Rightarrow>
    dispatch_plan \<Rightarrow> platform \<Rightarrow> platform \<times> child_output res list res" where
  "dispatch_with_approval oc sig i uuid nodes es plan s =
     (case config_int (dget (dp_approval_cfg plan) ''batch_size'' (JInt 1)) of
        Inl e \<Rightarrow> (s, Inl e)
      | Inr n \<Rightarrow>
          (let batches = slices (nat (max 1 n)) (dp_groups plan);
               first_auto = truthy (dget (dp_approval_cfg plan) ''first_batch_auto'' (JBool True))
           in dispatch_batches oc sig i uuid nodes es plan first_auto (length batches) batches start_batches s))"

definition dispatch_children :: "orchestration \<Rightarrow> fan_out_signal \<Rightarrow> nat \<Rightarrow> string \<Rightarrow> canvas_node list \<Rightarrow> canvas_edge list \<Rightarrow>
    platform \<Rightarrow> platform \<times> child_output res list res" where
  "dispatch_children oc sig i uuid nodes es s =
     (case parse_fan_out_dispatch sig of
        Inl e \<Rightarrow> (s, Inl e)
      | Inr plan \<Rightarrow>
          if dp_groups plan = [] then (s, Inr [])
          else let s1 = precreate_device_groups s i plan in
               if \<not> dp_approval_enabled plan
               then (let (s2, rs) = run_groups oc sig i (dp_all_devices plan) (dp_groups plan) 0 s1 in (s2, Inr rs))
               else dispatch_with_approval oc sig i uuid nodes es plan s1)"

section \<open>Finishing\<close>

text \<open>The refresh after the update raises when the row is gone.\<close>

definition finish_run :: "orchestration \<Rightarrow> platform \<Rightarrow> nat \<Rightarrow> string \<Rightarrow> platform \<times> unit res" where
  "finish_run oc s i status =
     (let s1 = s\<lparr>pdb := update_run_status (pdb s) i status [FinishedAt (Some (utc_now (oc_service oc)))] False\<rparr> in
      case get_run (pdb s1) i of
        None \<Rightarrow> (s1, Inl (OtherError ''InvalidRequestError''))
      | Some run \<Rightarrow> (maybe_reconcile_deploy_run s1 (utc_now (oc_service oc)) run, Inr ()))"

definition verdict_status :: "bool \<Rightarrow> string" where
  "verdict_status ok = (if ok then ''success'' else ''failed'')"

definition join_outcomes :: "fan_out_signal \<Rightarrow> outcome_table \<Rightarrow> outcome_table" where
  "join_outcomes sig child_merged =
     foldl (\<lambda>d (k, v). AList.update k v d) [(inventory_node_id sig, [(''success'', inventory_outcome sig)])] child_merged"

text \<open>The steps after the join, run once on the merged outcomes; \<open>True\<close> without a join.\<close>

definition resume_join :: "orchestration \<Rightarrow> platform \<Rightarrow> run_row \<Rightarrow> fan_out_signal \<Rightarrow> outcome_table \<Rightarrow> platform \<times> bool res" where
  "resume_join oc s run sig child_merged =
     (case join_node_id sig of
        None \<Rightarrow> (s, Inr True)
      | Some j \<Rightarrow>
     (case get_workflow s (run_workflow_id run) of
        None \<Rightarrow> (s, Inl (ValueError (''Workflow '' @ nat_str (run_workflow_id run) @ '' not found (phase 4 resume)'')))
      | Some f \<Rightarrow>
          (let (d, r) = resume_after_join (oc_runner oc) run (workflow_row.truncate f) (join_outcomes sig child_merged) j (pdb s)
           in (s\<lparr>pdb := d\<rparr>, res_bind r (\<lambda>x. Inr (x = Finished True))))))"

definition finalize_fan_out_parent :: "orchestration \<Rightarrow> platform \<Rightarrow> nat \<Rightarrow> fan_out_signal \<Rightarrow> canvas_node list \<Rightarrow> canvas_edge list \<Rightarrow>
    child_output res list \<Rightarrow> platform \<times> string res" where
  "finalize_fan_out_parent oc s i sig nodes es results =
     (case get_run (pdb s) i of
        None \<Rightarrow> (s, Inl (ValueError (''WorkflowRun '' @ nat_str i @ '' not found (phase 3)'')))
      | Some run \<Rightarrow>
     (case aggregate_and_persist oc (run_id run) sig nodes es results True (pdb s) of
        (d, Inl e) \<Rightarrow> (s\<lparr>pdb := d\<rparr>, Inl e)
      | (d, Inr (ok, merged)) \<Rightarrow>
     (case resume_join oc (s\<lparr>pdb := d\<rparr>) run sig merged of
        (s2, Inl e) \<Rightarrow> (s2, Inl e)
      | (s2, Inr joined) \<Rightarrow>
          (let status = verdict_status (ok \<and> joined); (s3, r) = finish_run oc s2 i status in (s3, res_bind r (\<lambda>_. Inr status))))))"

section \<open>The task\<close>

datatype phase1_result = Early string bool | Dispatch string fan_out_signal "canvas_node list" "canvas_edge list"

definition prepare :: "orchestration \<Rightarrow> platform \<Rightarrow> nat \<Rightarrow> platform \<times> bool" where
  "prepare oc s i =
     (let (d, claimed) = transition_run (pdb s) i ''running'' (Some {''pending''}) [StartedAt (Some (utc_now (oc_service oc)))]
      in (s\<lparr>pdb := d\<rparr>, claimed))"

definition run_steps_until_fan_out_or_done :: "orchestration \<Rightarrow> run_row \<Rightarrow> workflow_row \<Rightarrow> db \<Rightarrow> db \<times> phase1_result res" where
  "run_steps_until_fan_out_or_done oc run flow d =
     (case execute_all (oc_runner oc) run flow d of
        (e, Inl x) \<Rightarrow> (e, Inl x)
      | (e, Inr (FanOut sig)) \<Rightarrow>
          (e, res_bind (load_execution_graph (canvas_nodes flow) (canvas_edges flow)) (\<lambda>(nodes, es).
                Inr (Dispatch (run_uuid run) sig nodes es)))
      | (e, Inr (Finished ok)) \<Rightarrow> (e, Inr (Early (verdict_status ok) False)))"

definition phase1_run_or_early_finish :: "orchestration \<Rightarrow> platform \<Rightarrow> nat \<Rightarrow> platform \<times> phase1_result res" where
  "phase1_run_or_early_finish oc s i =
     (case get_run (pdb s) i of
        None \<Rightarrow> (s, Inl (ValueError (''WorkflowRun '' @ nat_str i @ '' not found'')))
      | Some run \<Rightarrow>
          if run_status run \<noteq> ''running'' then (s, Inr (Early (run_status run) True))
          else case get_workflow s (run_workflow_id run) of
            None \<Rightarrow> (s, Inl (ValueError (''Workflow '' @ nat_str (run_workflow_id run) @ '' not found'')))
          | Some f \<Rightarrow>
             (case run_steps_until_fan_out_or_done oc run (workflow_row.truncate f) (pdb s) of
                (d, Inl e) \<Rightarrow> (s\<lparr>pdb := d\<rparr>, Inl e)
              | (d, Inr (Early status skipped)) \<Rightarrow>
                  (let (s1, r) = finish_run oc (s\<lparr>pdb := d\<rparr>) i status in (s1, res_bind r (\<lambda>_. Inr (Early status skipped))))
              | (d, Inr r) \<Rightarrow> (s\<lparr>pdb := d\<rparr>, Inr r)))"

definition execute_steps_inner :: "orchestration \<Rightarrow> platform \<Rightarrow> nat \<Rightarrow> platform \<times> string res" where
  "execute_steps_inner oc s i =
     (case phase1_run_or_early_finish oc s i of
        (s1, Inl e) \<Rightarrow> (s1, Inl e)
      | (s1, Inr (Early status _)) \<Rightarrow> (s1, Inr status)
      | (s1, Inr (Dispatch uuid sig nodes es)) \<Rightarrow>
          (case dispatch_children oc sig i uuid nodes es s1 of
             (s2, Inl e) \<Rightarrow> (s2, Inl e)
           | (s2, Inr results) \<Rightarrow> finalize_fan_out_parent oc s2 i sig nodes es results))"

definition INTERRUPTED :: string where
  "INTERRUPTED = ''The workflow task ended before the run finished (worker stopped, timeout or engine '' @
     ''cancel). Devices may have been changed by the steps that had started.''"

definition DELIVERED_TWICE :: string where
  "DELIVERED_TWICE = ''The run was delivered to a worker twice; it was not executed again so that no device '' @
     ''is configured twice.''"

definition INTERNAL :: string where
  "INTERNAL = ''The workflow engine hit an internal error; see the worker log for this error id.''"

definition interruption_message :: "py_exn \<Rightarrow> string" where
  "interruption_message e =
     (case e of RunAlreadyStarted _ \<Rightarrow> DELIVERED_TWICE
      | OtherError n \<Rightarrow> if n = ''CancelledError'' then INTERRUPTED else INTERNAL
      | _ \<Rightarrow> INTERNAL)"

definition finalise_interrupted :: "orchestration \<Rightarrow> platform \<Rightarrow> nat \<Rightarrow> string \<Rightarrow> platform" where
  "finalise_interrupted oc s i message = fst (fail_interrupted (oc_service oc) s i message ''internal'' None)"

definition execute_steps :: "orchestration \<Rightarrow> platform \<Rightarrow> nat \<Rightarrow> platform \<times> string res" where
  "execute_steps oc s i =
     (case execute_steps_inner oc s i of
        (s1, Inl e) \<Rightarrow> (finalise_interrupted oc s1 i (interruption_message e), Inl e)
      | (s1, Inr r) \<Rightarrow> (s1, Inr r))"

text \<open>The failure task of the engine: a timeout or a lost worker.\<close>

definition fail_run_task :: "orchestration \<Rightarrow> platform \<Rightarrow> nat \<Rightarrow> platform" where
  "fail_run_task oc s i = finalise_interrupted oc s i INTERRUPTED"

end
