(* ===== verification/Fan_Out_Walk.thy ===== *)
theory Fan_Out_Walk
  imports Fan_Out_Child Step_Runner_Rows
begin

text \<open>
  What the walk of a fan-out child leaves behind: a prefix of the waves ran, each of its nodes was executed or blocked,
  and nothing after the first wave with an exception, or after a cancellation, was executed.
\<close>

section \<open>Steps of the walk\<close>

definition FINAL_NODE_STATES :: "string set" where
  "FINAL_NODE_STATES = {''success'', ''partial'', ''failed'', ''skipped''}"

text \<open>From \<open>w\<close> to \<open>v\<close> exactly the nodes \<open>A\<close> were run.\<close>

definition ran :: "(nat \<times> nat) option \<Rightarrow> workflow_context \<Rightarrow> string set \<Rightarrow> subwalk \<Rightarrow> subwalk \<Rightarrow> bool" where
  "ran sink init A w v \<longleftrightarrow>
     (\<forall>k. k \<notin> A \<longrightarrow> map_of (sw_outcomes v) k = map_of (sw_outcomes w) k \<and> map_of (sw_errors v) k = map_of (sw_errors w) k
        \<and> map_of (sw_states v) k = map_of (sw_states w) k)
   \<and> sw_blocked w \<subseteq> sw_blocked v
   \<and> (\<forall>k \<in> A. (map_of (sw_outcomes v) k \<noteq> None \<or> k \<in> sw_blocked v)
        \<and> (map_of (sw_errors v) k \<noteq> None \<longrightarrow> map_of (sw_outcomes v) k = Some [(''failure'', init)])
        \<and> (sink \<noteq> None \<longrightarrow> map_of (sw_states v) k \<in> Some ` FINAL_NODE_STATES))"

lemma ran_refl: "ran sink init {} w w"
  by (simp add: ran_def)

lemma ran_other:
  assumes "ran sink init A w v" and "k \<notin> A"
  shows "map_of (sw_outcomes v) k = map_of (sw_outcomes w) k" "map_of (sw_errors v) k = map_of (sw_errors w) k"
    "map_of (sw_states v) k = map_of (sw_states w) k"
  using assms by (simp_all add: ran_def)

lemma ran_blocked: "ran sink init A w v \<Longrightarrow> sw_blocked w \<subseteq> sw_blocked v"
  by (simp add: ran_def)

text \<open>What holds of a node that was run.\<close>

definition node_done :: "(nat \<times> nat) option \<Rightarrow> workflow_context \<Rightarrow> subwalk \<Rightarrow> string \<Rightarrow> bool" where
  "node_done sink init v k \<longleftrightarrow> (map_of (sw_outcomes v) k \<noteq> None \<or> k \<in> sw_blocked v)
     \<and> (map_of (sw_errors v) k \<noteq> None \<longrightarrow> map_of (sw_outcomes v) k = Some [(''failure'', init)])
     \<and> (sink \<noteq> None \<longrightarrow> map_of (sw_states v) k \<in> Some ` FINAL_NODE_STATES)"

lemma ran_done: "ran sink init A w v \<Longrightarrow> k \<in> A \<Longrightarrow> node_done sink init v k"
  by (simp add: ran_def node_done_def)

lemma ranI:
  assumes "\<And>k. k \<notin> A \<Longrightarrow> map_of (sw_outcomes v) k = map_of (sw_outcomes w) k"
    and "\<And>k. k \<notin> A \<Longrightarrow> map_of (sw_errors v) k = map_of (sw_errors w) k"
    and "\<And>k. k \<notin> A \<Longrightarrow> map_of (sw_states v) k = map_of (sw_states w) k"
    and "sw_blocked w \<subseteq> sw_blocked v" and "\<And>k. k \<in> A \<Longrightarrow> node_done sink init v k"
  shows "ran sink init A w v"
  using assms by (simp add: ran_def node_done_def)

lemma node_done_cong:
  assumes "node_done sink init v k" and "map_of (sw_outcomes u) k = map_of (sw_outcomes v) k"
    and "map_of (sw_errors u) k = map_of (sw_errors v) k" and "map_of (sw_states u) k = map_of (sw_states v) k"
    and "sw_blocked v \<subseteq> sw_blocked u"
  shows "node_done sink init u k"
  using assms unfolding node_done_def by auto

lemma ran_trans:
  assumes A: "ran sink init A w v" and B: "ran sink init B v u" and "A \<inter> B = {}"
  shows "ran sink init (A \<union> B) w u"
proof (rule ranI)
  show "sw_blocked w \<subseteq> sw_blocked u" using ran_blocked [OF A] ran_blocked [OF B] by blast
  show "node_done sink init u k" if "k \<in> A \<union> B" for k
  proof (cases "k \<in> B")
    case False
    then show ?thesis using that by (intro node_done_cong [OF ran_done [OF A] _ _ _ ran_blocked [OF B]] ran_other [OF B]) simp_all
  qed (rule ran_done [OF B])
qed (use ran_other [OF A] ran_other [OF B] in simp_all)

lemma report_simps [simp]:
  "sw_outcomes (report_node_started sink n w) = sw_outcomes w" "sw_outcomes (report_node_finished sink n st w) = sw_outcomes w"
  "sw_errors (report_node_started sink n w) = sw_errors w" "sw_errors (report_node_finished sink n st w) = sw_errors w"
  "sw_blocked (report_node_started sink n w) = sw_blocked w" "sw_blocked (report_node_finished sink n st w) = sw_blocked w"
  "runs (sw_db (report_node_started sink n w)) = runs (sw_db w)" "runs (sw_db (report_node_finished sink n st w)) = runs (sw_db w)"
  "steps (sw_db (report_node_started sink n w)) = steps (sw_db w)" "steps (sw_db (report_node_finished sink n st w)) = steps (sw_db w)"
  by (simp_all add: report_node_started_def report_node_finished_def sink_set_def set_device_group_node_state_def update_group_def
      split: option.split)

lemma report_states:
  "k \<noteq> n \<Longrightarrow> map_of (sw_states (report_node_started sink n w)) k = map_of (sw_states w) k"
  "k \<noteq> n \<Longrightarrow> map_of (sw_states (report_node_finished sink n st w)) k = map_of (sw_states w) k"
  "sink \<noteq> None \<Longrightarrow> map_of (sw_states (report_node_finished sink n st w)) n = Some st"
  by (auto simp: report_node_started_def report_node_finished_def sink_set_def update_conv split: option.split)

lemma status_final: "derive_step_result_status os \<in> FINAL_NODE_STATES"
  by (simp add: derive_step_result_status_def FINAL_NODE_STATES_def Let_def)

lemma execute_one_ran:
  assumes "execute_one_subgraph_node env run flow es sink n w = (v, r)"
  shows "\<forall>k. k \<noteq> nid n \<longrightarrow> map_of (sw_outcomes v) k = map_of (sw_outcomes w) k \<and> map_of (sw_states v) k = map_of (sw_states w) k"
    and "sw_errors v = sw_errors w" and "sw_blocked v = sw_blocked w"
    and "r = Inr () \<Longrightarrow> map_of (sw_outcomes v) (nid n) \<noteq> None"
    and "r = Inr () \<Longrightarrow> sink \<noteq> None \<Longrightarrow> map_of (sw_states v) (nid n) \<in> Some ` FINAL_NODE_STATES"
  using assms status_final
  by (auto simp: execute_one_subgraph_node_def Let_def case_prod_unfold store_step_outcomes_def update_conv report_states
      split: sum.splits)

lemma run_one_ran:
  assumes "run_one_subgraph_node env run flow es sink init n w = (v, Inr ())" and "map_of (sw_errors w) (nid n) = None"
  shows "ran sink init {nid n} w v"
proof (cases "subgraph_node_blocked env es n w")
  case (Inr b)
  show ?thesis
  proof (cases b)
    case True
    then have "v = report_node_finished sink (nid n) ''skipped'' (w\<lparr>sw_blocked := insert (nid n) (sw_blocked w)\<rparr>)"
      using assms(1) Inr by (simp add: run_one_subgraph_node_def)
    then show ?thesis using assms(2) by (auto simp: ran_def report_states FINAL_NODE_STATES_def)
  next
    case False
    obtain w1 r where ex: "execute_one_subgraph_node env run flow es sink n w = (w1, r)" by fastforce
    note one = execute_one_ran [OF ex]
    show ?thesis
    proof (cases r)
      case (Inl e)
      then have v: "v = record_subgraph_node_error env init (nid n) e (report_node_finished sink (nid n) ''failed'' w1)"
        using assms(1) Inr False ex by (simp add: run_one_subgraph_node_def)
      show ?thesis unfolding v using one(1-3)
        by (auto simp: ran_def record_subgraph_node_error_def case_prod_unfold store_step_outcomes_def failure_outcome_def
            update_conv report_states dict_of_def FINAL_NODE_STATES_def Let_def)
    next
      case (Inr u)
      then have v: "v = w1" using assms(1) \<open>subgraph_node_blocked env es n w = Inr b\<close> False ex by (simp add: run_one_subgraph_node_def)
      show ?thesis unfolding v using one Inr assms(2) by (auto simp: ran_def)
    qed
  qed
qed (use assms(1) in \<open>simp add: run_one_subgraph_node_def\<close>)

lemma gather_ran:
  assumes "gather_subgraph env run flow es sink init ns w = (v, Inr ())" and "distinct (map nid ns)"
    and "\<forall>n \<in> set ns. map_of (sw_errors w) (nid n) = None"
  shows "ran sink init (nid ` set ns) w v"
  using assms
proof (induction ns arbitrary: w)
  case (Cons n ns)
  obtain w1 r where one: "run_one_subgraph_node env run flow es sink init n w = (w1, r)" by fastforce
  with Cons.prems(1) have r: "r = Inr ()" and rest: "gather_subgraph env run flow es sink init ns w1 = (v, Inr ())"
    by (cases r; auto simp: case_prod_unfold)+
  have a: "ran sink init {nid n} w w1" by (rule run_one_ran) (use one r Cons.prems(3) in auto)
  have "ran sink init (nid ` set ns) w1 v"
  proof (rule Cons.IH [OF rest])
    show "\<forall>m \<in> set ns. map_of (sw_errors w1) (nid m) = None"
    proof
      fix m assume m: "m \<in> set ns"
      then have "nid m \<in> set (map nid ns)" by simp
      then have "nid m \<notin> {nid n}" using Cons.prems(2) by auto
      then show "map_of (sw_errors w1) (nid m) = None" using ran_other(2) [OF a] Cons.prems(3) m by simp
    qed
  qed (use Cons.prems(2) in simp)
  from ran_trans [OF a this] Cons.prems(2) show ?case by simp
qed (simp add: ran_refl)

section \<open>The waves\<close>

definition wave_ids :: "canvas_node list list \<Rightarrow> string set" where
  "wave_ids gens = nid ` set (concat gens)"

lemma wave_ids_simps [simp]: "wave_ids [] = {}" "wave_ids (g # gs) = nid ` set g \<union> wave_ids gs" "wave_ids (gs @ hs) = wave_ids gs \<union> wave_ids hs"
  by (auto simp: wave_ids_def)

lemma skip_wave_effect:
  "sw_outcomes (skip_subgraph_wave sink ns w) = sw_outcomes w" "sw_errors (skip_subgraph_wave sink ns w) = sw_errors w"
  "sw_blocked (skip_subgraph_wave sink ns w) = sw_blocked w" "runs (sw_db (skip_subgraph_wave sink ns w)) = runs (sw_db w)"
  "steps (sw_db (skip_subgraph_wave sink ns w)) = steps (sw_db w)"
  by (induction ns arbitrary: w) (simp_all add: skip_subgraph_wave_def)

lemma skip_wave_states:
  "k \<notin> nid ` set ns \<Longrightarrow> map_of (sw_states (skip_subgraph_wave sink ns w)) k = map_of (sw_states w) k"
  "sink \<noteq> None \<Longrightarrow> k \<in> nid ` set ns \<Longrightarrow> map_of (sw_states (skip_subgraph_wave sink ns w)) k = Some ''skipped''"
proof (induction ns arbitrary: w)
  case (Cons n ns)
  { case 1 with Cons.IH(1) show ?case by (simp add: skip_subgraph_wave_def report_states) }
  { case 2 with Cons show ?case
      by (cases "k \<in> nid ` set ns") (auto simp: skip_subgraph_wave_def report_states) }
qed (simp_all add: skip_subgraph_wave_def)

text \<open>After an exception or a cancellation the walk only marks the rest as skipped.\<close>

definition skipped_rest :: "(nat \<times> nat) option \<Rightarrow> string set \<Rightarrow> subwalk \<Rightarrow> subwalk \<Rightarrow> bool" where
  "skipped_rest sink A w v \<longleftrightarrow> sw_outcomes v = sw_outcomes w \<and> sw_errors v = sw_errors w \<and> sw_blocked v = sw_blocked w
     \<and> runs (sw_db v) = runs (sw_db w) \<and> (\<forall>k. k \<notin> A \<longrightarrow> map_of (sw_states v) k = map_of (sw_states w) k)
     \<and> (sink \<noteq> None \<longrightarrow> (\<forall>k \<in> A. map_of (sw_states v) k = Some ''skipped''))"

lemma waves_stopped:
  assumes "sw_errors w \<noteq> [] \<or> stop"
  shows "\<exists>v. subgraph_waves env run flow es sink init gens stop w = (v, Inr ()) \<and> skipped_rest sink (wave_ids gens) w v"
  using assms
proof (induction gens arbitrary: w)
  case (Cons g gens)
  let ?w = "skip_subgraph_wave sink g w"
  have step: "subgraph_waves env run flow es sink init (g # gens) stop w = subgraph_waves env run flow es sink init gens stop ?w"
    using Cons.prems by (cases stop) simp_all
  obtain v where v: "subgraph_waves env run flow es sink init gens stop ?w = (v, Inr ())" "skipped_rest sink (wave_ids gens) ?w v"
    using Cons.IH [of ?w] Cons.prems by (auto simp: skip_wave_effect)
  have "map_of (sw_states v) k = Some ''skipped''" if "sink \<noteq> None" "k \<in> nid ` set g \<union> wave_ids gens" for k
    using v(2) that skip_wave_states(2) [OF that(1), of k g w] by (cases "k \<in> wave_ids gens") (auto simp: skipped_rest_def)
  then have "skipped_rest sink (wave_ids (g # gens)) w v"
    using v(2) by (simp add: skipped_rest_def skip_wave_effect skip_wave_states(1))
  with step v(1) show ?case by simp
qed (simp add: skipped_rest_def)

text \<open>The shape of a finished walk: \<open>pre\<close> ran, \<open>post\<close> was skipped.\<close>

definition walked :: "run_row \<Rightarrow> (nat \<times> nat) option \<Rightarrow> workflow_context \<Rightarrow> canvas_node list list \<Rightarrow> canvas_node list list \<Rightarrow>
    subwalk \<Rightarrow> subwalk \<Rightarrow> bool" where
  "walked run sink init pre post w v \<longleftrightarrow> (\<exists>u. ran sink init (wave_ids pre) w u \<and> skipped_rest sink (wave_ids post) u v)
     \<and> (sw_errors v \<noteq> [] \<longrightarrow> pre \<noteq> [] \<and> fst ` set (sw_errors v) \<subseteq> nid ` set (last pre))
     \<and> (post \<noteq> [] \<and> sw_errors v = [] \<longrightarrow> status_of (sw_db v) (run_id run) = Some ''cancelled'')
     \<and> (pre \<noteq> [] \<longrightarrow> status_of (sw_db w) (run_id run) \<noteq> Some ''cancelled'')"

lemma status_of_runs: "runs d = runs e \<Longrightarrow> status_of d i = status_of e i"
  by (simp add: status_of_def get_run_def)

lemma waves_walked:
  assumes "subgraph_waves env run flow es sink init gens False w = (v, Inr ())" and "distinct (map nid (concat gens))"
    and "sw_errors w = []"
  shows "\<exists>pre post. gens = pre @ post \<and> walked run sink init pre post w v"
  using assms
proof (induction gens arbitrary: w)
  case Nil
  then have "walked run sink init [] [] w v" by (auto simp: walked_def skipped_rest_def intro!: exI [of _ w] ran_refl)
  then show ?case by blast
next
  case (Cons g gens)
  from Cons.prems(1,3) obtain c where c: "cancel_requested (sw_db w) (run_id run) = Inr c" by (cases "cancel_requested (sw_db w) (run_id run)") auto
  show ?case
  proof (cases c)
    case True
    have st: "status_of (sw_db w) (run_id run) = Some ''cancelled''"
      using c True by (auto simp: cancel_requested_def status_of_def split: option.splits)
    have "subgraph_waves env run flow es sink init (g # gens) True w = (v, Inr ())"
      using Cons.prems(1,3) c True by simp
    with waves_stopped [of w True env run flow es sink init "g # gens"]
    have rest: "skipped_rest sink (wave_ids (g # gens)) w v" by auto
    then have "walked run sink init [] (g # gens) w v"
      using st Cons.prems(3) status_of_runs [of "sw_db v" "sw_db w"]
      unfolding walked_def by (auto simp: skipped_rest_def intro!: exI [of _ w] ran_refl)
    then show ?thesis by (intro exI [of _ "[]"] exI [of _ "g # gens"]) simp
  next
    case False
    have live: "status_of (sw_db w) (run_id run) \<noteq> Some ''cancelled''"
      using c False by (auto simp: cancel_requested_def status_of_def split: option.splits)
    obtain u r where gu: "gather_subgraph env run flow es sink init g w = (u, r)" by fastforce
    with Cons.prems(1,3) c False have r: "r = Inr ()" and rest: "subgraph_waves env run flow es sink init gens False u = (v, Inr ())"
      by (auto split: sum.splits)
    have g: "ran sink init (nid ` set g) w u" by (rule gather_ran) (use gu r Cons.prems in auto)
    have err: "fst ` set (sw_errors u) \<subseteq> nid ` set g"
    proof
      fix k assume "k \<in> fst ` set (sw_errors u)"
      then have "map_of (sw_errors u) k \<noteq> None" by (simp add: map_of_eq_None_iff)
      then show "k \<in> nid ` set g" using g Cons.prems(3) by (auto simp: ran_def)
    qed
    show ?thesis
    proof (cases "sw_errors u = []")
      case True
      have dg: "distinct (map nid (concat gens))" and disj: "nid ` set g \<inter> wave_ids gens = {}"
        using Cons.prems(2) by (auto simp: wave_ids_def)
      from Cons.IH [OF rest dg True] obtain pre post where
        IH: "gens = pre @ post" "walked run sink init pre post u v" by blast
      then obtain x where x: "ran sink init (wave_ids pre) u x" "skipped_rest sink (wave_ids post) x v" by (auto simp: walked_def)
      have "ran sink init (wave_ids (g # pre)) w x" using ran_trans [OF g x(1)] disj IH(1) by auto
      with x(2) IH(2) live have "walked run sink init (g # pre) post w v" by (auto simp: walked_def)
      then show ?thesis using IH(1) by (intro exI [of _ "g # pre"] exI [of _ post]) simp
    next
      case False
      then obtain v' where v': "subgraph_waves env run flow es sink init gens False u = (v', Inr ())" "skipped_rest sink (wave_ids gens) u v'"
        using waves_stopped [of u False] by blast
      then have "v' = v" using rest by simp
      then have "walked run sink init [g] gens w v"
        using v'(2) g err False live by (auto simp: walked_def skipped_rest_def)
      then show ?thesis by (intro exI [of _ "[g]"] exI [of _ gens]) simp
    qed
  qed
qed

section \<open>The plan of a child\<close>

definition child_plan :: "runner_env \<Rightarrow> workflow_row \<Rightarrow> string set \<Rightarrow> (canvas_edge list \<times> canvas_node list \<times> canvas_node list list) res" where
  "child_plan env flow allowed =
     res_bind (run_plan env flow) (\<lambda>(es, ordered).
       let ns = filter (\<lambda>n. nid n \<in> allowed) ordered in
       res_bind (topological_generations ns es) (\<lambda>gens. Inr (es, ns, gens)))"

lemma topo_sorted_snocD: "topo_sorted r (xs @ [x]) \<Longrightarrow> topo_sorted r xs \<and> (\<forall>u. (u, x) \<in> r \<longrightarrow> u \<in> set xs)"
  unfolding topo_sorted_def by (metis append.assoc append_Cons)

lemma topo_sorted_filter:
  "topo_sorted r xs \<Longrightarrow> s \<subseteq> r \<inter> A \<times> A \<Longrightarrow> topo_sorted s (filter (\<lambda>x. x \<in> A) xs)"
proof (induction xs rule: rev_induct)
  case (snoc x xs)
  from topo_sorted_snocD [OF snoc.prems(1)] have "topo_sorted s (filter (\<lambda>x. x \<in> A) xs)"
    and "\<forall>u. (u, x) \<in> s \<longrightarrow> u \<in> set (filter (\<lambda>x. x \<in> A) xs)" using snoc by auto
  then show ?case by (simp add: topo_sorted_snoc)
qed (simp add: topo_sorted_def)

lemma child_plan_waves:
  assumes "child_plan env flow allowed = Inr (es, ns, gens)"
  shows "distinct (map nid (concat gens))" and "set (concat gens) = set ns" and "wave_ids gens \<subseteq> allowed"
    and "\<exists>dep. wave_plan (graph_rel ns es) ns gens dep"
proof -
  from assms obtain nodes os where g: "build_execution_plan env nodes es = Inr os" "ns = filter (\<lambda>n. nid n \<in> allowed) os"
    "topological_generations ns es = Inr gens"
    by (auto simp: child_plan_def run_plan_def res_bind_def Let_def split: sum.splits)
  note ord = plan_sorted [OF g(1)]
  have some: "\<forall>n \<in> set ns. node_id n \<noteq> None" using ord(2) g(2) by simp
  have ids: "set (node_ids ns) = nid ` set ns" "set (node_ids os) = nid ` set os"
    using node_ids_nid [OF some] node_ids_nid [OF ord(2)] by simp_all
  have "graph_rel ns es \<subseteq> graph_rel os es \<inter> allowed \<times> allowed" unfolding graph_rel_def ids by (auto simp: g(2))
  moreover have "map nid ns = filter (\<lambda>k. k \<in> allowed) (map nid os)" by (simp add: g(2) filter_map o_def)
  ultimately have topo: "topo_sorted (graph_rel ns es) (map nid ns)" using topo_sorted_filter [OF ord(3)] by metis
  have dist: "distinct (map nid ns)" unfolding g(2) using ord(1) by (rule distinct_map_filter)
  from topological_generations_plan [OF some dist topo] g(3) obtain dep where
    wp: "wave_plan (graph_rel ns es) ns gens dep" by auto
  then show "\<exists>dep. wave_plan (graph_rel ns es) ns gens dep" by blast
  from generations_concat [OF wp] dist show "distinct (map nid (concat gens))" "set (concat gens) = set ns" by blast+
  then show "wave_ids gens \<subseteq> allowed" by (auto simp: wave_ids_def g(2))
qed

lemma run_subgraph_plan:
  assumes "run_subgraph env run flow init start allowed sink s = (v, Inr ())"
  shows "\<exists>es ns gens. child_plan env flow allowed = Inr (es, ns, gens)
    \<and> subgraph_waves env run flow es sink init gens False (start_subwalk s start init) = (v, Inr ())"
  using assms by (auto simp: run_subgraph_def child_plan_def run_plan_def Let_def split: sum.splits)

lemma graph_rel_targets: "graph_rel ns es \<subseteq> UNIV \<times> nid ` set ns"
  by (auto simp: graph_rel_def node_ids_def List.map_filter_def or_empty_def image_iff) (metis option.simps(5))

text \<open>Nodes below a node of a wave are in later waves.\<close>

lemma wave_plan_below:
  assumes wp: "wave_plan r ns gens dep" and split: "gens = pre @ post" and a: "a \<in> nid ` set (last pre)" "pre \<noteq> []"
    and b: "(a, b) \<in> r\<^sup>+" and r: "r \<subseteq> UNIV \<times> nid ` set ns"
  shows "b \<in> wave_ids post"
proof -
  from wp have gens: "gens = map (\<lambda>d. filter (\<lambda>n. dep (nid n) = d) ns) [0..<length gens]"
    and small: "\<forall>n \<in> set ns. dep (nid n) < length gens" and up: "\<forall>u v. (u, v) \<in> r \<longrightarrow> dep u < dep v"
    by (simp_all add: wave_plan_def)
  have wave: "gens ! k = filter (\<lambda>n. dep (nid n) = k) ns" if "k < length gens" for k
    using gens that by (metis (no_types, lifting) add_0 length_map map_nth nth_map nth_upt)
  let ?k = "length pre - 1"
  have k: "?k < length gens" using a(2) split by (cases pre) auto
  have "last pre = gens ! ?k" using a(2) split by (simp add: last_conv_nth nth_append)
  then have da: "dep a = ?k" using a(1) wave [OF k] by auto
  from b have "dep a < dep b \<and> b \<in> nid ` set ns"
    by (induction rule: trancl_induct) (use up r in \<open>force dest: less_trans\<close>)+
  then obtain n where n: "n \<in> set ns" "b = nid n" and db: "?k < dep b" using da by auto
  have lb: "dep b < length gens" using small n by simp
  have "n \<in> set (gens ! dep b)" using wave [OF lb] n by simp
  moreover have "gens ! dep b \<in> set post" using db lb a(2) split by (auto simp: nth_append)
  ultimately show ?thesis using n(2) by (auto simp: wave_ids_def)
qed

section \<open>Step rows\<close>

definition keeps_steps :: "runner_env \<Rightarrow> bool" where
  "keeps_steps env \<longleftrightarrow> (\<forall>t ex config c r n d. env_executor env t = Some ex \<longrightarrow> steps (fst (ex config c r n d)) = steps d)"

lemma execute_step_steps: "keeps_steps env \<Longrightarrow> steps (fst (execute_step env t config c r n d)) = steps d"
  by (auto simp: execute_step_def keeps_steps_def case_prod_unfold Let_def split: option.split sum.split)

lemma run_one_steps:
  assumes "keeps_steps env"
  shows "steps (sw_db (fst (run_one_subgraph_node env run flow es sink init n w))) = steps (sw_db w)"
proof -
  have "steps (sw_db (fst (execute_one_subgraph_node env run flow es sink n w))) = steps (sw_db w)"
    using execute_step_steps [OF assms]
    by (simp add: execute_one_subgraph_node_def Let_def case_prod_unfold split: sum.split)
  then show ?thesis
    by (auto simp: run_one_subgraph_node_def record_subgraph_node_error_def case_prod_unfold Let_def split: sum.splits bool.splits prod.splits)
qed

lemma gather_steps:
  "keeps_steps env \<Longrightarrow> steps (sw_db (fst (gather_subgraph env run flow es sink init ns w))) = steps (sw_db w)"
  using run_one_steps by (induction ns arbitrary: w) (simp_all add: case_prod_unfold Let_def)

lemma waves_steps:
  assumes "keeps_steps env"
  shows "steps (sw_db (fst (subgraph_waves env run flow es sink init gens stop w))) = steps (sw_db w)"
proof (induction gens arbitrary: stop w)
  case (Cons g gens)
  have "steps (sw_db (fst (case gather_subgraph env run flow es sink init g w of
        (w1, Inl e) \<Rightarrow> (w1, Inl e) | (w1, Inr _) \<Rightarrow> subgraph_waves env run flow es sink init gens stop' w1))) = steps (sw_db w)" for stop'
    using gather_steps [OF assms, of run flow es sink init g w] Cons.IH
    by (cases "gather_subgraph env run flow es sink init g w") (auto split: sum.splits)
  then show ?case using Cons.IH by (auto simp: skip_wave_effect split: sum.splits)
qed simp

section \<open>Properties\<close>


definition demo_child_walk :: "subwalk \<times> unit res" where
  "demo_child_walk = run_subgraph demo_env demo_run (demo_flow ''bad'') (empty_context ''u1'' ''1'') ''a'' {''b'', ''c''} (Some (1, 0)) demo_db"


end
