(* ===== verification/Fan_Out_Contracts.thy ===== *)
theory Fan_Out_Contracts
  imports Fan_Out_Parent Fan_Out_Walk
begin

text \<open>
  What the workflow task promises: it never leaves a run open, every device is handed to exactly one child, and the
  merged rows and verdict say what the children reported.
\<close>

section \<open>No run is left open\<close>

definition settled :: "db \<Rightarrow> nat \<Rightarrow> bool" where
  "settled d i \<longleftrightarrow> (\<forall>st. status_of d i = Some st \<longrightarrow> st \<in> TERMINAL_RUN_STATUSES)"

lemma settled_runs: "runs d = runs e \<Longrightarrow> settled d i = settled e i"
  by (simp add: settled_def status_of_def get_run_def)

lemma settled_transition:
  "st \<in> TERMINAL_RUN_STATUSES \<Longrightarrow> settled d i \<Longrightarrow> settled (fst (transition_run d k st src fs)) i"
  unfolding settled_def status_of_transition by (cases "get_run d i") (auto simp: status_of_def)

lemma transition_settles: "st \<in> TERMINAL_RUN_STATUSES \<Longrightarrow> settled (fst (transition_run d i st None fs)) i"
  unfolding settled_def status_of_transition by (cases "get_run d i") (auto simp: transition_guard_def)

lemma terminal_cancelled [simp]: "''cancelled'' \<in> TERMINAL_RUN_STATUSES" "''failed'' \<in> TERMINAL_RUN_STATUSES" "''success'' \<in> TERMINAL_RUN_STATUSES"
  by (simp_all add: TERMINAL_RUN_STATUSES_def)

lemma settled_finalise: "settled (finalise_open_step_results d k m now) i = settled d i"
  by (rule settled_runs) (simp add: finalise_open_step_results_def)

lemma settled_cancel: "settled (pdb s) i \<Longrightarrow> settled (pdb (cancel_if_active env s k)) i"
  by (auto simp: cancel_if_active_def cancel_active_run_def Let_def case_prod_unfold settled_finalise intro!: settled_transition)

lemma settled_walk: "settled (pdb s) i \<Longrightarrow> settled (pdb (fst (cancel_walk env cs seen s))) i"
proof (induction env cs seen s rule: cancel_walk.induct)
  case (2 env c cs seen s)
  then show ?case by (simp add: Let_def settled_cancel)
qed simp

lemma fail_interrupted_settles: "settled (pdb (fst (fail_interrupted env s i m c e))) i"
proof -
  have "settled (pdb (fst (fail_interrupted env s i m c e))) i" if "\<And>fs. settled (fst (transition_run (pdb s) i ''failed'' None fs)) i"
    using that by (auto simp: fail_interrupted_def Let_def case_prod_unfold cancel_child_runs_def settled_finalise intro!: settled_walk split: option.split)
  then show ?thesis using transition_settles by simp
qed

lemma finish_run_settles: "status \<in> TERMINAL_RUN_STATUSES \<Longrightarrow> settled (pdb (fst (finish_run oc s i status))) i"
  by (simp add: finish_run_def Let_def update_run_status_def transition_settles split: option.split)

lemma verdict_terminal [simp]: "verdict_status ok \<in> TERMINAL_RUN_STATUSES"
  by (simp add: verdict_status_def)

lemma phase1_settles:
  assumes "phase1_run_or_early_finish oc s i = (t, Inr (Early st skipped))" and "status_of (pdb s) i = Some ''running''"
  shows "settled (pdb t) i"
proof -
  from assms obtain d where "t = fst (finish_run oc (s\<lparr>pdb := d\<rparr>) i st)" "st \<in> TERMINAL_RUN_STATUSES"
    by (auto simp: phase1_run_or_early_finish_def status_of_def run_steps_until_fan_out_or_done_def res_bind_Inr_iff
        case_prod_unfold Let_def split: option.splits sum.splits walk_result.splits prod.splits if_splits)
  then show ?thesis using finish_run_settles by simp
qed

lemma finalize_settles:
  assumes "finalize_fan_out_parent oc s i sig nodes es results = (t, Inr st)"
  shows "settled (pdb t) i"
proof -
  from assms obtain s2 ok where "t = fst (finish_run oc s2 i (verdict_status ok))"
    by (auto simp: finalize_fan_out_parent_def case_prod_unfold Let_def split: option.splits sum.splits prod.splits)
  then show ?thesis using finish_run_settles by simp
qed

text \<open>C5: the workflow task never leaves its run open. However phase one, the children, the engine, the approval gates
  and the steps after the join behave, when \<open>execute_steps\<close> returns or raises for a running run, the row of that run
  is gone or has a final status; the same holds after the whole task on a pending run and after the engine's failure
  task on any run. A run in any other status is not executed and nothing is changed.\<close>

theorem workflow_task_ends_run:
  "(status_of (pdb s) i = Some ''running'' \<longrightarrow> settled (pdb (fst (execute_steps oc s i))) i)
    \<and> (status_of (pdb s) i = Some ''pending'' \<longrightarrow> settled (pdb (fst (execute_steps oc (fst (prepare oc s i)) i))) i)
    \<and> (status_of (pdb s) i = Some st \<and> st \<noteq> ''running'' \<longrightarrow> execute_steps oc s i = (s, Inr st))
    \<and> settled (pdb (fail_run_task oc s i)) i"
proof -
  have run: "settled (pdb (fst (execute_steps oc s i))) i" if st: "status_of (pdb s) i = Some ''running''" for s
  proof (cases "snd (execute_steps_inner oc s i)")
    case (Inl e)
    then have "fst (execute_steps oc s i) = finalise_interrupted oc (fst (execute_steps_inner oc s i)) i (interruption_message e)"
      by (simp add: execute_steps_def case_prod_unfold)
    then show ?thesis by (simp add: finalise_interrupted_def fail_interrupted_settles)
  next
    case (Inr r)
    then obtain t where t: "execute_steps_inner oc s i = (t, Inr r)" by (metis prod.collapse)
    then have "settled (pdb t) i" unfolding execute_steps_inner_def
      using phase1_settles [OF _ st] finalize_settles by (auto split: prod.splits sum.splits phase1_result.splits)
    then show ?thesis by (simp add: execute_steps_def t)
  qed
  have "settled (pdb (fst (execute_steps oc (fst (prepare oc s i)) i))) i" if st: "status_of (pdb s) i = Some ''pending''"
  proof (rule run)
    obtain r where r: "get_run (pdb s) i = Some r" "run_status r = ''pending''" using st by (auto simp: status_of_def)
    then show "status_of (pdb (fst (prepare oc s i))) i = Some ''running''"
      by (simp add: prepare_def case_prod_unfold Let_def status_of_transition transition_guard_def)
  qed
  moreover have "execute_steps oc s i = (s, Inr st)" if "status_of (pdb s) i = Some st" "st \<noteq> ''running''"
    using that by (auto simp: execute_steps_def execute_steps_inner_def phase1_run_or_early_finish_def status_of_def)
  moreover have "settled (pdb (fail_run_task oc s i)) i"
    by (simp add: fail_run_task_def finalise_interrupted_def fail_interrupted_settles)
  ultimately show ?thesis using run [of s] by simp
qed

section \<open>An example\<close>

text \<open>A context is sent as the list of its device ids.\<close>

definition demo_context :: "string list \<Rightarrow> workflow_context" where
  "demo_context ks = (empty_context ''u1'' ''1'')\<lparr>devices := map (\<lambda>k. (k, new_device k k k)) ks\<rparr>"

fun demo_ids :: "json list \<Rightarrow> string list" where
  "demo_ids (JStr k # js) = k # demo_ids js"
| "demo_ids _ = []"

definition demo_read :: "json list \<Rightarrow> workflow_context res" where
  "demo_read js = (if distinct (demo_ids js) then Inr (demo_context (demo_ids js)) else Inl (ValueError ''duplicate device''))"

definition demo_validate :: "json \<Rightarrow> workflow_context res" where
  "demo_validate j = (case j of JList js \<Rightarrow> demo_read js | _ \<Rightarrow> Inl (ValueError ''not a context''))"

definition demo_fan :: fan_env where
  "demo_fan = \<lparr>fe_dump = (\<lambda>c. JList (map (JStr \<circ> fst) (devices c))), fe_validate = demo_validate,
     fe_dump_json = (\<lambda>c. concat (map fst (devices c))), fe_validate_json = (\<lambda>t. Inr (demo_context (if t = [] then [] else [t]))),
     fe_child_secrets = (\<lambda>_. None), fe_group_error_id = (\<lambda>_. ''g'')\<rparr>"

definition demo_oc :: orchestration where
  "demo_oc = \<lparr>oc_service = demo_service_env, oc_runner = demo_env, oc_fan = demo_fan, oc_lost = (\<lambda>_. None), oc_reply = (\<lambda>_. Inr),
     oc_wait = (\<lambda>_ s. (s, Inr ())), oc_parent_secrets = None\<rparr>"

definition demo_task_platform :: platform where
  "demo_task_platform = demo_platform\<lparr>pdb := demo_db, flows := [(demo_workflow 1)\<lparr>canvas_nodes := canvas_nodes (demo_flow ''bad''),
     canvas_edges := canvas_edges (demo_flow ''bad'')\<rparr>]\<rparr>"

definition demo_signal :: fan_out_signal where
  "demo_signal = \<lparr>inventory_node_id = ''a'', fan_out_config = [(''enabled'', JBool True), (''mode'', JStr ''chunked''), (''chunk_size'', JInt 2)],
     inventory_outcome = demo_context [''r1'', ''r2'', ''r3''], signal_outcomes = [], join_node_id = None\<rparr>"

theorem workflow_task_ends_run_witness:
  "settled (pdb (fst (execute_steps demo_oc (fst (prepare demo_oc demo_task_platform (run_id demo_run))) (run_id demo_run)))) (run_id demo_run)
   \<and> status_of (pdb (fst (execute_steps demo_oc (fst (prepare demo_oc demo_task_platform (run_id demo_run))) (run_id demo_run)))) (run_id demo_run)
     = Some ''failed''"
proof
  have "status_of (pdb demo_task_platform) (run_id demo_run) = Some ''pending''" by code_simp
  then show "settled (pdb (fst (execute_steps demo_oc (fst (prepare demo_oc demo_task_platform (run_id demo_run))) (run_id demo_run)))) (run_id demo_run)"
    using workflow_task_ends_run [of demo_task_platform "run_id demo_run" demo_oc] by simp
qed code_simp

section \<open>The device groups\<close>

lemma concat_take_drop: "concat (map (\<lambda>k. take n (drop (k * n) xs)) [0..<m]) = take (m * n) xs"
  by (induction m) (simp_all add: take_add add.commute [of n])

lemma concat_slices: "0 < n \<Longrightarrow> concat (slices n xs) = xs"
proof -
  assume n: "0 < n"
  have "length xs \<le> (length xs + n - 1) div n * n"
    using n dividend_less_times_div [of n "length xs + n - 1"] by (simp add: mult.commute)
  then show ?thesis unfolding slices_def concat_take_drop by simp
qed

lemma slices_nonempty: "0 < n \<Longrightarrow> [] \<notin> set (slices n xs)"
proof -
  assume n: "0 < n"
  have "k * n < length xs" if "k < (length xs + n - 1) div n" for k
  proof -
    have "Suc k * n \<le> length xs + n - 1" using that n by (metis Suc_leI less_eq_div_iff_mult_less_eq)
    then show ?thesis using n by simp
  qed
  then show ?thesis using n by (auto simp: slices_def) (metis leD)
qed

lemma slices_small: "g \<in> set (slices n xs) \<Longrightarrow> length g \<le> n"
  by (auto simp: slices_def)

lemma pick_append: "pick d (ks @ ls) = pick d ks @ pick d ls"
  by (simp add: pick_def List.map_filter_def)

lemma pick_concat: "pick d (concat kss) = concat (map (pick d) kss)"
  by (induction kss) (simp_all add: pick_append, simp add: pick_def List.map_filter_def)

lemma pick_all: "dict_ok d \<Longrightarrow> pick d (map fst d) = d"
proof -
  assume ok: "dict_ok d"
  have "pick d (map fst e) = e" if "set e \<subseteq> set d" for e
    using that ok by (induction e) (auto simp: pick_def List.map_filter_def)
  then show ?thesis by simp
qed

lemma gather_children_length: "length (snd (gather_children oc inps s)) = length inps"
  by (induction inps arbitrary: s) (simp_all add: case_prod_unfold Let_def)

lemma run_groups_length: "length (snd (run_groups oc sig i all gs off s)) = length gs"
  by (simp add: run_groups_def gather_children_length build_child_inputs_def)

text \<open>The inputs of all batches, each batch with the offset it is started with.\<close>

fun batch_inputs :: "fan_env \<Rightarrow> fan_out_signal \<Rightarrow> nat \<Rightarrow> (string, device_context) dict \<Rightarrow> string list list list \<Rightarrow> nat \<Rightarrow> device_group_input list" where
  "batch_inputs fe sig i all [] off = []"
| "batch_inputs fe sig i all (b # bs) off = build_child_inputs fe sig i all b off @ batch_inputs fe sig i all bs (off + length b)"

lemma batch_inputs_concat: "batch_inputs fe sig i all bs off = build_child_inputs fe sig i all (concat bs) off"
  by (induction bs arbitrary: off) (simp_all add: build_child_inputs_def enumerate_append_eq)

lemma dispatch_batches_length:
  "dispatch_batches oc sig i uuid nodes es plan first_auto batch_count bs b s = (t, Inr rs) \<Longrightarrow>
     length rs = length (bs_results b) + length (concat bs)"
proof (induction bs arbitrary: b s)
  case (Cons g bs)
  from Cons.prems obtain s1 auto s2 results d x where
    r: "run_groups oc sig i (dp_all_devices plan) g (bs_offset b) s1 = (s2, results)"
    and rest: "dispatch_batches oc sig i uuid nodes es plan first_auto batch_count bs (after_batch g results auto b) (s2\<lparr>pdb := d\<rparr>) = (t, Inr rs)"
    by (auto simp: Let_def split: prod.splits sum.splits)
  have "length results = length g" using run_groups_length [of oc sig i "dp_all_devices plan" g "bs_offset b" s1] r by simp
  with Cons.IH [OF rest] show ?case by (simp add: after_batch_def case_prod_unfold Let_def)
qed simp



end
