(* ===== verification/Fan_Out_Merge.thy ===== *)
theory Fan_Out_Merge
  imports Fan_Out_Contracts
begin

text \<open>
  What the merge of the children leaves behind (\<open>_aggregate_and_persist\<close>): the rows of the child branch, the verdict
  and the merged outcomes, in terms of what the children returned.
\<close>

section \<open>Collecting\<close>

text \<open>All contexts collected so far, with node and outcome name.\<close>

definition got :: "collected \<Rightarrow> (string \<times> string \<times> workflow_context) set" where
  "got cl = {(n, name, c). c \<in> set (dget (dget (cl_nodes cl) n []) name [])}"

text \<open>What the children reported, as the parent reads it back.\<close>

definition reported :: "fan_env \<Rightarrow> string list \<Rightarrow> child_output res list \<Rightarrow> (string \<times> string \<times> workflow_context) set" where
  "reported fe ids results = {(n, name, c). n \<in> set ids \<and> (\<exists>out os j. Inr out \<in> set results \<and> (n, os) \<in> set (co_outcomes out)
     \<and> (name, j) \<in> set os \<and> fe_validate fe j = Inr c)}"

definition lists_ok :: "collected \<Rightarrow> bool" where
  "lists_ok cl \<longleftrightarrow> (\<forall>n. dict_ok (dget (cl_nodes cl) n []) \<and> (\<forall>kv \<in> set (dget (cl_nodes cl) n []). snd kv \<noteq> []))"

lemma res_fold_collect:
  assumes "\<And>acc x acc'. f acc x = Inr acc' \<Longrightarrow> g acc' = g acc \<union> F x" and "res_fold f acc xs = Inr acc'"
  shows "g acc' = g acc \<union> (\<Union>x \<in> set xs. F x)"
  using assms(2)
proof (induction xs arbitrary: acc)
  case (Cons x xs)
  then obtain b where b: "f acc x = Inr b" "res_fold f b xs = Inr acc'" by (auto simp: res_bind_Inr_iff)
  with Cons.IH [OF b(2)] assms(1) [OF b(1)] show ?case by auto
qed simp

lemma got_add_outcome:
  assumes "add_outcome fe n acc kv = Inr acc'"
  shows "got acc' = got acc \<union> {(n, fst kv, c) | c. fe_validate fe (snd kv) = Inr c}"
proof -
  from assms obtain c where c: "fe_validate fe (snd kv) = Inr c"
    and acc': "cl_nodes acc' = AList.update n (AList.update (fst kv) (dget (dget (cl_nodes acc) n []) (fst kv) [] @ [c]) (dget (cl_nodes acc) n [])) (cl_nodes acc)"
    by (auto simp: add_outcome_def res_bind_Inr_iff Let_def)
  show ?thesis unfolding got_def acc' by (auto simp: dget_update c split: if_splits)
qed

lemma got_add_node:
  assumes "add_node fe ids acc kv = Inr acc'"
  shows "got acc' = got acc \<union> {(n, name, c). n = fst kv \<and> n \<in> set ids \<and> (\<exists>j. (name, j) \<in> set (snd kv) \<and> fe_validate fe j = Inr c)}"
proof (cases "fst kv \<in> set ids")
  case True
  then have "res_fold (add_outcome fe (fst kv)) acc (snd kv) = Inr acc'" using assms by (simp add: add_node_def)
  from res_fold_collect [of "add_outcome fe (fst kv)" got, OF got_add_outcome this] show ?thesis using True by force
qed (use assms in \<open>auto simp: add_node_def\<close>)

lemma got_add_child:
  assumes "add_child fe ids acc r = Inr acc'"
  shows "got acc' = got acc \<union> reported fe ids [r]"
proof (cases r)
  case (Inl e)
  then show ?thesis using assms by (auto simp: add_child_def got_def reported_def)
next
  case (Inr out)
  let ?acc = "acc\<lparr>cl_errors := foldl setdefault (cl_errors acc) (co_errors out)\<rparr>"
  have "res_fold (add_node fe ids) ?acc (co_outcomes out) = Inr acc'" using assms Inr by (simp add: add_child_def)
  from res_fold_collect [of "add_node fe ids" got, OF got_add_node this]
  have "got acc' = got ?acc \<union> (\<Union>kv \<in> set (co_outcomes out). {(n, name, c). n = fst kv \<and> n \<in> set ids \<and> (\<exists>j. (name, j) \<in> set (snd kv) \<and> fe_validate fe j = Inr c)})" .
  moreover have "got ?acc = got acc" by (simp add: got_def)
  ultimately show ?thesis using Inr by (force simp: reported_def)
qed

lemma set_update: "set (AList.update k v d) \<subseteq> insert (k, v) (set d)"
  by (induction d) auto

lemma lists_add_outcome:
  assumes "add_outcome fe n acc kv = Inr acc'" and "lists_ok acc"
  shows "lists_ok acc'"
proof -
  let ?old = "dget (cl_nodes acc) n []"
  from assms(1) obtain c where acc0: "cl_nodes acc' = AList.update n (AList.update (fst kv) (dget ?old (fst kv) [] @ [c]) ?old) (cl_nodes acc)"
    by (auto simp: add_outcome_def res_bind_Inr_iff Let_def)
  define cs where "cs = dget ?old (fst kv) [] @ [c]"
  have cs: "cs \<noteq> []" and acc': "cl_nodes acc' = AList.update n (AList.update (fst kv) cs ?old) (cl_nodes acc)"
    using acc0 by (simp_all add: cs_def)
  have "snd x \<noteq> []" if "x \<in> set (AList.update (fst kv) cs ?old)" for x
    using that set_update [of "fst kv" cs ?old] cs assms(2) by (force simp: lists_ok_def)
  then show ?thesis using assms(2) by (auto simp: lists_ok_def acc')
qed

lemma add_outcome_failure: "add_outcome fe n acc kv = Inr acc' \<Longrightarrow> cl_failure acc' = cl_failure acc"
  by (auto simp: add_outcome_def res_bind_Inr_iff Let_def)

lemma add_child_kept:
  assumes "add_child fe ids acc r = Inr acc'" and "lists_ok acc"
  shows "lists_ok acc'" and "cl_failure acc' \<longleftrightarrow> cl_failure acc \<or> isl r"
proof -
  have node: "lists_ok b' \<and> cl_failure b' = cl_failure b" if "add_node fe ids b kv = Inr b'" "lists_ok b" for b kv b'
  proof (cases "fst kv \<in> set ids")
    case True
    then have "res_fold (add_outcome fe (fst kv)) b (snd kv) = Inr b'" using that(1) by (simp add: add_node_def)
    then show ?thesis
      by (rule res_fold_invariant [where P = "\<lambda>x. lists_ok x \<and> cl_failure x = cl_failure b"])
        (use that(2) lists_add_outcome add_outcome_failure in auto)
  qed (use that in \<open>simp add: add_node_def\<close>)
  have "lists_ok acc' \<and> (cl_failure acc' \<longleftrightarrow> cl_failure acc \<or> isl r)"
  proof (cases r)
    case (Inl e)
    then have "acc' = acc\<lparr>cl_failure := True\<rparr>" using assms by (simp add: add_child_def)
    then show ?thesis using assms(2) Inl by (simp add: lists_ok_def)
  next
    case (Inr out)
    let ?acc = "acc\<lparr>cl_errors := foldl setdefault (cl_errors acc) (co_errors out)\<rparr>"
    have "res_fold (add_node fe ids) ?acc (co_outcomes out) = Inr acc'" using assms(1) Inr by (simp add: add_child_def)
    then have "lists_ok acc' \<and> cl_failure acc' = cl_failure ?acc"
      by (rule res_fold_invariant [where P = "\<lambda>x. lists_ok x \<and> cl_failure x = cl_failure ?acc"])
        (use assms(2) node in \<open>auto simp: lists_ok_def\<close>)
    then show ?thesis using Inr by simp
  qed
  then show "lists_ok acc'" "cl_failure acc' \<longleftrightarrow> cl_failure acc \<or> isl r" by simp_all
qed

lemma reported_Cons: "reported fe ids (r # rs) = reported fe ids [r] \<union> reported fe ids rs"
  by (auto simp: reported_def)

lemma collect_children_spec:
  assumes "collect_children fe ids results = Inr cl"
  shows "got cl = reported fe ids results" and "lists_ok cl" and "cl_failure cl \<longleftrightarrow> (\<exists>r \<in> set results. isl r)"
proof -
  let ?P = "\<lambda>acc rs acc'. got acc' = got acc \<union> reported fe ids rs \<and> (lists_ok acc \<longrightarrow> lists_ok acc' \<and> (cl_failure acc' \<longleftrightarrow> cl_failure acc \<or> (\<exists>r \<in> set rs. isl r)))"
  have fold: "?P acc rs acc'" if "res_fold (add_child fe ids) acc rs = Inr acc'" for acc rs acc'
    using that
  proof (induction rs arbitrary: acc)
    case (Cons r rs)
    then obtain b where b: "add_child fe ids acc r = Inr b" "res_fold (add_child fe ids) b rs = Inr acc'" by (auto simp: res_bind_Inr_iff)
    from Cons.IH [OF b(2)] got_add_child [OF b(1)] add_child_kept [OF b(1)] reported_Cons [of fe ids r rs] show ?case by auto
  qed (auto simp: reported_def)
  let ?s = "\<lparr>cl_nodes = map (\<lambda>n. (n, [])) ids, cl_errors = [], cl_failure = False\<rparr>"
  have start: "dget (cl_nodes ?s) n [] = []" for n by (induction ids) (auto simp: dget_def)
  then have "got ?s = {}" "lists_ok ?s" by (simp_all add: got_def lists_ok_def dget_def)
  with fold [of ?s results cl] assms show "got cl = reported fe ids results" "lists_ok cl" "cl_failure cl \<longleftrightarrow> (\<exists>r \<in> set results. isl r)"
    by (simp_all add: collect_children_def)
qed

section \<open>The rows\<close>

definition node_status :: "collected \<Rightarrow> string \<Rightarrow> string" where
  "node_status cl n = derive_child_node_status (dget (cl_nodes cl) n []) (cl_failure cl)"

text \<open>One turn of the loop of the final merge.\<close>

definition node_stepped :: "collected \<Rightarrow> (string, nat) dict \<Rightarrow> string \<Rightarrow> db \<times> outcome_table \<times> bool \<Rightarrow> db \<times> outcome_table \<times> bool \<Rightarrow> bool" where
  "node_stepped cl rows n x y \<longleftrightarrow> (case (x, y) of ((d, merged, failed), (d', merged', failed')) \<Rightarrow>
     let outs = dget (cl_nodes cl) n [] in
     (if outs = [] then merged' = merged \<and> failed' = failed
      else (\<exists>ms. merge_outcomes n outs = Inr ms \<and> merged' = AList.update n ms merged)
        \<and> failed' = (failed \<or> map_of rows n \<noteq> None \<and> node_status cl n = ''failed''))
     \<and> (case map_of rows n of None \<Rightarrow> d' = d
        | Some x \<Rightarrow> (\<exists>v. persist_step_result d x (if outs = [] then ''skipped'' else node_status cl n) v = Inr d')))"

lemma persist_nodes_Cons:
  assumes "persist_nodes oc True cl rows (n # ns) d merged failed = (e, Inr r)"
  shows "\<exists>d' merged' failed'. persist_nodes oc True cl rows ns d' merged' failed' = (e, Inr r)
    \<and> node_stepped cl rows n (d, merged, failed) (d', merged', failed')"
proof (cases "dget (cl_nodes cl) n [] = []")
  case True
  then show ?thesis using assms by (auto simp: Let_def node_stepped_def split: option.splits sum.splits)
next
  case False
  with assms obtain ms where ms: "merge_outcomes n (dget (cl_nodes cl) n []) = Inr ms"
    by (auto simp: Let_def split: sum.splits)
  show ?thesis
  proof (cases "map_of rows n")
    case None
    then show ?thesis using assms False ms by (auto simp: Let_def node_stepped_def)
  next
    case (Some x)
    then show ?thesis using assms False ms by (auto simp: Let_def node_stepped_def node_status_def [symmetric] split: sum.splits)
  qed
qed

text \<open>The rows of run \<open>i\<close> by node, and a run that is not cancelled.\<close>

definition rows_by_node :: "db \<Rightarrow> nat \<Rightarrow> (string, nat) dict \<Rightarrow> bool" where
  "rows_by_node d i rows \<longleftrightarrow> \<not> run_cancelled d i
     \<and> (\<forall>n x. map_of rows n = Some x \<longrightarrow> (\<exists>y. get_step d x = Some y \<and> sr_run_id y = i \<and> sr_node_id y = n))"

lemma rows_by_nodeD:
  assumes "rows_by_node d i rows" and "map_of rows n = Some x"
  shows "\<exists>y. get_step d x = Some y \<and> sr_run_id y = i \<and> sr_node_id y = n"
  using assms by (simp add: rows_by_node_def)

lemma rows_by_node_inj:
  assumes "rows_by_node d i rows" and "map_of rows n = Some x" and "map_of rows m = Some x"
  shows "n = m"
  using rows_by_nodeD [OF assms(1,2)] rows_by_nodeD [OF assms(1,3)] by auto

lemma persist_writes:
  assumes "persist_step_result d x st v = Inr e" and "rows_by_node d i rows" and "map_of rows n = Some x"
  shows "map_option sr_status (get_step e x) = Some st" and "rows_by_node e i rows"
proof -
  note p = persist_InrD [OF assms(1)]
  obtain y where y: "get_step d x = Some y" "sr_run_id y = i" "sr_node_id y = n" using assms(2,3) by (auto simp: rows_by_node_def)
  have "\<not> step_frozen d y" using assms(2) y(2) by (auto simp: step_frozen_def rows_by_node_def)
  then have e: "get_step e x = Some (write_step st v y)" using p(3) y(1) by auto
  then show "map_option sr_status (get_step e x) = Some st" by (simp add: write_step_def)
  have "\<not> run_cancelled e i" using assms(2) p(2) by (simp add: rows_by_node_def run_cancelled_def)
  moreover have "\<exists>z. get_step e w = Some z \<and> sr_run_id z = i \<and> sr_node_id z = m" if "map_of rows m = Some w" for m w
  proof (cases "w = x")
    case True
    then have "m = n" using rows_by_node_inj [OF assms(2) _ assms(3)] that by simp
    then show ?thesis using e y True by (auto simp: write_step_def)
  next
    case False
    then show ?thesis using p(4) assms(2) that by (auto simp: rows_by_node_def)
  qed
  ultimately show "rows_by_node e i rows" by (simp add: rows_by_node_def)
qed

lemma persist_nodes_spec:
  assumes "persist_nodes oc True cl rows ns d merged failed = (e, Inr (m, f))" and "rows_by_node d i rows" and "distinct ns"
  shows "rows_by_node e i rows
    \<and> (\<forall>n x. map_of rows n = Some x \<longrightarrow> map_option sr_status (get_step e x) =
         (if n \<in> set ns then Some (if dget (cl_nodes cl) n [] = [] then ''skipped'' else node_status cl n) else map_option sr_status (get_step d x)))
    \<and> (f \<longleftrightarrow> failed \<or> (\<exists>n \<in> set ns. dget (cl_nodes cl) n [] \<noteq> [] \<and> map_of rows n \<noteq> None \<and> node_status cl n = ''failed''))
    \<and> (\<forall>n. n \<in> set ns \<and> dget (cl_nodes cl) n [] \<noteq> [] \<longrightarrow> (\<exists>ms. map_of m n = Some ms \<and> merge_outcomes n (dget (cl_nodes cl) n []) = Inr ms))
    \<and> (\<forall>n. n \<notin> set ns \<or> dget (cl_nodes cl) n [] = [] \<longrightarrow> map_of m n = map_of merged n)"
  using assms
proof (induction ns arbitrary: d merged failed)
  case (Cons n ns)
  let ?o = "\<lambda>n. dget (cl_nodes cl) n []"
  let ?st = "if ?o n = [] then ''skipped'' else node_status cl n"
  from persist_nodes_Cons [OF Cons.prems(1)] obtain d' merged' failed' where
    rest: "persist_nodes oc True cl rows ns d' merged' failed' = (e, Inr (m, f))"
    and step: "node_stepped cl rows n (d, merged, failed) (d', merged', failed')" by blast
  have empty: "?o n = [] \<Longrightarrow> merged' = merged \<and> failed' = failed"
    and full: "?o n \<noteq> [] \<Longrightarrow> (\<exists>ms. merge_outcomes n (?o n) = Inr ms \<and> merged' = AList.update n ms merged)
      \<and> failed' = (failed \<or> map_of rows n \<noteq> None \<and> node_status cl n = ''failed'')"
    and none: "map_of rows n = None \<Longrightarrow> d' = d"
    and some: "\<And>x. map_of rows n = Some x \<Longrightarrow> \<exists>v. persist_step_result d x ?st v = Inr d'"
    using step by (simp_all add: node_stepped_def Let_def split: if_splits)
  have row: "rows_by_node d' i rows \<and> (\<forall>x. map_of rows n = Some x \<longrightarrow> map_option sr_status (get_step d' x) = Some ?st)
      \<and> (\<forall>k x. k \<noteq> n \<and> map_of rows k = Some x \<longrightarrow> get_step d' x = get_step d x)"
  proof (cases "map_of rows n")
    case None
    then show ?thesis using none Cons.prems(2) by simp
  next
    case (Some x)
    then obtain v where v: "persist_step_result d x ?st v = Inr d'" using some by blast
    note w = persist_writes [OF v Cons.prems(2) Some]
    have "get_step d' y = get_step d y" if "k \<noteq> n" "map_of rows k = Some y" for k y
    proof (rule persist_InrD(4) [OF v])
      show "y \<noteq> x" using that rows_by_node_inj [OF Cons.prems(2) Some, of k] by metis
    qed
    then have "\<forall>k y. k \<noteq> n \<and> map_of rows k = Some y \<longrightarrow> get_step d' y = get_step d y" by blast
    with w Some show ?thesis by (intro conjI) simp_all
  qed
  note IH = Cons.IH [OF rest conjunct1 [OF row]]
  have n: "n \<notin> set ns" "distinct ns" using Cons.prems(3) by simp_all
  note IH = IH [OF n(2)]
  show ?case
  proof (intro conjI allI impI)
    show "rows_by_node e i rows" using IH by blast
    show "map_option sr_status (get_step e x) = (if k \<in> set (n # ns)
        then Some (if ?o k = [] then ''skipped'' else node_status cl k) else map_option sr_status (get_step d x))"
      if "map_of rows k = Some x" for k x
      using IH row n(1) that by (cases "k = n") auto
    show "f \<longleftrightarrow> failed \<or> (\<exists>k \<in> set (n # ns). ?o k \<noteq> [] \<and> map_of rows k \<noteq> None \<and> node_status cl k = ''failed'')"
      using IH empty full by (cases "?o n = []") auto
    show "\<exists>ms. map_of m k = Some ms \<and> merge_outcomes k (?o k) = Inr ms" if "k \<in> set (n # ns) \<and> ?o k \<noteq> []" for k
      using IH full n(1) that by (cases "k = n") auto
    show "map_of m k = map_of merged k" if "k \<notin> set (n # ns) \<or> ?o k = []" for k
      using IH empty full that by (cases "?o n = []"; cases "k = n") auto
  qed
qed simp

section \<open>What the outcomes say\<close>

lemma sum_devices_pos: "0 < sum_list (map (length \<circ> devices) cs) \<longleftrightarrow> (\<exists>c \<in> set cs. devices c \<noteq> [])"
  by (induction cs) auto

lemma got_iff: "(n, name, c) \<in> got cl \<longleftrightarrow> c \<in> set (dget (dget (cl_nodes cl) n []) name [])"
  by (simp add: got_def)

lemma got_entry:
  assumes "lists_ok cl" and "(name, cs) \<in> set (dget (cl_nodes cl) n [])"
  shows "(n, name, c) \<in> got cl \<longleftrightarrow> c \<in> set cs" and "cs \<noteq> []"
  using assms by (force simp: got_def lists_ok_def dget_def [of _ name])+

lemma outs_empty: "lists_ok cl \<Longrightarrow> dget (cl_nodes cl) n [] = [] \<longleftrightarrow> (\<forall>name c. (n, name, c) \<notin> got cl)"
proof
  assume ok: "lists_ok cl" and none: "\<forall>name c. (n, name, c) \<notin> got cl"
  show "dget (cl_nodes cl) n [] = []"
  proof (rule ccontr)
    assume "dget (cl_nodes cl) n [] \<noteq> []"
    then obtain name cs where e: "(name, cs) \<in> set (dget (cl_nodes cl) n [])" by (metis list.set_intros(1) neq_Nil_conv surj_pair)
    with got_entry(2) [OF ok e] obtain c where "c \<in> set cs" by (meson last_in_set)
    then show False using got_entry(1) [OF ok e] none by blast
  qed
qed (auto simp: got_def dget_def)

lemma sum_list_pos: "0 < sum_list (map f xs) \<longleftrightarrow> (\<exists>x \<in> set xs. 0 < (f x :: nat))"
  by (induction xs) auto

lemma node_status_got:
  assumes "lists_ok cl"
  shows "node_status cl n =
    (if cl_failure cl \<or> (\<exists>c. (n, ''failure'', c) \<in> got cl \<and> devices c \<noteq> [])
     then (if \<exists>name c. name \<noteq> ''failure'' \<and> (n, name, c) \<in> got cl \<and> devices c \<noteq> [] then ''partial'' else ''failed'') else ''success'')"
proof -
  let ?outs = "dget (cl_nodes cl) n []"
  let ?count = "\<lambda>cs. sum_list (map (length \<circ> devices) cs)"
  have bad: "0 < ?count (dget ?outs ''failure'' []) \<longleftrightarrow> (\<exists>c. (n, ''failure'', c) \<in> got cl \<and> devices c \<noteq> [])"
    unfolding sum_devices_pos by (auto simp: got_def)
  have "0 < sum_list (map (\<lambda>(name, cs). if name \<noteq> ''failure'' then ?count cs else 0) ?outs)
      \<longleftrightarrow> (\<exists>name c. name \<noteq> ''failure'' \<and> (n, name, c) \<in> got cl \<and> devices c \<noteq> [])" (is "?l \<longleftrightarrow> ?r")
  proof
    assume ?l
    then obtain name cs where e: "(name, cs) \<in> set ?outs" "name \<noteq> ''failure''" "0 < ?count cs" by (auto simp: sum_list_pos split: if_splits)
    then show ?r using got_entry(1) [OF assms e(1)] unfolding sum_devices_pos by blast
  next
    assume ?r
    then obtain name c where c: "name \<noteq> ''failure''" "(n, name, c) \<in> got cl" "devices c \<noteq> []" by blast
    then have "map_of ?outs name \<noteq> None" by (cases "map_of ?outs name") (simp_all add: got_iff dget_def [of _ name])
    then obtain cs where cs: "(name, cs) \<in> set ?outs" by (auto dest: map_of_SomeD)
    then have "0 < ?count cs" using got_entry(1) [OF assms cs] c unfolding sum_devices_pos by blast
    then show ?l using cs c(1) by (auto simp: sum_list_pos intro!: bexI [OF _ cs])
  qed
  with bad show ?thesis by (simp add: node_status_def derive_child_node_status_def Let_def)
qed

lemma merge_outcomes_lookup:
  "merge_outcomes n outs = Inr ms \<Longrightarrow> map_of ms name = Some m \<Longrightarrow> \<exists>cs. map_of outs name = Some cs \<and> merge_outcome n cs = Inr m"
proof (induction outs arbitrary: ms)
  case (Cons kv outs)
  obtain k cs where kv: "kv = (k, cs)" by (cases kv)
  with Cons.prems(1) obtain c rest where "merge_outcome n cs = Inr c" "merge_outcomes n outs = Inr rest" "ms = (k, c) # rest"
    by (auto simp: res_bind_Inr_iff)
  then show ?case using Cons.IH [of rest] Cons.prems(2) kv by (auto split: if_splits)
qed simp

lemma merge_outcome_devices:
  assumes "merge_outcome n cs = Inr m" and "\<forall>c \<in> set cs. context_ok c"
  shows "fst ` set (devices m) = (\<Union>c \<in> set cs. fst ` set (devices c))"
proof (cases cs)
  case (Cons c rs)
  show ?thesis
  proof (cases rs)
    case Nil
    then show ?thesis using assms(1) Cons by (simp add: merge_outcome_def)
  next
    case (Cons r rs')
    then have "res_fold (fan_in_step (Some n)) c rs = Inr m" using assms(1) \<open>cs = c # rs\<close> by (simp add: merge_outcome_def)
    with merge_fan_out_fold [OF children_joined_single [of n c], of rs] assms(2) \<open>cs = c # rs\<close>
    show ?thesis by (auto simp: children_joined_def)
  qed
qed (use assms(1) in \<open>simp add: merge_outcome_def\<close>)

section \<open>Properties\<close>

text \<open>The status of a child-branch row, from what the children reported about the node.\<close>

definition branch_status :: "(string \<times> string \<times> workflow_context) set \<Rightarrow> bool \<Rightarrow> string \<Rightarrow> string" where
  "branch_status rep lost n =
     (if \<forall>name c. (n, name, c) \<notin> rep then ''skipped''
      else if lost \<or> (\<exists>c. (n, ''failure'', c) \<in> rep \<and> devices c \<noteq> [])
      then (if \<exists>name c. name \<noteq> ''failure'' \<and> (n, name, c) \<in> rep \<and> devices c \<noteq> [] then ''partial'' else ''failed'') else ''success'')"

definition node_rows :: "db \<Rightarrow> nat \<Rightarrow> (string, nat) dict" where
  "node_rows d i = dict_of (map (\<lambda>x. (sr_node_id x, sr_id x)) (get_step_results_for_run d i))"

lemma run_rows:
  assumes "db_ok d"
  shows "map_of (node_rows d i) n = Some k \<longleftrightarrow> (\<exists>x \<in> set (steps d). sr_run_id x = i \<and> sr_node_id x = n \<and> sr_id x = k)"
    and "\<not> run_cancelled d i \<Longrightarrow> rows_by_node d i (node_rows d i)"
proof -
  let ?xs = "filter (\<lambda>x. sr_run_id x = i) (steps d)"
  have "inj_on (\<lambda>x. (sr_run_id x, sr_node_id x)) (set (steps d))" "distinct (steps d)"
    using assms by (simp_all add: db_ok_def distinct_map)
  then have "inj_on sr_node_id (set ?xs)" "distinct ?xs" by (auto simp: inj_on_def)
  then have "dict_ok (map (\<lambda>x. (sr_node_id x, sr_id x)) (get_step_results_for_run d i))"
    by (simp add: get_step_results_for_run_def distinct_map comp_def)
  then have rows: "node_rows d i = map (\<lambda>x. (sr_node_id x, sr_id x)) (get_step_results_for_run d i)" and ok: "dict_ok (node_rows d i)"
    by (simp_all add: node_rows_def dict_of_distinct)
  show iff: "map_of (node_rows d i) n = Some k \<longleftrightarrow> (\<exists>x \<in> set (steps d). sr_run_id x = i \<and> sr_node_id x = n \<and> sr_id x = k)" for n k
    unfolding map_of_eq_Some_iff [OF ok] by (auto simp: rows get_step_results_for_run_def)
  have get: "get_step d (sr_id x) = Some x" if "x \<in> set (steps d)" for x
    unfolding get_step_def using assms that by (intro find_key_distinct) (simp_all add: db_ok_def)
  show "rows_by_node d i (node_rows d i)" if "\<not> run_cancelled d i" using that iff get by (auto simp: rows_by_node_def)
qed

lemma aggregate_parts:
  assumes "aggregate_and_persist oc i sig nodes es results True d = (e, Inr (ok, merged))"
  shows "\<exists>cl f. collect_children (oc_fan oc) (child_branch sig nodes es) results = Inr cl
    \<and> persist_nodes oc True cl (node_rows d i) (child_branch sig nodes es) d [] False = (e, Inr (merged, f)) \<and> ok = (\<not> (cl_failure cl \<or> f))"
  using assms by (auto simp: aggregate_and_persist_def node_rows_def Let_def split: sum.splits prod.splits)

lemma branch_status_got:
  assumes "lists_ok cl" and "got cl = rep" and "cl_failure cl = lost"
  shows "(if dget (cl_nodes cl) n [] = [] then ''skipped'' else node_status cl n) = branch_status rep lost n"
proof (cases "dget (cl_nodes cl) n [] = []")
  case True
  then show ?thesis using outs_empty [OF assms(1), of n] assms(2) by (simp add: branch_status_def)
next
  case False
  then have "\<not> (\<forall>name c. (n, name, c) \<notin> rep)" using outs_empty [OF assms(1), of n] assms(2) by simp
  then show ?thesis using False unfolding branch_status_def node_status_got [OF assms(1)] assms(2,3) by (simp only: if_False)
qed

lemma merged_devices:
  assumes cl: "lists_ok cl" and valid: "\<forall>(n, name, c) \<in> got cl. context_ok c"
    and ms: "merge_outcomes n (dget (cl_nodes cl) n []) = Inr ms" "map_of ms name = Some m"
  shows "fst ` set (devices m) = \<Union> {fst ` set (devices c) | c. (n, name, c) \<in> got cl}"
proof -
  from merge_outcomes_lookup [OF ms] obtain cs where cs: "map_of (dget (cl_nodes cl) n []) name = Some cs" "merge_outcome n cs = Inr m" by blast
  note entry = got_entry(1) [OF cl map_of_SomeD [OF cs(1)]]
  have "\<forall>c \<in> set cs. context_ok c" using valid entry by blast
  from merge_outcome_devices [OF cs(2) this] show ?thesis using entry by auto
qed


text \<open>Two children: in the first the step \<open>b\<close> raised, the second went through; nobody reached \<open>c\<close>. The run counts as
  successful although an executor raised.\<close>

definition demo_results :: "child_output res list" where
  "demo_results =
     [Inr \<lparr>co_errors = [(''b'', \<lparr>se_message = ''boom'', se_category = ''internal'', se_error_id = ''e'', se_failure = None\<rparr>)],
           co_outcomes = [(''b'', [(''failure'', JList [JStr ''r1'']) ])]\<rparr>,
      Inr \<lparr>co_errors = [], co_outcomes = [(''b'', [(''success'', JList [JStr ''r2'']) ])]\<rparr>]"

definition demo_merge_db :: db where
  "demo_merge_db = fst (create_pending_step_results (run_id demo_run) (tl (canvas_nodes (demo_flow ''step''))) demo_db [])"

definition demo_merge :: "db \<times> (bool \<times> outcome_table) res" where
  "demo_merge = aggregate_and_persist demo_oc (run_id demo_run) demo_signal (canvas_nodes (demo_flow ''step'')) (canvas_edges (demo_flow ''step''))
     demo_results True demo_merge_db"

lemma demo_valid: "fe_validate (oc_fan demo_oc) j = Inr c \<Longrightarrow> context_ok c"
  by (auto simp: demo_oc_def demo_fan_def demo_validate_def demo_read_def demo_context_def context_ok_def empty_context_def
      new_device_def device_ok_def jdict_ok_def comp_def split: json.splits if_splits)


end
