(* ===== verification/Spec2Isabelle.thy ===== *)
theory Spec2Isabelle
  imports Fan_Out_Topology Step_Runner_Verdict Auth_Sessions Rbac_Seed Rate_Limiter Change_Request_Machine Run_Lifecycle Schedule_Contracts Run_Race Fan_Out_Merge
begin

text \<open>
  Verification of the workflow engine of Auxilium Manus (\<open>src/backend\<close>), a network automation platform.
  Users draw a workflow as a graph of steps on a canvas. A run resolves the graph, orders it and executes the steps over
  an envelope of devices; a fan-out splits the devices over child tasks and a fan-in merges them again. Runs are started
  by users, by schedules, by other runs and by the deployment of a change request; every one of these is checked against
  roles and permissions.

  The parts and how they interact
  -------------------------------

  The HTTP layer calls the services (run, schedule, change request, user and RBAC service). They keep their state in
  tables behind repositories and hand runs to the Hatchet engine, which calls back into the workflow task and the
  trigger task. The workflow task uses the step runner; the step runner uses the graph utilities, the guards, the context
  merge and the run repository. Two sweeps (the reaper of stuck runs, the purge of old ones) repair and clean the tables.

  Theories and sources
  --------------------

  Shared vocabulary
    Prelude                 exceptions as values of the type error, 'a res = error + 'a, Python dictionaries as
                            association lists (dict_ok: distinct keys), sorting, printing of integers, list lemmas
    Json                    the Any-typed values with the equality of Python (True = 1), truth and lookups
  Graph of a workflow
    Graph, Graph_Waves      services/execution/graph.py: Kahn order, waves, reachability (C1-C4)
    Graph_Resolution        services/execution/step_runner/graph_resolution.py and StepRunner.load_execution_graph:
                            notes, funnels, stop-here and disabled steps (C7, C8, C10)
    Fan_Out_Topology        services/execution/fan_out_topology.py: the rules R1-R3 (C11)
  Envelope and steps
    Workflow_Context        models/workflow_context.py, models/failure.py
    Context_Merge           services/workflow_context/merge.py (C12)
    Guards                  services/workflow_context/guards.py, registry.py, services/execution/step_result_status.py (C15)
    Run_Store               repositories/run_repository.py over core/models/runs.py (C17-C19)
    Step_Runner, Step_Runner_Rows, Step_Runner_Verdict
                            services/execution/step_runner/runner.py (C20-C22)
  The workflow task and its children
    Fan_Out_Child           step_runner/subgraph.py, progress.py, hatchet/workflows/device_group_execution.py
    Fan_Out_Walk            what a child leaves behind (C16)
    Fan_Out_Dispatch, Fan_Out_Parent
                            hatchet/workflows/workflow_run: phase one, dispatch, approval gates, aggregation, finish
    Fan_Out_Contracts       the run is ended (C5), the devices are split (C25)
    Fan_Out_Merge           what the aggregation reports (C14)
  Identity and rights
    Rbac_Store, Rbac_Catalog, Rbac_Service
                            repositories/rbac_repository.py, services/auth/rbac_service.py (policies P1-P6)
    Rbac_Policy             what the guards achieve together (C23, C24)
    Rbac_Users              services/users/user_service.py (C26, C27)
    Rbac_Seed               services/auth/rbac_seed.py (C31)
    Auth_Sessions           services/auth/auth_service.py, core/auth.py (C28, C29)
    Rate_Limiter            services/auth/login_rate_limiter.py (C30)
  Inputs and secrets
    Run_Inputs              services/execution/run_input_validation.py (C32)
    Secret_Fields, Secret_Redaction
                            core/crypto.py, services/workflow_context/secret_fields.py (C33-C35)
  Runs as a service
    Platform                the shared state: run tables, workflows, change requests, accounts, breaker
    Run_Service             services/execution/run_service.py, run_events.py
    Run_Columns, Run_Chains, Run_Cancellation
                            chains of runs (C36) and cancelling (C37)
    Run_Race                a start of a child racing the cancellation of its parent (C13)
    Run_Lifecycle           services/execution/run_lifecycle_service.py, retention_service.py (C40)
    Change_Requests, Change_Request_Machine
                            services/change_requests/change_request_service.py (C38, C39)
    Schedules, Schedule_Contracts
                            services/execution/schedule_service.py, schedule_fire.py, background_tier_service.py,
                            reference_resolver.py, hatchet/workflows/scheduled_trigger.py (C6, C9)

  How code becomes definitions
  ----------------------------

  A class with columns is a record, a table is a list of rows in insertion order with a counter for the next key (as the
  serial columns have it), and the tables a service shares are one record (db for runs and step rows, rbac for accounts
  and rights, platform for everything the run service sees, scheduler for platform, schedules and tier). An operation
  takes the state and returns it with a result; a raise is the left side of the result type, and the state returned with
  it is what was committed before the raise. A compare-and-set update in SQL (transition_run, cr_transition,
  update_step_result) is one step. Enumerations that the code keeps as strings are strings here as well. Times are
  integers; unbounded Python integers are int.

  Where requests race, the operations are cut at their commits and interleaved as an inductive step relation: the users
  of the RBAC and account operations (rbac_op, account_op), the repository (repo_step), the run service with the workers
  (service_step), schedules (schedule_step), change requests (cr_step) and the race of a starting child (race_step).
  Their invariants are proved by rule induction, and the whole
  operations are shown to be paths of the relation.

  Locales state the interfaces that are used more than once: a dictionary merge that unites what agrees and raises
  otherwise (checked_union), the tables the loop of Kahn works on (dependency_table), an observation of a store that
  steps can only end, never change (sticky_store), a column written at insertion only (fixed_column), administration
  delegated to users who may pass on only what they hold (delegated_administration), a log of attempts trimmed to a window
  (sliding_window). Each is interpreted on the definitions of the model in the theory of the provider.

  What the properties show
  ------------------------

  C1-C4, C7, C8, C10, C11: the order and the waves are correct and complete, the resolution keeps the dependencies of the
  canvas, an acyclic canvas with well-formed funnels always yields a plan, and the save-time rules of a fan-out are exact. C12, C15, C20-C22: no data is lost where branches meet, the guards
  raise exactly on a broken contract, a walk closes every row, its verdict agrees with the rows, and a second delivery
  does nothing. C5, C14, C16, C25: the workflow task ends its run whatever happens, devices are split without loss, a
  child stops after an exception, and the merged rows, verdict and outcomes say what the children reported. C17-C19, C40:
  final statuses are final, cancelled history is frozen, the purge and the reaper touch exactly what they should. C13, C36,
  C37: chains of runs are bounded, cancelling reaches every descendant, and no child survives by racing it. C38, C39: the
  change-request service refines its life cycle and deploys at most once. C6, C9: a schedule fires only for a creator who
  may run the workflow, and the engine and the tables agree. C23, C24, C26-C31: no escalation, the last administrator stays,
  sessions end and revoked tokens are refused, attempts are bounded. C32-C35: inputs are typed, secrets survive a round
  trip and are removed from what is exported or logged.

  Termination, bounds and fuel
  ----------------------------

  No definition uses fuel. The loop of Kahn and the traversals have measures over the nodes still to be visited, the purge
  one over the rows (every batch removes at least one), the walk of a cancellation over the runs not yet visited, the
  search for secrets over the rest of the text; each has its termination proof. The bounds in the statements are those of
  the code: chains of at most MAX_CHILD_RUN_DEPTH = 3 ancestors, the attempts per window of the limiter, the maximal age
  of a session, the chunk size of a fan-out.

  Arguments of the model
  ----------------------

  Code outside the repository, and code inside it that is only called, is an argument: the executors of the steps (any
  outcome, signal or exception, and any change to the run tables they commit), the Hatchet engine (it may fail, answer nothing, lose
  children or change their replies), the serialisation of the envelope by pydantic, password hashing, the signature of tokens and the
  Fernet cipher, float(text), clocks and fresh identifiers, the pre-run validation, the inventory and credential lookups.
  Hypotheses about them are named in the statements: that decryption inverts encryption, that an executor leaves the rows of the
  run alone (only where the verdict is compared with the rows), that a validated envelope is well formed. Every
  property with a hypothesis is followed by a witness that applies it to a concrete state.

  Simplifications
  ---------------

  The steps of one wave, and the children of one fan-out, run one after the other in list order; the walks keep separate
  results per node, and what they share is the run table, whose operations are atomic. Log messages, tracing and the text of
  violations are left out, as are columns nothing reads. A database error between two commits of one request is not
  modelled; a request that dies between its commits is a step of the change-request machine.

  Not modelled
  ------------

  The HTTP routes, the worker processes, the executors under workflow_steps, the clients of devices and of external systems
  (Nautobot, ISE, ACI, Catalyst Center, Batfish, pyATS, Git, OpenBao, Vault), the AI assistant, reports, artifacts and log files on disk,
  mail, settings, OIDC, the editing of workflows and the collection of per-step checks before a run: I/O, third-party
  protocols and rendering around the state that is modelled. The attribute-path and template language is used inside
  executors only. The manifest lists these parts with their files.
\<close>

end
